(* ===== verification/Prelude.thy ===== *)
theory Prelude
  imports Main "HOL-Library.Word" "HOL-Library.Sublist"
begin

section \<open>Shared types, results, arrays and byte codecs\<close>

text \<open>
  The vocabulary every component of the development uses: the machine integers of the Rust
  sources, byte strings, the result type of fallible code with its \<open>?\<close> operator, fixed-size
  arrays written by an indexed loop, checked arithmetic (the workspace builds with
  \<^verbatim>\<open>overflow-checks = true\<close>, so an overflowing \<^verbatim>\<open>+=\<close> panics), big-endian integers and the
  standard library's UTF-8 check. The collections \<open>result_simps\<close> and \<open>array_simps\<close> hold the
  rewrite rules the component proofs share.
\<close>

named_theorems result_simps "rewriting of the result combinators"
named_theorems array_simps "fixed-size arrays"

type_synonym u8 = "8 word"
type_synonym u32 = "32 word"
type_synonym u64 = "64 word"
type_synonym u128 = "128 word"
type_synonym u256 = "256 word"

type_synonym bytes = "u8 list"

subsection \<open>Results\<close>

text \<open>
  \<open>Result<T, E>\<close> is \<open>'e + 'a\<close>: \<open>Inl\<close> an error, \<open>Inr\<close> a value. \<open>bindE m f\<close> is \<open>let x = m?; f(x)\<close>
  and \<open>require c e\<close> is anchor's \<open>require!(c, e)\<close>.
\<close>

definition bindE :: "'e + 'a \<Rightarrow> ('a \<Rightarrow> 'e + 'b) \<Rightarrow> 'e + 'b" where
  "bindE m f = (case m of Inl e \<Rightarrow> Inl e | Inr x \<Rightarrow> f x)"

definition require :: "bool \<Rightarrow> 'e \<Rightarrow> 'e + unit" where
  "require c e = (if c then Inr () else Inl e)"

definition ok_or :: "'a option \<Rightarrow> 'e \<Rightarrow> 'e + 'a" where
  "ok_or x e = (case x of None \<Rightarrow> Inl e | Some v \<Rightarrow> Inr v)"

definition map_err :: "('e \<Rightarrow> 'f) \<Rightarrow> 'e + 'a \<Rightarrow> 'f + 'a" where
  "map_err f m = (case m of Inl e \<Rightarrow> Inl (f e) | Inr x \<Rightarrow> Inr x)"

lemma bindE_Inl [simp]: "bindE (Inl e) f = Inl e"
  and bindE_Inr [simp]: "bindE (Inr x) f = f x"
  by (simp_all add: bindE_def)

lemma bindE_eq_Inr [result_simps]: "bindE m f = Inr y \<longleftrightarrow> (\<exists>x. m = Inr x \<and> f x = Inr y)"
  by (cases m) auto

lemma bindE_eq_Inl [result_simps]:
  "bindE m f = Inl e \<longleftrightarrow> m = Inl e \<or> (\<exists>x. m = Inr x \<and> f x = Inl e)"
  by (cases m) auto

lemma require_eq_Inr [result_simps]: "require c e = Inr u \<longleftrightarrow> c"
  by (simp add: require_def)

lemma require_eq_Inl [result_simps]: "require c e = Inl e' \<longleftrightarrow> \<not> c \<and> e' = e"
  by (auto simp: require_def)

lemma require_True [simp]: "require True e = Inr ()"
  and require_False [simp]: "require False e = Inl e"
  by (simp_all add: require_def)

lemma ok_or_eq_Inr [result_simps]: "ok_or x e = Inr v \<longleftrightarrow> x = Some v"
  by (simp add: ok_or_def split: option.splits)

lemma ok_or_eq_Inl [result_simps]: "ok_or x e = Inl e' \<longleftrightarrow> x = None \<and> e' = e"
  by (auto simp: ok_or_def split: option.splits)

lemma ok_or_simps [simp]: "ok_or None e = Inl e" "ok_or (Some v) e = Inr v"
  by (simp_all add: ok_or_def)

lemma map_err_eq_Inr [result_simps]: "map_err f m = Inr x \<longleftrightarrow> m = Inr x"
  by (cases m) (auto simp: map_err_def)

lemma map_err_eq_Inl [result_simps]: "map_err f m = Inl e \<longleftrightarrow> (\<exists>e'. m = Inl e' \<and> e = f e')"
  by (cases m) (auto simp: map_err_def)

lemma map_err_simps [simp]: "map_err f (Inl e) = Inl (f e)" "map_err f (Inr x) = Inr x"
  by (simp_all add: map_err_def)

lemma bindE_cong [fundef_cong]:
  "m = m' \<Longrightarrow> (\<And>x. m' = Inr x \<Longrightarrow> f x = f' x) \<Longrightarrow> bindE m f = bindE m' f'"
  by (cases m') auto

text \<open>\<open>iter.map(f).collect::<Result<Vec<_>, _>>()\<close>: the first error, else every value.\<close>

fun mapE :: "('a \<Rightarrow> 'e + 'b) \<Rightarrow> 'a list \<Rightarrow> 'e + 'b list" where
  "mapE f [] = Inr []"
| "mapE f (x # xs) = bindE (f x) (\<lambda>y. bindE (mapE f xs) (\<lambda>ys. Inr (y # ys)))"

lemma mapE_cong [fundef_cong]:
  "xs = ys \<Longrightarrow> (\<And>x. x \<in> set ys \<Longrightarrow> f x = g x) \<Longrightarrow> mapE f xs = mapE g ys"
  by (induction ys arbitrary: xs) auto

lemma mapE_eq_Inr: "mapE f xs = Inr ys \<longleftrightarrow> list_all2 (\<lambda>x y. f x = Inr y) xs ys"
  by (induction xs arbitrary: ys) (auto simp: result_simps list_all2_Cons1)

subsection \<open>Fixed-size arrays\<close>

text \<open>
  \<open>for (i, k) in xs.into_iter().enumerate() { arr[i] = k; }\<close>, started at index \<open>i\<close>. A write past
  the end of the array panics, which is \<open>None\<close> here.
\<close>

fun store_from :: "nat \<Rightarrow> 'a list \<Rightarrow> 'a list \<Rightarrow> 'a list option" where
  "store_from i [] arr = Some arr"
| "store_from i (k # ks) arr =
     (if i < length arr then store_from (Suc i) ks (arr[i := k]) else None)"

lemma store_from_eq:
  "i \<le> length arr \<Longrightarrow>
   store_from i xs arr =
     (if i + length xs \<le> length arr then Some (take i arr @ xs @ drop (i + length xs) arr)
      else None)"
proof (induction xs arbitrary: i arr)
  case Nil
  then show ?case by simp
next
  case (Cons k ks)
  show ?case
  proof (cases "i < length arr")
    case True
    then have "take (Suc i) (arr[i := k]) = take i arr @ [k]"
      by (simp add: take_Suc_conv_app_nth)
    with True Cons.IH [of "Suc i" "arr[i := k]"] show ?thesis by simp
  qed (use Cons.prems in simp)
qed

lemma store_from_0 [array_simps]:
  "store_from 0 xs arr =
     (if length xs \<le> length arr then Some (xs @ drop (length xs) arr) else None)"
  by (simp add: store_from_eq)

text \<open>The list a fixed-size array stands for: its entries before the first default one.\<close>

lemma takeWhile_append_replicate [array_simps]:
  "d \<notin> set xs \<Longrightarrow> takeWhile (\<lambda>x. x \<noteq> d) (xs @ replicate n d) = xs"
  by (induction xs) (cases n, auto)

lemma filter_append_replicate [array_simps]:
  "d \<notin> set xs \<Longrightarrow> filter (\<lambda>x. x \<noteq> d) (xs @ replicate n d) = xs"
  by (induction xs) auto

lemma notin_takeWhile [simp]: "d \<notin> set (takeWhile (\<lambda>x. x \<noteq> d) xs)"
  by (metis (mono_tags, lifting) set_takeWhileD)

lemma length_takeWhile_bound: "length xs \<le> n \<Longrightarrow> length (takeWhile P xs) \<le> n"
  by (meson length_takeWhile_le order_trans)

lemma upt_join: "i \<le> j \<Longrightarrow> j \<le> k \<Longrightarrow> [i..<j] @ [j..<k] = [i..<k]"
  by (metis le_add_diff_inverse upt_add_eq_append)

subsection \<open>Checked arithmetic\<close>

definition checked_add :: "'a::len word \<Rightarrow> 'a word \<Rightarrow> 'a word option" where
  "checked_add a b = (if unat a + unat b < 2 ^ LENGTH('a) then Some (a + b) else None)"

definition checked_mul :: "'a::len word \<Rightarrow> 'a word \<Rightarrow> 'a word option" where
  "checked_mul a b = (if unat a * unat b < 2 ^ LENGTH('a) then Some (a * b) else None)"

lemma checked_add_Some: "checked_add a b = Some c \<Longrightarrow> unat c = unat a + unat b"
  by (auto simp: checked_add_def unat_word_ariths split: if_splits)

lemma unat_inc: "unat (a :: u64) + 1 < 2 ^ 64 \<Longrightarrow> unat (a + 1) = unat a + 1"
  using checked_add_Some [of a 1 "a + 1"] by (simp add: checked_add_def)

lemma checked_add_Some_iff:
  "checked_add a b = Some c \<longleftrightarrow> unat a + unat b < 2 ^ LENGTH('a) \<and> c = a + b"
  for a b c :: "'a::len word"
  by (auto simp: checked_add_def)

end
