(* ===== verification/Photon_Util.thy ===== *)
theory Photon_Util
  imports Bytes
begin

section \<open>Errors and utilities of the endpoint program\<close>

text \<open>
  \<^verbatim>\<open>programs/entangle-photon-sol/src/error.rs\<close> and \<^verbatim>\<open>util.rs\<close>: the custom errors, the ways an
  instruction can abort, the 32-byte integer encodings that enter the operation hash, and the
  instruction discriminator \<open>sighash\<close>. An instruction that returns an error or panics aborts the
  whole transaction, so both are values of \<open>err\<close>.
\<close>

datatype custom_error =
    IsNotAdmin
  | ProtocolNotInit
  | InvalidSignature
  | OpIsNotForThisChain
  | InvalidEndpoint
  | OpStateInvalid
  | CachedOpHashMismatch
  | ProtocolAddressMismatch
  | TargetProtocolMismatch
  | ExecutorIsNotAllowed
  | ProposerIsNotAllowed
  | OperationNotApproved
  | InvalidProtoMsg
  | InvalidGovMsg
  | InvalidMethodSelector
  | InvalidOpData
  | InvalidAddress
  | ProtocolAddressNotProvided
  | NoTransmittersAllowed
  | MaxTransmittersExceeded
  | MaxExecutorsExceeded
  | ExecutorIsAlreadyAllowed
  | ProposerIsAlreadyAllowed
  | TryingToRemoveLastGovExecutor
  | InvalidExecutorAddress
  | InvalidProposerAddress
  | MaxProposersExceeded
  | ConsensusTargetRateTooLow
  | ConsensusTargetRateTooHigh
  | SelectorTooBig

text \<open>The errors of the account framework the sources rely on, and the Rust panics.\<close>

datatype anchor_error =
    AccountNotSigner
  | ConstraintMut
  | ConstraintSeeds
  | ConstraintRaw
  | ConstraintAddress
  | AccountNotInitialized
  | AccountDiscriminatorMismatch
  | InvalidProgramId
  | CreateAccountFailed
  | RequireEqViolated

datatype panic =
    IndexOutOfBounds
  | ArithmeticOverflow
  | SliceLengthMismatch
  | ExpectFailed
  | ExplicitPanic
  | NoViableBump
  | DivisionByZero

datatype err = Custom custom_error | Anchor anchor_error | Panic panic | ProgramFailed

text \<open>
  \<^verbatim>\<open>require_ok!($res, $err)\<close>: on \<open>Err(e)\<close> it compares the empty string with
  \<^verbatim>\<open>format!("Error: {:?}", e)\<close>, which are never equal, so the macro always returns \<open>$err\<close> and the
  \<^verbatim>\<open>unreachable!\<close> after it is not reached.
\<close>

definition require_ok :: "'x + 'a \<Rightarrow> err \<Rightarrow> err + 'a" where
  "require_ok res e = (case res of Inr x \<Rightarrow> Inr x | Inl _ \<Rightarrow> Inl e)"

definition u64_to_bytes32 :: "u64 \<Rightarrow> bytes" where
  "u64_to_bytes32 x = replicate (32 - 8) 0 @ be_bytes 8 (unat x)"

definition u128_to_bytes32 :: "u128 \<Rightarrow> bytes" where
  "u128_to_bytes32 x = replicate (32 - 16) 0 @ be_bytes 16 (unat x)"

definition sighash :: "(bytes \<Rightarrow> bytes) \<Rightarrow> bytes \<Rightarrow> bytes \<Rightarrow> bytes" where
  "sighash sha256 namespace name = take 8 (sha256 (namespace @ str '':'' @ name))"

lemma length_u64_to_bytes32 [simp]: "length (u64_to_bytes32 x) = 32"
  and length_u128_to_bytes32 [simp]: "length (u128_to_bytes32 y) = 32"
  by (simp_all add: u64_to_bytes32_def u128_to_bytes32_def)

text \<open>Both encodings are read back by taking the big-endian value of the 32 bytes.\<close>

lemma of_be_bytes_zeros: "of_be_bytes (replicate n 0 @ bs) = of_be_bytes bs"
proof (induction bs rule: rev_induct)
  case Nil
  show ?case by (induction n) (simp_all add: of_be_bytes_def)
next
  case (snoc b bs)
  then show ?case by (metis append_assoc of_be_bytes_snoc)
qed

definition bytes32_to_word :: "bytes \<Rightarrow> 'a::len word option" where
  "bytes32_to_word bs =
     (if length bs = 32 \<and> of_be_bytes bs < 2 ^ LENGTH('a) then Some (word_of_nat (of_be_bytes bs))
      else None)"

lemma unat_u64_less: "unat (x :: u64) < 256 ^ 8"
  using unsigned_less [of x, where ?'a = nat] by simp

lemma unat_u128_less: "unat (x :: u128) < 256 ^ 16"
  using unsigned_less [of x, where ?'a = nat] by simp

interpretation u64_32: codec u64_to_bytes32 bytes32_to_word "\<lambda>_. True"
proof unfold_locales
  fix x :: u64
  have "of_be_bytes (u64_to_bytes32 x) = unat x"
    using unat_u64_less [of x] by (simp add: u64_to_bytes32_def of_be_bytes_zeros of_be_be_bytes)
  then show "bytes32_to_word (u64_to_bytes32 x) = Some x"
    using unat_u64_less [of x] by (simp add: bytes32_to_word_def)
qed

interpretation u128_32: codec u128_to_bytes32 bytes32_to_word "\<lambda>_. True"
proof unfold_locales
  fix x :: u128
  have "of_be_bytes (u128_to_bytes32 x) = unat x"
    using unat_u128_less [of x] by (simp add: u128_to_bytes32_def of_be_bytes_zeros of_be_be_bytes)
  then show "bytes32_to_word (u128_to_bytes32 x) = Some x"
    using unat_u128_less [of x] by (simp add: bytes32_to_word_def)
qed

end
