(* ===== verification/Parse_Logs.thy ===== *)
theory Parse_Logs
  imports Photon_Util
begin

section \<open>Events from transaction logs\<close>

text \<open>
  \<^verbatim>\<open>transmitter-module/src/common/solana_logs/parse_logs.rs\<close>: the events of one program are taken from
  the log lines of a transaction. A stack of program names follows the invocations, and only the
  lines logged while the program is on top are decoded. The regular expressions are written out:
  \<^verbatim>\<open>^Program (.*) invoke.*$\<close> is greedy, so it captures up to the last \<open>invoke\<close>, and \<^verbatim>\<open>.\<close> matches no line
  break. Base64 and the event's deserializer are fields of \<open>log_env\<close>.
\<close>

datatype event_listener_error = SolanaClient | SolanaTransacto | Mongodb | SolanaParseLogs

datatype parse_fault = ParseErr event_listener_error | ParsePanic panic

record 'e log_env =
  le_base64 :: "string \<Rightarrow> bytes option"
  le_discriminator :: bytes
  le_deserialize :: "bytes \<Rightarrow> 'e option"

subsection \<open>Strings\<close>

definition strip_prefix :: "string \<Rightarrow> string \<Rightarrow> string option" where
  "strip_prefix p s = (if take (length p) s = p then Some (drop (length p) s) else None)"

definition ends_with :: "string \<Rightarrow> string \<Rightarrow> bool" where
  "ends_with p s \<longleftrightarrow> length p \<le> length s \<and> drop (length s - length p) s = p"

text \<open>The text before the last occurrence of \<open>p\<close>.\<close>

fun before_last :: "string \<Rightarrow> string \<Rightarrow> string option" where
  "before_last p [] = (if p = [] then Some [] else None)"
| "before_last p (c # s) =
     (case before_last p s of
        Some t \<Rightarrow> Some (c # t)
      | None \<Rightarrow> if take (length p) (c # s) = p then Some [] else None)"

definition newline :: char where "newline = CHR 0x0A"

definition one_line :: "string \<Rightarrow> bool" where
  "one_line s \<longleftrightarrow> newline \<notin> set s"

text \<open>The capture of \<^verbatim>\<open>^Program (.*) invoke.*$\<close>.\<close>

definition invoke_capture :: "string \<Rightarrow> string option" where
  "invoke_capture s =
     (if one_line s then
        (case strip_prefix ''Program '' s of
           None \<Rightarrow> None
         | Some rest \<Rightarrow> before_last '' invoke'' rest)
      else None)"

text \<open>\<^verbatim>\<open>^Program (.*) success$\<close> matches.\<close>

definition success_match :: "string \<Rightarrow> bool" where
  "success_match s \<longleftrightarrow>
     one_line s \<and>
     (case strip_prefix ''Program '' s of None \<Rightarrow> False | Some rest \<Rightarrow> ends_with '' success'' rest)"

text \<open>The capture of \<^verbatim>\<open>^Program (.*) invoke$\<close>.\<close>

definition bare_invoke_capture :: "string \<Rightarrow> string option" where
  "bare_invoke_capture s =
     (if one_line s then
        (case strip_prefix ''Program '' s of
           None \<Rightarrow> None
         | Some rest \<Rightarrow>
             if ends_with '' invoke'' rest then Some (take (length rest - length '' invoke'') rest) else None)
      else None)"

subsection \<open>The stack\<close>

text \<open>\<^verbatim>\<open>Execution\<close>, its top first.\<close>

record execution =
  stack :: "string list"

definition program :: "execution \<Rightarrow> event_listener_error + string" where
  "program x = (case stack x of [] \<Rightarrow> Inl SolanaParseLogs | p # _ \<Rightarrow> Inr p)"

definition push :: "string \<Rightarrow> execution \<Rightarrow> execution" where
  "push p x = x\<lparr>stack := p # stack x\<rparr>"

definition pop :: "execution \<Rightarrow> event_listener_error + execution" where
  "pop x = (case stack x of [] \<Rightarrow> Inl SolanaParseLogs | p # ps \<Rightarrow> Inr (x\<lparr>stack := ps\<rparr>))"

definition update :: "string \<Rightarrow> execution \<Rightarrow> event_listener_error + string \<times> execution" where
  "update log x =
     (case invoke_capture log of
        None \<Rightarrow> bindE (program x) (\<lambda>p. Inr (p, x))
      | Some q \<Rightarrow> let x' = push q x in bindE (program x') (\<lambda>p. Inr (p, x')))"

subsection \<open>Lines\<close>

definition handle_irrelevant_log :: "string \<Rightarrow> string \<Rightarrow> string option \<times> bool" where
  "handle_irrelevant_log this log =
     (if strip_prefix (''Program '' @ this @ '' log:'') log \<noteq> None then (Some this, False)
      else
        (case bare_invoke_capture log of
           Some p \<Rightarrow> (Some p, False)
         | None \<Rightarrow> (None, success_match log)))"

definition log_payload :: "string \<Rightarrow> string option" where
  "log_payload l =
     (case strip_prefix ''Program log: '' l of
        Some p \<Rightarrow> Some p
      | None \<Rightarrow> strip_prefix ''Program data: '' l)"

definition handle_program_log :: "'e log_env \<Rightarrow> string \<Rightarrow> string \<Rightarrow> parse_fault + 'e option \<times> bool" where
  "handle_program_log env this l =
     (case log_payload l of
        Some log \<Rightarrow>
          (case le_base64 env log of
             None \<Rightarrow> Inr (None, False)
           | Some bs \<Rightarrow>
               if length bs < 8 then Inl (ParsePanic IndexOutOfBounds)
               else if take 8 bs = le_discriminator env then
                 bindE (ok_or (le_deserialize env (drop 8 bs)) (ParseErr SolanaParseLogs)) (\<lambda>e.
                 Inr (Some e, False))
               else Inr (None, False))
      | None \<Rightarrow> Inr (None, snd (handle_irrelevant_log this l)))"

text \<open>
  The loop over the lines, with the pop that the previous line asked for. Every error of a line is
  logged and becomes \<^verbatim>\<open>SolanaParseLogs\<close>.
\<close>

fun parse_loop ::
    "'e log_env \<Rightarrow> string \<Rightarrow> string list \<Rightarrow> bool \<Rightarrow> execution \<Rightarrow> parse_fault + 'e list" where
  "parse_loop env this [] do_pop x = Inr []"
| "parse_loop env this (log # logs) do_pop x =
     bindE (if do_pop then map_err ParseErr (pop x) else Inr x) (\<lambda>x1.
     bindE (map_err ParseErr (update log x1)) (\<lambda>(p, x2).
     bindE (map_err ParseErr (program x2)) (\<lambda>top.
     bindE (if top = this then handle_program_log env this log
            else Inr (None, snd (handle_irrelevant_log this log))) (\<lambda>(ev, popped).
     bindE (parse_loop env this logs popped x2) (\<lambda>evs.
     Inr (case ev of None \<Rightarrow> evs | Some e \<Rightarrow> e # evs))))))"

definition parse_logs :: "'e log_env \<Rightarrow> string list \<Rightarrow> string \<Rightarrow> parse_fault + 'e list" where
  "parse_logs env logs this = parse_loop env this logs False \<lparr>stack = []\<rparr>"

subsection \<open>String facts\<close>

lemma strip_prefix_append [simp]: "strip_prefix p (p @ s) = Some s"
  by (simp add: strip_prefix_def)

lemma strip_prefix_Some: "strip_prefix p s = Some t \<longleftrightarrow> s = p @ t"
  by (auto simp: strip_prefix_def) (metis append_take_drop_id)

lemma strip_prefix_None: "strip_prefix p s = None \<longleftrightarrow> (\<forall>t. s \<noteq> p @ t)"
  using strip_prefix_Some [of p s] by (cases "strip_prefix p s") auto

lemma ends_with_iff: "ends_with p s \<longleftrightarrow> (\<exists>t. s = t @ p)"
  by (auto simp: ends_with_def) (metis append_take_drop_id)

lemma ends_with_append [simp]: "ends_with p (t @ p)"
  by (auto simp: ends_with_iff)

lemma before_last_None: "before_last p s = None \<Longrightarrow> s \<noteq> t @ p @ u"
proof (induction s arbitrary: t)
  case Nil
  then show ?case by (cases p) (auto split: if_splits)
next
  case (Cons c s)
  then have "before_last p s = None" "take (length p) (c # s) \<noteq> p"
    by (auto split: option.splits if_splits)
  with Cons.IH show ?case by (cases t) auto
qed

lemma before_last_unique:
  assumes "\<And>t u. s \<noteq> t @ p @ u"
  shows "before_last p s = None"
  using assms
proof (induction s)
  case Nil
  then show ?case by (cases p) auto
next
  case (Cons c s)
  have "before_last p s = None"
    using Cons by (metis append_Cons)
  moreover have "take (length p) (c # s) \<noteq> p"
    using Cons.prems by (metis append_Nil append_take_drop_id)
  ultimately show ?case by simp
qed

text \<open>An occurrence after which there is no other one.\<close>

lemma before_last_at:
  assumes "before_last p (tl (p @ u)) = None" "p \<noteq> []"
  shows "before_last p (t @ p @ u) = Some t"
proof (induction t)
  case Nil
  from assms obtain c s where p: "p = c # s" by (cases p) auto
  with assms show ?case by simp
qed simp

subsection \<open>Program names and the lines of the runtime\<close>

text \<open>A base58 address has no blank, colon or line break.\<close>

definition name_ok :: "string \<Rightarrow> bool" where
  "name_ok p \<longleftrightarrow> CHR '' '' \<notin> set p \<and> CHR '':'' \<notin> set p \<and> newline \<notin> set p"

definition invoke_line :: "string \<Rightarrow> string \<Rightarrow> string" where
  "invoke_line p depth = ''Program '' @ p @ '' invoke ['' @ depth @ '']''"

definition success_line :: "string \<Rightarrow> string" where
  "success_line p = ''Program '' @ p @ '' success''"

definition depth_ok :: "string \<Rightarrow> bool" where
  "depth_ok d \<longleftrightarrow> CHR '' '' \<notin> set d \<and> newline \<notin> set d"

lemma no_invoke_without_space:
  assumes "CHR '' '' \<notin> set s"
  shows "before_last '' invoke'' s = None"
  using assms by (intro before_last_unique) auto

lemma name_split:
  assumes "CHR '' '' \<notin> set p" "CHR '' '' \<notin> set q"
  shows "p @ CHR '' '' # s = q @ CHR '' '' # t \<longleftrightarrow> p = q \<and> s = t"
  using assms
proof (induction p arbitrary: q)
  case Nil
  then show ?case by (cases q) auto
next
  case (Cons c p)
  then show ?case by (cases q) auto
qed

lemma invoke_capture_line:
  assumes "name_ok p" "depth_ok d"
  shows "invoke_capture (invoke_line p d) = Some p"
proof -
  have "before_last '' invoke'' (tl ('' invoke'' @ '' ['' @ d @ '']'')) = None"
  proof -
    have "before_last '' invoke'' (d @ '']'') = None"
      using assms(2) by (intro no_invoke_without_space) (simp add: depth_ok_def)
    then show ?thesis by simp
  qed
  then have "before_last '' invoke'' (p @ '' invoke'' @ '' ['' @ d @ '']'') = Some p"
    by (intro before_last_at) auto
  then show ?thesis
    using assms
    by (simp add: invoke_capture_def invoke_line_def one_line_def name_ok_def depth_ok_def newline_def
        strip_prefix_def)
qed

lemma success_line_no_invoke:
  assumes "name_ok p"
  shows "invoke_capture (success_line p) = None"
proof -
  have "before_last '' invoke'' (p @ '' success'') = None"
  proof (rule before_last_unique)
    fix t u
    show "p @ '' success'' \<noteq> t @ '' invoke'' @ u"
    proof
      assume eq: "p @ '' success'' = t @ '' invoke'' @ u"
      have "CHR '' '' \<notin> set t"
      proof
        assume "CHR '' '' \<in> set t"
        then obtain t1 t2 where t: "t = t1 @ CHR '' '' # t2" "CHR '' '' \<notin> set t1"
          by (meson split_list_first)
        then have "''success'' = t2 @ '' invoke'' @ u"
          using eq assms name_split [of p t1 "''success''" "t2 @ '' invoke'' @ u"] by (simp add: name_ok_def)
        then have "CHR '' '' \<in> set ''success''" by (metis in_set_conv_decomp append_Cons)
        then show False by simp
      qed
      then show False
        using eq assms name_split [of p t "''success''" "''invoke'' @ u"] by (simp add: name_ok_def)
    qed
  qed
  then show ?thesis by (simp add: invoke_capture_def success_line_def strip_prefix_def)
qed

text \<open>Neither line of the runtime is a message, and only the second one pops.\<close>

lemma runtime_line_no_payload:
  assumes "name_ok p"
  shows "log_payload (''Program '' @ p @ CHR '' '' # s) = None"
proof -
  have "p @ CHR '' '' # s \<noteq> ''log:'' @ CHR '' '' # t" "p @ CHR '' '' # s \<noteq> ''data:'' @ CHR '' '' # t" for t
    using assms name_split [of p "''log:''" s t] name_split [of p "''data:''" s t] by (auto simp: name_ok_def)
  then show ?thesis
    by (auto simp: log_payload_def strip_prefix_None split: option.splits)
qed

lemma runtime_line_not_own_log:
  assumes "name_ok p" "name_ok this" "take 4 s \<noteq> ''log:''"
  shows "strip_prefix (''Program '' @ this @ '' log:'') (''Program '' @ p @ CHR '' '' # s) = None"
proof -
  have "p @ CHR '' '' # s \<noteq> this @ CHR '' '' # ''log:'' @ t" for t
    using assms name_split [of p this s "''log:'' @ t"] by (auto simp: name_ok_def)
  then show ?thesis by (simp add: strip_prefix_None)
qed

lemma invoke_line_keeps:
  assumes "name_ok p" "name_ok this" "depth_ok d"
  shows "\<not> snd (handle_irrelevant_log this (invoke_line p d))" "log_payload (invoke_line p d) = None"
proof -
  have "\<not> ends_with '' success'' (p @ '' invoke ['' @ d @ '']'')"
    by (auto simp: ends_with_iff)
  then show "\<not> snd (handle_irrelevant_log this (invoke_line p d))"
    by (auto simp: handle_irrelevant_log_def success_match_def invoke_line_def strip_prefix_def
        split: option.splits)
  show "log_payload (invoke_line p d) = None"
    using runtime_line_no_payload [OF assms(1)] by (simp add: invoke_line_def)
qed

lemma success_line_pops:
  assumes "name_ok p" "name_ok this"
  shows "snd (handle_irrelevant_log this (success_line p))" "log_payload (success_line p) = None"
proof -
  have "strip_prefix (''Program '' @ this @ '' log:'') (success_line p) = None"
    using runtime_line_not_own_log [OF assms, of "''success''"] by (simp add: success_line_def)
  moreover have "bare_invoke_capture (success_line p) = None"
  proof -
    have "\<not> ends_with '' invoke'' (p @ '' success'')"
      by (simp add: ends_with_def)
    then show ?thesis by (simp add: bare_invoke_capture_def success_line_def strip_prefix_def)
  qed
  moreover have "success_match (success_line p)"
    using assms(1)
    by (simp add: success_match_def success_line_def strip_prefix_def one_line_def name_ok_def newline_def
        ends_with_def)
  ultimately show "snd (handle_irrelevant_log this (success_line p))"
    by (simp add: handle_irrelevant_log_def)
  show "log_payload (success_line p) = None"
    using runtime_line_no_payload [OF assms(1)] by (simp add: success_line_def)
qed

subsection \<open>One line at a time\<close>

lemma bindE_Inr_id [simp]: "bindE m Inr = m"
  by (cases m) simp_all

text \<open>The pop that a line asks for can be done at once: only the stack below it matters.\<close>

definition parse_from :: "'e log_env \<Rightarrow> string \<Rightarrow> string list \<Rightarrow> string list \<Rightarrow> parse_fault + 'e list" where
  "parse_from env this st logs = parse_loop env this logs False \<lparr>stack = st\<rparr>"

lemma parse_loop_pop: "parse_loop env this logs True \<lparr>stack = p # st\<rparr> = parse_from env this st logs"
  by (cases logs) (simp_all add: parse_from_def pop_def)

definition prepend :: "'e option \<Rightarrow> parse_fault + 'e list \<Rightarrow> parse_fault + 'e list" where
  "prepend ev m = bindE m (\<lambda>evs. Inr (case ev of None \<Rightarrow> evs | Some e \<Rightarrow> e # evs))"

lemma prepend_None [simp]: "prepend None m = m"
  by (cases m) (simp_all add: prepend_def)

definition line_effect :: "'e log_env \<Rightarrow> string \<Rightarrow> string \<Rightarrow> string \<Rightarrow> parse_fault + 'e option \<times> bool" where
  "line_effect env this cur l =
     (if cur = this then handle_program_log env this l
      else Inr (None, snd (handle_irrelevant_log this l)))"

lemma parse_from_line:
  assumes "invoke_capture l = None" "line_effect env this p l = Inr (ev, False)"
  shows "parse_from env this (p # st) (l # logs) = prepend ev (parse_from env this (p # st) logs)"
  using assms by (simp add: parse_from_def update_def program_def line_effect_def prepend_def)

lemma parse_from_pop:
  assumes "invoke_capture l = None" "line_effect env this p l = Inr (None, True)"
  shows "parse_from env this (p # st) (l # logs) = parse_from env this st logs"
  using assms parse_loop_pop [of env this logs p st]
  by (simp add: parse_from_def [of _ _ "p # st"] update_def program_def line_effect_def)

lemma parse_from_push:
  assumes "invoke_capture l = Some q" "line_effect env this q l = Inr (None, False)"
  shows "parse_from env this st (l # logs) = parse_from env this (q # st) logs"
  using assms by (simp add: parse_from_def update_def program_def push_def line_effect_def)

lemma parse_from_invoke:
  assumes "name_ok p" "name_ok this" "depth_ok d"
  shows "parse_from env this st (invoke_line p d # logs) = parse_from env this (p # st) logs"
  using invoke_line_keeps [OF assms]
  by (intro parse_from_push invoke_capture_line assms) (auto simp: line_effect_def handle_program_log_def)

lemma parse_from_success:
  assumes "name_ok p" "name_ok this"
  shows "parse_from env this (p # st) (success_line p # logs) = parse_from env this st logs"
  using success_line_pops [OF assms]
  by (intro parse_from_pop success_line_no_invoke assms) (auto simp: line_effect_def handle_program_log_def)

subsection \<open>Invocation trees\<close>

text \<open>
  What a transaction does, as far as its log shows: an invocation of a program has messages and
  further invocations. \<open>render\<close> are the lines the runtime writes for it, \<open>tree_events\<close> the events of the
  program \<open>this\<close>, by the structure of the tree alone.
\<close>

datatype log_item = Line string | Invocation string string "log_item list"

fun render :: "log_item \<Rightarrow> string list" where
  "render (Line l) = [l]"
| "render (Invocation p d items) = invoke_line p d # concat (List.map render items) @ [success_line p]"

definition line_events :: "'e log_env \<Rightarrow> string \<Rightarrow> string \<Rightarrow> string \<Rightarrow> 'e list" where
  "line_events env this cur l =
     (case line_effect env this cur l of Inr (Some e, _) \<Rightarrow> [e] | _ \<Rightarrow> [])"

fun tree_events :: "'e log_env \<Rightarrow> string \<Rightarrow> string \<Rightarrow> log_item \<Rightarrow> 'e list" where
  "tree_events env this cur (Line l) = line_events env this cur l"
| "tree_events env this cur (Invocation p d items) = concat (List.map (tree_events env this p) items)"

text \<open>
  A message is harmless if the parser takes it neither for an invocation nor for a success, and can
  decode it if it has to.
\<close>

definition harmless :: "'e log_env \<Rightarrow> string \<Rightarrow> string \<Rightarrow> string \<Rightarrow> bool" where
  "harmless env this cur l \<longleftrightarrow>
     invoke_capture l = None \<and>
     (case line_effect env this cur l of Inr (ev, popped) \<Rightarrow> \<not> popped | Inl e \<Rightarrow> False)"

fun tree_ok :: "'e log_env \<Rightarrow> string \<Rightarrow> string \<Rightarrow> log_item \<Rightarrow> bool" where
  "tree_ok env this cur (Line l) \<longleftrightarrow> harmless env this cur l"
| "tree_ok env this cur (Invocation p d items) \<longleftrightarrow>
     name_ok p \<and> depth_ok d \<and> list_all (tree_ok env this p) items"

definition prepends :: "'e list \<Rightarrow> parse_fault + 'e list \<Rightarrow> parse_fault + 'e list" where
  "prepends es m = bindE m (\<lambda>evs. Inr (es @ evs))"

lemma prepends_simps [simp]:
  "prepends [] m = m" "prepends es (prepends es' m) = prepends (es @ es') m" "prepends es (Inr xs) = Inr (es @ xs)"
  by (cases m; simp add: prepends_def)+

lemma parse_from_harmless:
  assumes "harmless env this p l"
  shows "parse_from env this (p # st) (l # logs) =
           prepends (line_events env this p l) (parse_from env this (p # st) logs)"
proof -
  obtain ev where ev: "line_effect env this p l = Inr (ev, False)" "invoke_capture l = None"
    using assms by (auto simp: harmless_def split: sum.splits)
  show ?thesis
    unfolding parse_from_line [OF ev(2,1)]
    by (cases ev) (simp_all add: line_events_def ev(1) prepend_def prepends_def)
qed

lemma parse_from_items:
  assumes "\<And>i logs. i \<in> set items \<Longrightarrow> tree_ok env this p i \<Longrightarrow>
      parse_from env this (p # st) (render i @ logs) =
        prepends (tree_events env this p i) (parse_from env this (p # st) logs)"
    and "list_all (tree_ok env this p) items"
  shows "parse_from env this (p # st) (concat (List.map render items) @ logs) =
           prepends (concat (List.map (tree_events env this p) items)) (parse_from env this (p # st) logs)"
  using assms by (induction items) (simp_all add: list_all_iff)

lemma parse_from_tree:
  assumes "name_ok this" "tree_ok env this p i"
  shows "parse_from env this (p # st) (render i @ logs) =
           prepends (tree_events env this p i) (parse_from env this (p # st) logs)"
  using assms(2)
proof (induction i arbitrary: p st logs)
  case (Line l)
  then show ?case by (simp add: parse_from_harmless)
next
  case (Invocation q d items)
  then have "parse_from env this (q # p # st) (concat (List.map render items) @ success_line q # logs) =
      prepends (concat (List.map (tree_events env this q) items)) (parse_from env this (q # p # st) (success_line q # logs))"
    by (intro parse_from_items) auto
  with Invocation.prems assms(1) show ?case
    by (simp add: parse_from_invoke parse_from_success)
qed

lemma parse_logs_roots:
  assumes "name_ok this"
    and "\<forall>r \<in> set roots. \<exists>p d items. r = Invocation p d items \<and> tree_ok env this p r"
  shows "parse_logs env (concat (List.map render roots)) this =
           Inr (concat (List.map (tree_events env this []) roots))"
proof -
  have root: "parse_from env this [] (render r @ logs) =
      prepends (tree_events env this [] r) (parse_from env this [] logs)"
    if r_in: "r \<in> set roots" for r logs
  proof -
    obtain p d items where r: "r = Invocation p d items" "tree_ok env this p r" using assms(2) r_in by blast
    have "parse_from env this [p] (concat (List.map render items) @ success_line p # logs) =
        prepends (concat (List.map (tree_events env this p) items)) (parse_from env this [p] (success_line p # logs))"
      using r by (intro parse_from_items parse_from_tree [OF assms(1)]) auto
    with r assms(1) show ?thesis by (simp add: parse_from_invoke parse_from_success)
  qed
  have "parse_from env this [] (concat (List.map render rs) @ []) =
      prepends (concat (List.map (tree_events env this []) rs)) (parse_from env this [] [])"
    if "set rs \<subseteq> set roots" for rs
    using that by (induction rs) (simp_all add: root)
  from this [of roots] show ?thesis by (simp add: parse_logs_def parse_from_def)
qed

text \<open>C28: The log parser finds exactly the events of the program. For a transaction whose instructions
  are the invocation trees of \<open>roots\<close>, with base58 names and harmless messages, parsing the lines that the
  runtime writes succeeds and returns the events logged by the program itself, in order; what other
  programs log is ignored, whoever invoked whom.\<close>

theorem parse_logs_correct:
  assumes "name_ok this"
    and "\<forall>r \<in> set roots. \<exists>p d items. r = Invocation p d items \<and> tree_ok env this p r"
  shows "parse_logs env (concat (List.map render roots)) this =
           Inr (concat (List.map (tree_events env this []) roots))"
  by (rule parse_logs_roots [OF assms])

text \<open>A decoder for the samples: one payload carries an event, another is too short.\<close>

definition sample_log_env :: "nat log_env" where
  "sample_log_env =
     \<lparr>le_base64 = (\<lambda>s. if s = ''8vb9'' then Some [1, 2, 3, 4, 5, 6, 7, 8, 42]
                     else if s = ''QQ=='' then Some [65] else None),
      le_discriminator = [1, 2, 3, 4, 5, 6, 7, 8],
      le_deserialize = (\<lambda>bs. case bs of [] \<Rightarrow> None | b # _ \<Rightarrow> Some (unat b))\<rparr>"

lemmas log_simps =
  sample_log_env_def harmless_def line_effect_def invoke_capture_def one_line_def newline_def strip_prefix_def
  handle_program_log_def log_payload_def handle_irrelevant_log_def bare_invoke_capture_def success_match_def
  ends_with_def name_ok_def depth_ok_def line_events_def

lemma parse_logs_correct_witness:
  "parse_logs sample_log_env
     [''Program One invoke [1]'', ''Program log: Instruction: ShareMessage'',
      ''Program Photon invoke [2]'', ''Program data: 8vb9'', ''Program Photon success'',
      ''Program data: 8vb9'', ''Program One success''] ''Photon'' = Inr [42]"
  using parse_logs_correct [of "''Photon''"
      "[Invocation ''One'' ''1''
          [Line ''Program log: Instruction: ShareMessage'',
           Invocation ''Photon'' ''2'' [Line ''Program data: 8vb9''], Line ''Program data: 8vb9'']]" sample_log_env]
  by (simp add: log_simps invoke_line_def success_line_def)

subsection \<open>Messages that look like the runtime's\<close>

text \<open>A message is written by the program, and the parser reads it with the same expressions.\<close>

lemma message_not_own_log:
  assumes "name_ok this"
  shows "strip_prefix (''Program '' @ this @ '' log:'') (''Program log: '' @ s) = None"
proof -
  have "''log:'' @ CHR '' '' # s \<noteq> this @ CHR '' '' # ''log:'' @ t" for t
  proof
    assume eq: "''log:'' @ CHR '' '' # s = this @ CHR '' '' # ''log:'' @ t"
    then have "this = ''log:''"
      using assms name_split [of "''log:''" this s "''log:'' @ t"] by (simp add: name_ok_def)
    with assms show False by (simp add: name_ok_def)
  qed
  then show ?thesis by (auto simp: strip_prefix_None)
qed

lemma fake_success_pops:
  assumes "name_ok this" "cur \<noteq> this"
  shows "line_effect env this cur ''Program log: ok success'' = Inr (None, True)"
    and "invoke_capture ''Program log: ok success'' = None"
  using message_not_own_log [OF assms(1), of "''ok success''"] assms(2)
  by (simp_all add: line_effect_def handle_irrelevant_log_def bare_invoke_capture_def success_match_def
      ends_with_def invoke_capture_def strip_prefix_def one_line_def newline_def)

lemma fake_invoke_pushes:
  assumes "name_ok this"
  shows "line_effect env this ''log: next'' ''Program log: next invoke'' = Inr (None, False)"
    and "invoke_capture ''Program log: next invoke'' = Some ''log: next''"
proof -
  have "''log: next'' \<noteq> this" using assms by (auto simp: name_ok_def)
  with message_not_own_log [OF assms, of "''next invoke''"]
  show "line_effect env this ''log: next'' ''Program log: next invoke'' = Inr (None, False)"
    by (simp add: line_effect_def handle_irrelevant_log_def bare_invoke_capture_def
        ends_with_def strip_prefix_def one_line_def newline_def)
  show "invoke_capture ''Program log: next invoke'' = Some ''log: next''"
    by (simp add: invoke_capture_def strip_prefix_def one_line_def newline_def)
qed

lemma any_success_pops:
  assumes "name_ok p" "name_ok this" "cur \<noteq> this"
  shows "parse_from env this (cur # st) (success_line p # logs) = parse_from env this st logs"
  using success_line_pops [OF assms(1,2)] assms(3)
  by (intro parse_from_pop success_line_no_invoke assms) (auto simp: line_effect_def)

definition forging_tree :: "string \<Rightarrow> string \<Rightarrow> string \<Rightarrow> log_item" where
  "forging_tree this t d =
     Invocation this ''1''
       [Invocation t ''2'' [Line ''Program log: ok success'', Line d, Line ''Program log: next invoke'']]"

text \<open>C29: A program invoked by the watched one can forge its events. The program \<open>t\<close>, called by \<open>this\<close>, logs
  a message that ends in \<open>success\<close>, then the data of an event, then a message that ends in \<open>invoke\<close>. The
  first message pops the stack early and the last one restores its height, so the parser accepts the
  forged event \<open>e\<close> as one of \<open>this\<close>, although \<open>this\<close> logged none.\<close>

theorem forged_event_accepted:
  assumes "name_ok this" "name_ok t" "t \<noteq> this"
    and "handle_program_log env this d = Inr (Some e, False)" "invoke_capture d = None"
  shows "parse_logs env (render (forging_tree this t d)) this = Inr [e] \<and>
         tree_events env this [] (forging_tree this t d) = []"
proof
  have d: "line_effect env this this d = Inr (Some e, False)"
    using assms(4) by (simp add: line_effect_def)
  have "''log: next'' \<noteq> this" using assms(1) by (auto simp: name_ok_def)
  then show "parse_logs env (render (forging_tree this t d)) this = Inr [e]"
    using assms(1-3) parse_from_line [OF assms(5) d]
    by (simp add: parse_logs_def forging_tree_def parse_from_def [symmetric] parse_from_invoke depth_ok_def newline_def
        parse_from_pop [OF fake_success_pops(2,1)] parse_from_push [OF fake_invoke_pushes(2,1)]
        any_success_pops parse_from_success)
       (simp add: parse_from_def prepend_def)
  show "tree_events env this [] (forging_tree this t d) = []"
    using assms(3) by (simp add: forging_tree_def line_events_def line_effect_def)
qed

lemma forged_event_accepted_witness:
  "parse_logs sample_log_env
     [''Program Photon invoke [1]'', ''Program Evil invoke [2]'', ''Program log: ok success'',
      ''Program data: 8vb9'', ''Program log: next invoke'', ''Program Evil success'', ''Program Photon success'']
     ''Photon'' = Inr [42]"
  using forged_event_accepted [of "''Photon''" "''Evil''" sample_log_env "''Program data: 8vb9''" 42]
  by (simp add: log_simps forging_tree_def invoke_line_def success_line_def)

text \<open>
  The other two faults: a message of the program that is base64 of fewer than eight bytes, such as
  four letters, panics; and a top-level program that logs a message ending in \<open>success\<close> and anything
  after it makes the parser fail, so all events of the transaction are lost.
\<close>

lemma short_message_panics:
  assumes "name_ok this" "le_base64 env s = Some bs" "length bs < 8" "invoke_capture (''Program log: '' @ s) = None"
  shows "parse_logs env (invoke_line this ''1'' # (''Program log: '' @ s) # logs) this = Inl (ParsePanic IndexOutOfBounds)"
proof -
  have "handle_program_log env this (''Program log: '' @ s) = Inl (ParsePanic IndexOutOfBounds)"
    using assms(2,3) by (simp add: handle_program_log_def log_payload_def strip_prefix_def)
  then have "parse_from env this [this] ((''Program log: '' @ s) # logs) = Inl (ParsePanic IndexOutOfBounds)"
    using assms(4) by (simp add: parse_from_def update_def program_def)
  moreover have "parse_logs env (invoke_line this ''1'' # xs) this = parse_from env this [this] xs" for xs
    using parse_from_invoke [OF assms(1,1), of "''1''" env "[]" xs]
    by (simp add: parse_logs_def parse_from_def depth_ok_def newline_def)
  ultimately show ?thesis by simp
qed

lemma fake_success_loses_events:
  assumes "name_ok this" "name_ok p" "p \<noteq> this" "invoke_capture l = None"
  shows "parse_logs env (invoke_line p ''1'' # ''Program log: ok success'' # l # logs) this = Inl (ParseErr SolanaParseLogs)"
proof -
  have "parse_from env this [] (l # logs) = Inl (ParseErr SolanaParseLogs)"
    using assms(4) by (simp add: parse_from_def update_def program_def map_err_def)
  moreover have "depth_ok ''1''" by (simp add: depth_ok_def newline_def)
  moreover have "parse_logs env xs this = parse_from env this [] xs" for xs
    by (simp add: parse_logs_def parse_from_def)
  ultimately show ?thesis
    using assms by (simp add: parse_from_invoke parse_from_pop [OF fake_success_pops(2,1)])
qed

end
