(* ===== verification/Protocol_Data.thy ===== *)
theory Protocol_Data
  imports Photon_Util
begin

section \<open>Operation data, its hash, and signature recovery\<close>

text \<open>
  \<^verbatim>\<open>programs/entangle-photon-sol/src/protocol_data.rs\<close>: the function selector with its byte
  encoding, the operation record, the hash that transmitters sign, the recovery of a
  transmitter's Ethereum address from a signature, and the status of an operation. Keccak-256
  and secp256k1 recovery are arguments (\<open>kec\<close>, \<open>recover\<close>): they come from the \<^verbatim>\<open>sha3\<close> crate and
  the Solana runtime.
\<close>

definition GOV_PROTOCOL_ID :: bytes where
  "GOV_PROTOCOL_ID = str ''photon-gov'' @ replicate 22 0"

definition gov_protocol_id :: bytes where
  "gov_protocol_id = GOV_PROTOCOL_ID"

text \<open>\<^verbatim>\<open>"\x19Ethereum Signed Message:\n32"\<close>\<close>

definition MSG :: bytes where
  "MSG = [0x19] @ str ''Ethereum Signed Message:'' @ [0x0A] @ str ''32''"

lemma length_MSG [simp]: "length MSG = 28"
  by (simp add: MSG_def)

lemma length_GOV_PROTOCOL_ID [simp]: "length GOV_PROTOCOL_ID = 32"
  by (simp add: GOV_PROTOCOL_ID_def)

record transmitter_signature =
  sig_v :: u8
  sig_r :: bytes
  sig_s :: bytes

datatype function_selector = ByCode bytes | ByName bytes | Dummy

text \<open>\<^verbatim>\<open>FunctionSelector::to_bytes\<close>\<close>

fun to_bytes :: "function_selector \<Rightarrow> custom_error + bytes" where
  "to_bytes (ByCode code) =
     (if length code > 32 then Inl SelectorTooBig
      else Inr ([0, word_of_nat (length code)] @ code))"
| "to_bytes (ByName name) =
     (if length name > 32 then Inl SelectorTooBig
      else Inr ([1, word_of_nat (length name)] @ name))"
| "to_bytes Dummy = Inr [2, 0]"

text \<open>
  \<^verbatim>\<open>TryFrom<&[u8]> for FunctionSelector\<close>: the error value is always the empty vector; an
  unknown type byte panics. The length byte is read and ignored.
\<close>

datatype conv_error = ConvErr bytes | ConvPanic

definition selector_try_from :: "bytes \<Rightarrow> conv_error + function_selector" where
  "selector_try_from value =
     (case value of
        [] \<Rightarrow> Inl (ConvErr [])
      | tag # rest \<Rightarrow>
          (if tag = 0 then
             (case rest of [] \<Rightarrow> Inl (ConvErr []) | len_byte # code \<Rightarrow> Inr (ByCode code))
           else if tag = 1 then
             (case rest of
                [] \<Rightarrow> Inl (ConvErr [])
              | len_byte # name \<Rightarrow> if utf8_valid name then Inr (ByName name) else Inl (ConvErr []))
           else Inl ConvPanic))"

record operation_data =
  od_protocol_id :: bytes
  od_meta :: bytes
  od_src_chain_id :: u128
  od_src_block_number :: u64
  od_src_op_tx_id :: bytes
  od_nonce :: u64
  od_dest_chain_id :: u128
  od_protocol_addr :: bytes
  od_function_selector :: function_selector
  od_params :: bytes
  od_reserved :: bytes

text \<open>The \<^verbatim>\<open>match\<close> over the selector inside \<^verbatim>\<open>op_data_evm\<close>; \<^verbatim>\<open>len() as u8\<close> truncates.\<close>

fun selector_evm :: "function_selector \<Rightarrow> err + bytes" where
  "selector_evm (ByCode code) = Inr ([0, word_of_nat (length code)] @ code)"
| "selector_evm (ByName name) = Inr ([1, word_of_nat (length name)] @ name)"
| "selector_evm Dummy = Inl (Panic ExplicitPanic)"

definition op_data_evm :: "operation_data \<Rightarrow> err + bytes" where
  "op_data_evm d =
     bindE (selector_evm (od_function_selector d)) (\<lambda>sel.
       Inr (od_protocol_id d
            @ od_meta d
            @ u128_to_bytes32 (od_src_chain_id d)
            @ u64_to_bytes32 (od_src_block_number d)
            @ od_src_op_tx_id d
            @ u64_to_bytes32 (od_nonce d)
            @ u128_to_bytes32 (od_dest_chain_id d)
            @ od_protocol_addr d
            @ sel
            @ od_params d
            @ od_reserved d))"

definition op_hash :: "(bytes \<Rightarrow> bytes) \<Rightarrow> operation_data \<Rightarrow> err + bytes" where
  "op_hash kec d = bindE (op_data_evm d) (\<lambda>buf. Inr (kec buf))"

text \<open>\<^verbatim>\<open>copy_from_slice\<close> into the last 32 bytes panics unless the data has 32 bytes.\<close>

definition hash_with_message :: "(bytes \<Rightarrow> bytes) \<Rightarrow> bytes \<Rightarrow> err + bytes" where
  "hash_with_message kec data =
     (if length data = 32 then Inr (kec (MSG @ data)) else Inl (Panic SliceLengthMismatch))"

definition op_hash_with_message :: "(bytes \<Rightarrow> bytes) \<Rightarrow> operation_data \<Rightarrow> err + bytes" where
  "op_hash_with_message kec d = bindE (op_hash kec d) (hash_with_message kec)"

definition derive_eth_address :: "(bytes \<Rightarrow> bytes) \<Rightarrow> bytes \<Rightarrow> err + bytes" where
  "derive_eth_address kec public_key =
     (if public_key = [] then Inl (Panic IndexOutOfBounds)
      else let hash = kec (drop 1 public_key); tail = drop 12 hash
           in if length tail = 20 then Inr tail else Inl (Panic SliceLengthMismatch))"

definition ecrecover ::
    "(bytes \<Rightarrow> bytes) \<Rightarrow> (bytes \<Rightarrow> u8 \<Rightarrow> bytes \<Rightarrow> bytes option) \<Rightarrow> bytes \<Rightarrow> transmitter_signature
     \<Rightarrow> err + bytes" where
  "ecrecover kec recover h sig =
     (let signature = sig_r sig @ sig_s sig;
          v = sig_v sig mod 27
      in bindE (require (length signature = 64) (Anchor RequireEqViolated)) (\<lambda>_.
         bindE (ok_or (recover h v signature) (Custom InvalidSignature)) (\<lambda>pk.
         derive_eth_address kec ([0x04] @ pk))))"

subsection \<open>Status\<close>

datatype op_status = StNone | StInit | StSigned | StExecuted

text \<open>The pipeline order of the statuses, as the declaration order of the Rust enum.\<close>

fun status_rank :: "op_status \<Rightarrow> nat" where
  "status_rank StNone = 0"
| "status_rank StInit = 1"
| "status_rank StSigned = 2"
| "status_rank StExecuted = 3"

lemma status_rank_inj: "status_rank a = status_rank b \<longleftrightarrow> a = b"
  by (cases a; cases b) simp_all

instantiation op_status :: linorder
begin

definition less_eq_op_status :: "op_status \<Rightarrow> op_status \<Rightarrow> bool" where
  "less_eq_op_status a b \<longleftrightarrow> status_rank a \<le> status_rank b"

definition less_op_status :: "op_status \<Rightarrow> op_status \<Rightarrow> bool" where
  "less_op_status a b \<longleftrightarrow> status_rank a < status_rank b"

instance
  by standard (auto simp: less_eq_op_status_def less_op_status_def status_rank_inj)

end

lemma status_le_simps [simp]:
  "StNone \<le> s" "s \<le> StExecuted" "StInit \<le> StSigned" "StSigned \<le> s \<longleftrightarrow> s = StSigned \<or> s = StExecuted"
  "StExecuted \<le> s \<longleftrightarrow> s = StExecuted"
  by (cases s; simp add: less_eq_op_status_def)+

subsection \<open>Selector encodings\<close>

text \<open>\<open>to_bytes\<close> as an encoder: it is defined on the selectors a proposal may carry.\<close>

definition selector_ok :: "function_selector \<Rightarrow> bool" where
  "selector_ok sel =
     (case sel of ByCode code \<Rightarrow> length code \<le> 32
      | ByName name \<Rightarrow> length name \<le> 32 \<and> utf8_valid name
      | Dummy \<Rightarrow> False)"

definition selector_bytes :: "function_selector \<Rightarrow> bytes" where
  "selector_bytes sel = (case to_bytes sel of Inr bs \<Rightarrow> bs | Inl _ \<Rightarrow> [])"

definition selector_parse :: "bytes \<Rightarrow> function_selector option" where
  "selector_parse bs = (case selector_try_from bs of Inr s \<Rightarrow> Some s | Inl _ \<Rightarrow> None)"

interpretation sel_codec: codec selector_bytes selector_parse selector_ok
  by unfold_locales
    (auto simp: selector_bytes_def selector_parse_def selector_ok_def selector_try_from_def
      split: function_selector.splits)

text \<open>Every selector that \<open>to_bytes\<close> accepts is hashed as \<open>to_bytes\<close> prints it, except \<open>Dummy\<close>.\<close>

lemma selector_evm_to_bytes: "sel \<noteq> Dummy \<Longrightarrow> to_bytes sel = Inr bs \<Longrightarrow> selector_evm sel = Inr bs"
  by (cases sel) (auto split: if_splits)

text \<open>
  The two length-prefixed forms are self-delimiting as long as the truncated length byte is the
  real length.
\<close>

definition selector_short :: "function_selector \<Rightarrow> bool" where
  "selector_short sel =
     (case sel of ByCode code \<Rightarrow> length code < 256 | ByName name \<Rightarrow> length name < 256
      | Dummy \<Rightarrow> True)"

lemma word_of_nat_u8_inj: "m < 256 \<Longrightarrow> n < 256 \<Longrightarrow> (word_of_nat m :: u8) = word_of_nat n \<longleftrightarrow> m = n"
  by (simp add: word_unat_eq_iff unat_of_nat)

lemma selector_evm_prefix_free:
  assumes "selector_evm a = Inr x" "selector_evm b = Inr y"
    and "selector_short a" "selector_short b" and "x @ p = y @ q"
  shows "a = b \<and> p = q"
  using assms
  by (cases a; cases b) (auto simp: selector_short_def word_of_nat_u8_inj)

text \<open>
  The preimage determines the operation once the lengths of the two variable fields before the
  selector and of the trailing \<open>reserved\<close> field agree: the encoding has no separators.
\<close>

lemma op_data_evm_inj:
  assumes "op_data_evm a = Inr x" "op_data_evm b = Inr x"
    and len: "length (od_protocol_id a) = length (od_protocol_id b)"
      "length (od_meta a) = length (od_meta b)"
      "length (od_src_op_tx_id a) = length (od_src_op_tx_id b)"
      "length (od_protocol_addr a) = length (od_protocol_addr b)"
      "length (od_reserved a) = length (od_reserved b)"
    and short: "selector_short (od_function_selector a)" "selector_short (od_function_selector b)"
  shows "a = b"
proof -
  obtain sa sb where s: "selector_evm (od_function_selector a) = Inr sa"
      "selector_evm (od_function_selector b) = Inr sb"
    using assms(1,2) by (auto simp: op_data_evm_def result_simps)
  have eq: "od_protocol_id a = od_protocol_id b" "od_meta a = od_meta b"
      "u128_to_bytes32 (od_src_chain_id a) = u128_to_bytes32 (od_src_chain_id b)"
      "u64_to_bytes32 (od_src_block_number a) = u64_to_bytes32 (od_src_block_number b)"
      "od_src_op_tx_id a = od_src_op_tx_id b"
      "u64_to_bytes32 (od_nonce a) = u64_to_bytes32 (od_nonce b)"
      "u128_to_bytes32 (od_dest_chain_id a) = u128_to_bytes32 (od_dest_chain_id b)"
      "od_protocol_addr a = od_protocol_addr b"
      and tl: "sa @ od_params a @ od_reserved a = sb @ od_params b @ od_reserved b"
    using assms(1,2) s len by (auto simp: op_data_evm_def)
  have "od_function_selector a = od_function_selector b"
      and "od_params a @ od_reserved a = od_params b @ od_reserved b"
    using selector_evm_prefix_free [OF s short tl] by auto
  with eq len show ?thesis
    by (auto simp: u64_32.enc_inj u128_32.enc_inj intro!: operation_data.equality)
qed

end
