(* ===== verification/Photon_State.thy ===== *)
theory Photon_State
  imports Protocol_Data
begin

section \<open>State of the endpoint program and its runtime environment\<close>

text \<open>
  The accounts, events and constants of \<^verbatim>\<open>programs/entangle-photon-sol/src/lib.rs\<close>, the CPI
  argument structs of \<^verbatim>\<open>interface.rs\<close>, and the environment the program runs in.

  \<open>world\<close> is what a Solana transaction reads and writes here: \<open>accounts\<close> are the accounts the
  endpoint program owns, by address (the constructor is the account's discriminator), \<open>events\<close>
  the log of emitted events, oldest first, and \<open>foreign\<close> everything owned by other programs.
  \<open>env\<close> holds the code that is not in the repository: hash functions, secp256k1 recovery,
  program address derivation (\<open>None\<close>: the derivation panics), the \<^verbatim>\<open>ethabi\<close> and \<^verbatim>\<open>borsh\<close> codecs,
  account creation by the system program and cross-program invocation.
  The \<open>check\<close>, \<open>load\<close> and \<open>init\<close> definitions are the meaning of the attributes
  \<^verbatim>\<open>#[account(signer, mut, seeds, init, init_if_needed)]\<close>; constraints are evaluated in field order.
\<close>

subsection \<open>Constants\<close>

datatype network = Devnet | Localnet | Mainnet

fun SOLANA_CHAIN_ID :: "network \<Rightarrow> u128" where
  "SOLANA_CHAIN_ID Mainnet = 11100000000000000501"
| "SOLANA_CHAIN_ID _ = 100000000000000000000"

definition RATE_DECIMALS :: nat where "RATE_DECIMALS = 10000"
definition ROOT :: bytes where "ROOT = str ''r0''"
definition MAX_TRANSMITTERS :: nat where "MAX_TRANSMITTERS = 20"
definition MAX_EXECUTORS :: nat where "MAX_EXECUTORS = 20"
definition MAX_PROPOSERS :: nat where "MAX_PROPOSERS = 20"

definition eth_default :: bytes where "eth_default = replicate 20 0"
definition pubkey_default :: bytes where "pubkey_default = replicate 32 0"

subsection \<open>Accounts\<close>

record config =
  conf_admin :: bytes
  conf_eob_chain_id :: u64
  conf_eob_master :: bytes
  conf_nonce :: u64

definition config_default :: config where
  "config_default =
     \<lparr>conf_admin = pubkey_default, conf_eob_chain_id = 0, conf_eob_master = replicate 32 0,
      conf_nonce = 0\<rparr>"

definition Config_LEN :: nat where "Config_LEN = 8 + 32 * 2 + 8 * 2"

record protocol_info =
  pi_is_init :: bool
  pi_consensus_target_rate :: u64
  pi_protocol_address :: bytes
  pi_transmitters :: "bytes list"
  pi_executors :: "bytes list"
  pi_proposers :: "bytes list"

definition protocol_info_default :: protocol_info where
  "protocol_info_default =
     \<lparr>pi_is_init = False, pi_consensus_target_rate = 0, pi_protocol_address = pubkey_default,
      pi_transmitters = replicate 20 eth_default, pi_executors = replicate 20 pubkey_default,
      pi_proposers = replicate 20 pubkey_default\<rparr>"

definition ProtocolInfo_LEN :: nat where
  "ProtocolInfo_LEN =
     8 + 1 + 8 + 32 + (20 * MAX_TRANSMITTERS) + (32 * MAX_EXECUTORS) + (32 * MAX_PROPOSERS)"

definition transmitters_of :: "protocol_info \<Rightarrow> bytes list" where
  "transmitters_of p = takeWhile (\<lambda>k. k \<noteq> eth_default) (pi_transmitters p)"

definition executors_of :: "protocol_info \<Rightarrow> bytes list" where
  "executors_of p = takeWhile (\<lambda>k. k \<noteq> pubkey_default) (pi_executors p)"

definition proposers_of :: "protocol_info \<Rightarrow> bytes list" where
  "proposers_of p = takeWhile (\<lambda>k. k \<noteq> pubkey_default) (pi_proposers p)"

record op_info =
  oi_status :: op_status
  oi_unique_signers :: "bytes list"
  oi_op_data :: operation_data

text \<open>A freshly created account is all zeros; variant 0 of the selector is \<open>ByCode\<close>.\<close>

definition op_data_zeroed :: operation_data where
  "op_data_zeroed =
     \<lparr>od_protocol_id = [], od_meta = replicate 32 0, od_src_chain_id = 0, od_src_block_number = 0,
      od_src_op_tx_id = [], od_nonce = 0, od_dest_chain_id = 0, od_protocol_addr = pubkey_default,
      od_function_selector = ByCode [], od_params = [], od_reserved = []\<rparr>"

definition op_info_zeroed :: op_info where
  "op_info_zeroed =
     \<lparr>oi_status = StNone, oi_unique_signers = replicate 16 eth_default,
      oi_op_data = op_data_zeroed\<rparr>"

definition OpInfo_len :: "(operation_data \<Rightarrow> bytes) \<Rightarrow> operation_data \<Rightarrow> nat" where
  "OpInfo_len borsh d = 8 + 1 + 20 * 16 + length (borsh d)"

datatype account = AConfig config | AProtocol protocol_info | AOp op_info

subsection \<open>Events\<close>

record propose_event =
  pe_protocol_id :: bytes
  pe_nonce :: u64
  pe_dst_chain_id :: u128
  pe_protocol_address :: bytes
  pe_function_selector :: bytes
  pe_params :: bytes

datatype event =
    ProposalLoaded bytes bytes
  | ProposalApproved bytes bytes
  | ProposalExecuted bytes bytes
  | ProposeEvent propose_event

subsection \<open>Instructions, accounts passed to them, the world\<close>

record account_info =
  ai_key :: bytes
  ai_is_signer :: bool
  ai_is_writable :: bool

record account_meta =
  am_pubkey :: bytes
  am_is_signer :: bool
  am_is_writable :: bool

record instruction =
  ix_program_id :: bytes
  ix_data :: bytes
  ix_accounts :: "account_meta list"

record photon_msg =
  pm_params :: bytes

record photon_msg_with_selector =
  pms_op_hash :: bytes
  pms_selector :: bytes
  pms_params :: bytes

record 'x world =
  accounts :: "bytes \<Rightarrow> account option"
  events :: "event list"
  foreign :: 'x

text \<open>The parameter and token types of \<^verbatim>\<open>ethabi\<close>, as far as the sources build or match them.\<close>

datatype param_type =
    PT_Address
  | PT_Bytes
  | PT_Uint nat
  | PT_FixedBytes nat
  | PT_Array param_type
  | PT_Tuple "param_type list"

datatype token =
    T_Address bytes
  | T_Bytes bytes
  | T_Uint u256
  | T_FixedBytes bytes
  | T_Array "token list"
  | T_Tuple "token list"

record 'x env =
  env_network :: network
  env_photon_id :: bytes
  env_deployer :: bytes
  env_system_program :: bytes
  env_keccak :: "bytes \<Rightarrow> bytes"
  env_sha256 :: "bytes \<Rightarrow> bytes"
  env_recover :: "bytes \<Rightarrow> u8 \<Rightarrow> bytes \<Rightarrow> bytes option"
  env_find_pda :: "bytes list \<Rightarrow> bytes \<Rightarrow> (bytes \<times> u8) option"
  env_abi_decode :: "param_type list \<Rightarrow> bytes \<Rightarrow> token list option"
  env_abi_encode :: "token list \<Rightarrow> bytes"
  env_borsh_op :: "operation_data \<Rightarrow> bytes"
  env_borsh_msg :: "photon_msg \<Rightarrow> bytes"
  env_borsh_msg_sel :: "photon_msg_with_selector \<Rightarrow> bytes"
  env_create_account :: "bytes \<Rightarrow> bytes \<Rightarrow> nat \<Rightarrow> 'x \<Rightarrow> 'x option"
  env_invoke_signed :: "instruction \<Rightarrow> account_info list \<Rightarrow> bytes list \<Rightarrow> 'x world \<Rightarrow> err + 'x world"

subsection \<open>Account constraints\<close>

definition check_signer :: "account_info \<Rightarrow> err + unit" where
  "check_signer a = require (ai_is_signer a) (Anchor AccountNotSigner)"

definition check_mut :: "account_info \<Rightarrow> err + unit" where
  "check_mut a = require (ai_is_writable a) (Anchor ConstraintMut)"

definition check_program :: "bytes \<Rightarrow> account_info \<Rightarrow> err + unit" where
  "check_program pid a = require (ai_key a = pid) (Anchor InvalidProgramId)"

definition check_seeds :: "'x env \<Rightarrow> bytes list \<Rightarrow> account_info \<Rightarrow> err + u8" where
  "check_seeds env seeds a =
     bindE (ok_or (env_find_pda env seeds (env_photon_id env)) (Panic NoViableBump)) (\<lambda>(k, bump).
       bindE (require (ai_key a = k) (Anchor ConstraintSeeds)) (\<lambda>_. Inr bump))"

definition load_config :: "'x world \<Rightarrow> account_info \<Rightarrow> err + config" where
  "load_config w a =
     (case accounts w (ai_key a) of
        None \<Rightarrow> Inl (Anchor AccountNotInitialized)
      | Some (AConfig c) \<Rightarrow> Inr c
      | Some _ \<Rightarrow> Inl (Anchor AccountDiscriminatorMismatch))"

definition load_protocol :: "'x world \<Rightarrow> account_info \<Rightarrow> err + protocol_info" where
  "load_protocol w a =
     (case accounts w (ai_key a) of
        None \<Rightarrow> Inl (Anchor AccountNotInitialized)
      | Some (AProtocol p) \<Rightarrow> Inr p
      | Some _ \<Rightarrow> Inl (Anchor AccountDiscriminatorMismatch))"

definition load_op :: "'x world \<Rightarrow> account_info \<Rightarrow> err + op_info" where
  "load_op w a =
     (case accounts w (ai_key a) of
        None \<Rightarrow> Inl (Anchor AccountNotInitialized)
      | Some (AOp x) \<Rightarrow> Inr x
      | Some _ \<Rightarrow> Inl (Anchor AccountDiscriminatorMismatch))"

definition store :: "account_info \<Rightarrow> account \<Rightarrow> 'x world \<Rightarrow> 'x world" where
  "store a acc w = w\<lparr>accounts := (accounts w)(ai_key a := Some acc)\<rparr>"

definition emit :: "event \<Rightarrow> 'x world \<Rightarrow> 'x world" where
  "emit e w = w\<lparr>events := events w @ [e]\<rparr>"

definition init_account ::
    "'x env \<Rightarrow> account_info \<Rightarrow> account_info \<Rightarrow> nat \<Rightarrow> account \<Rightarrow> 'x world \<Rightarrow> err + 'x world" where
  "init_account env payer a space zeroed w =
     bindE (require (accounts w (ai_key a) = None) (Anchor CreateAccountFailed)) (\<lambda>_.
     bindE (ok_or (env_create_account env (ai_key payer) (ai_key a) space (foreign w))
              (Anchor CreateAccountFailed)) (\<lambda>x.
     bindE (check_mut a) (\<lambda>_.
     Inr (store a zeroed (w\<lparr>foreign := x\<rparr>)))))"

definition init_if_needed ::
    "'x env \<Rightarrow> account_info \<Rightarrow> account_info \<Rightarrow> nat \<Rightarrow> account \<Rightarrow> 'x world \<Rightarrow> err + 'x world" where
  "init_if_needed env payer a space zeroed w =
     (if accounts w (ai_key a) = None then init_account env payer a space zeroed w
      else bindE (check_mut a) (\<lambda>_. Inr w))"

lemmas check_defs = check_signer_def check_mut_def check_program_def

lemma load_config_Inr [result_simps]: "load_config w a = Inr c \<longleftrightarrow> accounts w (ai_key a) = Some (AConfig c)"
  by (auto simp: load_config_def split: option.splits account.splits)

lemma load_protocol_Inr [result_simps]:
  "load_protocol w a = Inr p \<longleftrightarrow> accounts w (ai_key a) = Some (AProtocol p)"
  by (auto simp: load_protocol_def split: option.splits account.splits)

lemma load_op_Inr [result_simps]: "load_op w a = Inr x \<longleftrightarrow> accounts w (ai_key a) = Some (AOp x)"
  by (auto simp: load_op_def split: option.splits account.splits)

lemma check_signer_Inr [result_simps]: "check_signer a = Inr u \<longleftrightarrow> ai_is_signer a"
  and check_mut_Inr [result_simps]: "check_mut a = Inr u \<longleftrightarrow> ai_is_writable a"
  and check_program_Inr [result_simps]: "check_program pid a = Inr u \<longleftrightarrow> ai_key a = pid"
  by (simp_all add: check_defs result_simps)

lemma check_seeds_Inr [result_simps]:
  "check_seeds env seeds a = Inr b \<longleftrightarrow> env_find_pda env seeds (env_photon_id env) = Some (ai_key a, b)"
  by (auto simp: check_seeds_def result_simps split: prod.splits)

lemma store_simps [simp]:
  "accounts (store a acc w) = (accounts w)(ai_key a := Some acc)"
  "events (store a acc w) = events w"
  "foreign (store a acc w) = foreign w"
  by (simp_all add: store_def)

lemma emit_simps [simp]:
  "accounts (emit e w) = accounts w"
  "events (emit e w) = events w @ [e]"
  "foreign (emit e w) = foreign w"
  by (simp_all add: emit_def)

end
