(* ===== verification/Concrete_Env.thy ===== *)
theory Concrete_Env
  imports Photon_State
begin

section \<open>A concrete environment\<close>

text \<open>
  One executable instance of the environment, on which the witnesses evaluate the properties that
  assume something of the code outside the repository. Its hash is the input padded to 32 bytes,
  its addresses are the concatenated seeds, its ABI decoder returns one token of the requested
  type, its recovery always returns the signature, and its cross-program call changes nothing.
\<close>

definition pad :: "nat \<Rightarrow> bytes \<Rightarrow> bytes" where
  "pad n bs = take n (bs @ replicate n 0)"

lemma length_pad [simp]: "length (pad n bs) = n"
  by (simp add: pad_def)

fun sample_token :: "bytes \<Rightarrow> param_type \<Rightarrow> token" where
  "sample_token data PT_Address = T_Address (pad 20 data)"
| "sample_token data PT_Bytes = T_Bytes data"
| "sample_token data (PT_Uint n) = T_Uint 6000"
| "sample_token data (PT_FixedBytes n) = T_FixedBytes (pad n data)"
| "sample_token data (PT_Array t) = T_Array [sample_token data t]"
| "sample_token data (PT_Tuple ts) = T_Tuple (List.map (sample_token data) ts)"

definition sample_env :: "unit env" where
  "sample_env =
     \<lparr>env_network = Devnet,
      env_photon_id = replicate 32 7,
      env_deployer = replicate 32 8,
      env_system_program = replicate 32 9,
      env_keccak = pad 32,
      env_sha256 = pad 32,
      env_recover = (\<lambda>h v s. Some s),
      env_find_pda = (\<lambda>seeds pid. Some (concat seeds, 255)),
      env_abi_decode = (\<lambda>pts data. Some (List.map (sample_token data) pts)),
      env_abi_encode = (\<lambda>ts. []),
      env_borsh_op = (\<lambda>d. od_params d),
      env_borsh_msg = pm_params,
      env_borsh_msg_sel = pms_params,
      env_create_account = (\<lambda>payer new space x. Some x),
      env_invoke_signed = (\<lambda>ix infos seeds w. Inr w)\<rparr>"

lemma sample_env_simps [simp]:
  "env_network sample_env = Devnet"
  "env_photon_id sample_env = replicate 32 7"
  "env_deployer sample_env = replicate 32 8"
  "env_system_program sample_env = replicate 32 9"
  "env_keccak sample_env = pad 32"
  "env_sha256 sample_env = pad 32"
  "env_recover sample_env h v s = Some s"
  "env_find_pda sample_env seeds pid = Some (concat seeds, 255)"
  "env_abi_decode sample_env pts data = Some (List.map (sample_token data) pts)"
  "env_abi_encode sample_env ts = []"
  "env_borsh_op sample_env d = od_params d"
  "env_create_account sample_env payer new space x = Some x"
  "env_invoke_signed sample_env ix infos seeds w = Inr w"
  by (simp_all add: sample_env_def)

end
