(* ===== verification/Gov.thy ===== *)
theory Gov
  imports Concrete_Env
begin

section \<open>Governance operations\<close>

text \<open>
  \<^verbatim>\<open>programs/entangle-photon-sol/src/gov.rs\<close>: the table of operation codes, the ABI schemes, and
  one definition per governance operation over the target protocol's record. Three rosters
  (transmitters, executors, proposers) live in fixed arrays that end at the first default entry;
  \<open>roster\<close> is their common contract, and each roster is an interpretation of it.
\<close>

subsection \<open>Operation codes and ABI schemes\<close>

datatype gov_operation =
    AddAllowedProtocol
  | AddAllowedProtocolAddress
  | RemoveAllowedProtocolAddress
  | AddAllowedProposerAddress
  | RemoveAllowedProposerAddress
  | AddExecutor
  | RemoveExecutor
  | AddTransmitters
  | RemoveTransmitters
  | UpdateTransmitters
  | SetConsensusTargetRate

fun gov_code :: "gov_operation \<Rightarrow> u32" where
  "gov_code AddAllowedProtocol = 0x45a004b9"
| "gov_code AddAllowedProtocolAddress = 0xd296a0ff"
| "gov_code RemoveAllowedProtocolAddress = 0xb0a4ca98"
| "gov_code AddAllowedProposerAddress = 0xce0940a5"
| "gov_code RemoveAllowedProposerAddress = 0xb8e5f3f4"
| "gov_code AddExecutor = 0xe0aafb68"
| "gov_code RemoveExecutor = 0x04fa384a"
| "gov_code AddTransmitters = 0x6c5f5666"
| "gov_code RemoveTransmitters = 0x5206da70"
| "gov_code UpdateTransmitters = 0x654b46e1"
| "gov_code SetConsensusTargetRate = 0x970b6109"

definition gov_operations :: "gov_operation list" where
  "gov_operations =
     [AddAllowedProtocol, AddAllowedProtocolAddress, RemoveAllowedProtocolAddress,
      AddAllowedProposerAddress, RemoveAllowedProposerAddress, AddExecutor, RemoveExecutor,
      AddTransmitters, RemoveTransmitters, UpdateTransmitters, SetConsensusTargetRate]"

text \<open>\<^verbatim>\<open>#[derive(TryFromPrimitive)]\<close>: the variant with this code, if there is one.\<close>

definition gov_try_from :: "u32 \<Rightarrow> u32 + gov_operation" where
  "gov_try_from n =
     (case find (\<lambda>g. gov_code g = n) gov_operations of None \<Rightarrow> Inl n | Some g \<Rightarrow> Inr g)"

definition U32_SIZE :: nat where "U32_SIZE = 4"

definition selector_u32 :: "bytes \<Rightarrow> u32" where
  "selector_u32 code = word_of_nat (of_be_bytes (take U32_SIZE code))"

definition HANDLE_ADD_ALLOWED_PROTOCOL_SELECTOR :: bytes where
  "HANDLE_ADD_ALLOWED_PROTOCOL_SELECTOR = [0xba, 0x96, 0x6e, 0x5f] @ replicate 28 0"

fun abi_decode_scheme :: "gov_operation \<Rightarrow> param_type" where
  "abi_decode_scheme AddAllowedProtocol =
     PT_Tuple [PT_FixedBytes 32, PT_Uint 256, PT_Array PT_Address]"
| "abi_decode_scheme AddAllowedProtocolAddress = PT_Tuple [PT_FixedBytes 32, PT_Bytes]"
| "abi_decode_scheme RemoveAllowedProtocolAddress = PT_Tuple [PT_FixedBytes 32, PT_Bytes]"
| "abi_decode_scheme AddAllowedProposerAddress = PT_Tuple [PT_FixedBytes 32, PT_Bytes]"
| "abi_decode_scheme RemoveAllowedProposerAddress = PT_Tuple [PT_FixedBytes 32, PT_Bytes]"
| "abi_decode_scheme AddExecutor = PT_Tuple [PT_FixedBytes 32, PT_Bytes]"
| "abi_decode_scheme RemoveExecutor = PT_Tuple [PT_FixedBytes 32, PT_Bytes]"
| "abi_decode_scheme AddTransmitters = PT_Tuple [PT_FixedBytes 32, PT_Array PT_Address]"
| "abi_decode_scheme RemoveTransmitters = PT_Tuple [PT_FixedBytes 32, PT_Array PT_Address]"
| "abi_decode_scheme UpdateTransmitters =
     PT_Tuple [PT_FixedBytes 32, PT_Array PT_Address, PT_Array PT_Address]"
| "abi_decode_scheme SetConsensusTargetRate = PT_Tuple [PT_FixedBytes 32, PT_Uint 256]"

subsection \<open>Reading ABI tokens\<close>

fun into_tuple :: "token \<Rightarrow> token list option" where
  "into_tuple (T_Tuple ts) = Some ts"
| "into_tuple _ = None"

fun into_array :: "token \<Rightarrow> token list option" where
  "into_array (T_Array ts) = Some ts"
| "into_array _ = None"

fun into_uint :: "token \<Rightarrow> u256 option" where
  "into_uint (T_Uint n) = Some n"
| "into_uint _ = None"

fun into_bytes :: "token \<Rightarrow> bytes option" where
  "into_bytes (T_Bytes b) = Some b"
| "into_bytes _ = None"

fun into_fixed_bytes :: "token \<Rightarrow> bytes option" where
  "into_fixed_bytes (T_FixedBytes b) = Some b"
| "into_fixed_bytes _ = None"

fun into_address :: "token \<Rightarrow> bytes option" where
  "into_address (T_Address a) = Some a"
| "into_address _ = None"

text \<open>\<^verbatim>\<open>U256::as_u64\<close> panics when the value does not fit.\<close>

definition as_u64 :: "u256 \<Rightarrow> err + u64" where
  "as_u64 n =
     (if unat n < 2 ^ 64 then Inr (word_of_nat (unat n)) else Inl (Panic ArithmeticOverflow))"

definition idx :: "'a list \<Rightarrow> nat \<Rightarrow> err + 'a" where
  "idx xs i = (if i < length xs then Inr (xs ! i) else Inl (Panic IndexOutOfBounds))"

definition decode_abi_params ::
    "(param_type list \<Rightarrow> bytes \<Rightarrow> token list option) \<Rightarrow> bytes \<Rightarrow> param_type \<Rightarrow> err + token list" where
  "decode_abi_params abi calldata pt =
     bindE (ok_or (abi [pt] calldata) (Custom InvalidProtoMsg)) (\<lambda>decoded.
       (case decoded of
          [] \<Rightarrow> Inl (Custom InvalidProtoMsg)
        | t # _ \<Rightarrow> ok_or (into_tuple t) (Custom InvalidProtoMsg)))"

text \<open>\<^verbatim>\<open>params[1].clone().into_bytes()...try_into()\<close>, the pubkey argument of four operations.\<close>

definition pubkey_param :: "token list \<Rightarrow> err + bytes" where
  "pubkey_param params =
     bindE (idx params 1) (\<lambda>t.
     bindE (ok_or (into_bytes t) (Custom InvalidGovMsg)) (\<lambda>b.
     if length b = 32 then Inr b else Inl (Custom InvalidGovMsg)))"

subsection \<open>Writing a roster\<close>

text \<open>\<^verbatim>\<open>arr = Default::default(); for (i, k) in xs.into_iter().enumerate() { arr[i] = k; }\<close>\<close>

definition set_transmitters :: "bytes list \<Rightarrow> protocol_info \<Rightarrow> err + protocol_info" where
  "set_transmitters xs p =
     bindE (ok_or (store_from 0 xs (replicate 20 eth_default)) (Panic IndexOutOfBounds)) (\<lambda>arr.
       Inr (p\<lparr>pi_transmitters := arr\<rparr>))"

definition set_executors :: "bytes list \<Rightarrow> protocol_info \<Rightarrow> err + protocol_info" where
  "set_executors xs p =
     bindE (ok_or (store_from 0 xs (replicate 20 pubkey_default)) (Panic IndexOutOfBounds)) (\<lambda>arr.
       Inr (p\<lparr>pi_executors := arr\<rparr>))"

definition set_proposers :: "bytes list \<Rightarrow> protocol_info \<Rightarrow> err + protocol_info" where
  "set_proposers xs p =
     bindE (ok_or (store_from 0 xs (replicate 20 pubkey_default)) (Panic IndexOutOfBounds)) (\<lambda>arr.
       Inr (p\<lparr>pi_proposers := arr\<rparr>))"

subsection \<open>The operations\<close>

definition check_consensus_target_rate :: "u64 \<Rightarrow> err + unit" where
  "check_consensus_target_rate r =
     (if unat r = 0 then Inl (Custom ConsensusTargetRateTooLow)
      else if unat r > RATE_DECIMALS then Inl (Custom ConsensusTargetRateTooHigh)
      else Inr ())"

definition propose_handle_add_allowed_protocol ::
    "'x env \<Rightarrow> token list \<Rightarrow> config \<Rightarrow> err + config \<times> event" where
  "propose_handle_add_allowed_protocol env params c =
     bindE (ok_or (checked_add (conf_nonce c) 1) (Panic ArithmeticOverflow)) (\<lambda>n'.
     bindE (idx params 0) (\<lambda>t.
     bindE (ok_or (into_fixed_bytes t) (Custom InvalidGovMsg)) (\<lambda>protocol_id.
     Inr (c\<lparr>conf_nonce := n'\<rparr>,
       ProposeEvent
         \<lparr>pe_protocol_id = GOV_PROTOCOL_ID,
          pe_nonce = conf_nonce c,
          pe_dst_chain_id = ucast (conf_eob_chain_id c),
          pe_protocol_address = conf_eob_master c,
          pe_function_selector =
            [0, 32] @ env_abi_encode env [T_FixedBytes HANDLE_ADD_ALLOWED_PROTOCOL_SELECTOR],
          pe_params =
            env_abi_encode env
              [T_Tuple [T_FixedBytes protocol_id,
                        T_Uint (ucast (SOLANA_CHAIN_ID (env_network env)))]]\<rparr>))))"

text \<open>
  The new transmitters are written over the front of the existing array: it is not cleared first.
\<close>

definition add_allowed_protocol ::
    "'x env \<Rightarrow> bytes \<Rightarrow> protocol_info \<Rightarrow> config \<Rightarrow> err + protocol_info \<times> config \<times> event" where
  "add_allowed_protocol env calldata p c =
     bindE (decode_abi_params (env_abi_decode env) calldata
              (PT_Tuple [PT_FixedBytes 32, PT_Uint 256, PT_Array PT_Address])) (\<lambda>params.
     bindE (idx params 1) (\<lambda>t1.
     bindE (ok_or (into_uint t1) (Custom InvalidGovMsg)) (\<lambda>n.
     bindE (as_u64 n) (\<lambda>rate.
     bindE (check_consensus_target_rate rate) (\<lambda>_.
     bindE (idx params 2) (\<lambda>t2.
     bindE (ok_or (into_array t2) (Custom InvalidGovMsg)) (\<lambda>ts.
     bindE (mapE (\<lambda>x. ok_or (into_address x) (Panic ExpectFailed)) ts) (\<lambda>transmitters.
     bindE (ok_or (store_from 0 transmitters (pi_transmitters p)) (Panic IndexOutOfBounds)) (\<lambda>arr.
     bindE (propose_handle_add_allowed_protocol env params c) (\<lambda>(c', ev).
     Inr (p\<lparr>pi_is_init := True, pi_consensus_target_rate := rate, pi_transmitters := arr\<rparr>,
          c', ev)))))))))))"

definition add_allowed_protocol_address ::
    "'x env \<Rightarrow> bytes \<Rightarrow> protocol_info \<Rightarrow> err + protocol_info" where
  "add_allowed_protocol_address env calldata p =
     bindE (decode_abi_params (env_abi_decode env) calldata (PT_Tuple [PT_FixedBytes 32, PT_Bytes]))
       (\<lambda>params. bindE (pubkey_param params) (\<lambda>a. Inr (p\<lparr>pi_protocol_address := a\<rparr>)))"

definition remove_allowed_protocol_address :: "protocol_info \<Rightarrow> protocol_info" where
  "remove_allowed_protocol_address p = p\<lparr>pi_protocol_address := pubkey_default\<rparr>"

definition add_allowed_proposer_address ::
    "'x env \<Rightarrow> bytes \<Rightarrow> protocol_info \<Rightarrow> err + protocol_info" where
  "add_allowed_proposer_address env calldata p =
     bindE (decode_abi_params (env_abi_decode env) calldata (PT_Tuple [PT_FixedBytes 32, PT_Bytes]))
       (\<lambda>params. bindE (pubkey_param params) (\<lambda>proposer.
        let proposers = proposers_of p
        in if proposer = pubkey_default then Inl (Custom InvalidProposerAddress)
           else if proposer \<in> set proposers then Inl (Custom ProposerIsAlreadyAllowed)
           else if length proposers \<ge> MAX_PROPOSERS then Inl (Custom MaxProposersExceeded)
           else set_proposers (proposers @ [proposer]) p))"

definition remove_allowed_proposer_address ::
    "'x env \<Rightarrow> bytes \<Rightarrow> protocol_info \<Rightarrow> err + protocol_info" where
  "remove_allowed_proposer_address env calldata p =
     bindE (decode_abi_params (env_abi_decode env) calldata (PT_Tuple [PT_FixedBytes 32, PT_Bytes]))
       (\<lambda>params. bindE (pubkey_param params) (\<lambda>proposer.
        set_proposers (filter (\<lambda>x. x \<noteq> proposer) (proposers_of p)) p))"

definition add_executor :: "'x env \<Rightarrow> bytes \<Rightarrow> protocol_info \<Rightarrow> err + protocol_info" where
  "add_executor env calldata p =
     bindE (decode_abi_params (env_abi_decode env) calldata (PT_Tuple [PT_FixedBytes 32, PT_Bytes]))
       (\<lambda>params. bindE (pubkey_param params) (\<lambda>executor.
        let executors = executors_of p
        in if executor = pubkey_default then Inl (Custom InvalidExecutorAddress)
           else if executor \<in> set executors then Inl (Custom ExecutorIsAlreadyAllowed)
           else if length executors \<ge> MAX_EXECUTORS then Inl (Custom MaxExecutorsExceeded)
           else set_executors (executors @ [executor]) p))"

definition remove_executor :: "'x env \<Rightarrow> bytes \<Rightarrow> bytes \<Rightarrow> protocol_info \<Rightarrow> err + protocol_info" where
  "remove_executor env calldata protocol_id p =
     bindE (decode_abi_params (env_abi_decode env) calldata (PT_Tuple [PT_FixedBytes 32, PT_Bytes]))
       (\<lambda>params. bindE (pubkey_param params) (\<lambda>executor.
        let executors = filter (\<lambda>x. x \<noteq> executor) (executors_of p)
        in if executors = [] \<and> protocol_id = GOV_PROTOCOL_ID
           then Inl (Custom TryingToRemoveLastGovExecutor)
           else set_executors executors p))"

definition get_transmitters_to_add :: "token \<Rightarrow> err + bytes list" where
  "get_transmitters_to_add t =
     bindE (ok_or (into_array t) (Custom InvalidGovMsg)) (\<lambda>ts.
       Inr (filter (\<lambda>x. x \<noteq> eth_default) (List.map_filter into_address ts)))"

text \<open>\<^verbatim>\<open>Vec::dedup\<close> removes consecutive repeated elements only.\<close>

definition add_transmitters_impl :: "bytes list \<Rightarrow> protocol_info \<Rightarrow> err + protocol_info" where
  "add_transmitters_impl to_add p =
     (let total = remdups_adj (transmitters_of p @ to_add)
      in if length total \<ge> MAX_TRANSMITTERS then Inl (Custom MaxTransmittersExceeded)
         else set_transmitters total p)"

definition add_transmitters :: "'x env \<Rightarrow> bytes \<Rightarrow> protocol_info \<Rightarrow> err + protocol_info" where
  "add_transmitters env calldata p =
     bindE (decode_abi_params (env_abi_decode env) calldata (abi_decode_scheme AddTransmitters))
       (\<lambda>params. bindE (idx params 1) (\<lambda>t. bindE (get_transmitters_to_add t) (\<lambda>ts.
        bindE (require (ts \<noteq> []) (Custom NoTransmittersAllowed)) (\<lambda>_.
        add_transmitters_impl ts p))))"

definition get_transmitters_to_remove :: "token \<Rightarrow> err + bytes list" where
  "get_transmitters_to_remove t =
     bindE (ok_or (into_array t) (Custom InvalidGovMsg)) (\<lambda>ts.
       mapE (\<lambda>x. ok_or (into_address x) (Custom InvalidGovMsg)) ts)"

definition remove_transmitters_impl :: "bytes list \<Rightarrow> protocol_info \<Rightarrow> err + protocol_info" where
  "remove_transmitters_impl to_remove p =
     set_transmitters (filter (\<lambda>x. x \<notin> set to_remove) (transmitters_of p)) p"

definition remove_transmitters :: "'x env \<Rightarrow> bytes \<Rightarrow> protocol_info \<Rightarrow> err + protocol_info" where
  "remove_transmitters env calldata p =
     bindE (decode_abi_params (env_abi_decode env) calldata (abi_decode_scheme RemoveTransmitters))
       (\<lambda>params. bindE (idx params 1) (\<lambda>t. bindE (get_transmitters_to_remove t) (\<lambda>ts.
        remove_transmitters_impl ts p)))"

definition update_transmitters :: "'x env \<Rightarrow> bytes \<Rightarrow> protocol_info \<Rightarrow> err + protocol_info" where
  "update_transmitters env calldata p =
     bindE (decode_abi_params (env_abi_decode env) calldata (abi_decode_scheme UpdateTransmitters))
       (\<lambda>params.
        bindE (idx params 2) (\<lambda>t2. bindE (get_transmitters_to_remove t2) (\<lambda>to_remove.
        bindE (if to_remove \<noteq> [] then remove_transmitters_impl to_remove p else Inr p) (\<lambda>p1.
        bindE (idx params 1) (\<lambda>t1. bindE (get_transmitters_to_add t1) (\<lambda>to_add.
        if to_add \<noteq> [] then add_transmitters_impl to_add p1 else Inr p1))))))"

definition set_consensus_target_rate ::
    "'x env \<Rightarrow> bytes \<Rightarrow> protocol_info \<Rightarrow> err + protocol_info" where
  "set_consensus_target_rate env calldata p =
     bindE (decode_abi_params (env_abi_decode env) calldata
              (PT_Tuple [PT_FixedBytes 32, PT_Uint 256])) (\<lambda>params.
     bindE (idx params 1) (\<lambda>t.
     bindE (ok_or (into_uint t) (Custom InvalidGovMsg)) (\<lambda>n.
     bindE (as_u64 n) (\<lambda>rate.
     bindE (check_consensus_target_rate rate) (\<lambda>_.
     Inr (p\<lparr>pi_consensus_target_rate := rate\<rparr>))))))"

text \<open>Dispatch: the new config and target record, and the events of the operation.\<close>

definition gov_dispatch ::
    "'x env \<Rightarrow> gov_operation \<Rightarrow> config \<Rightarrow> protocol_info \<Rightarrow> operation_data
     \<Rightarrow> err + config \<times> protocol_info \<times> event list" where
  "gov_dispatch env g c p d =
     (let calldata = od_params d; keep = (\<lambda>r. bindE r (\<lambda>p'. Inr (c, p', [])))
      in case g of
           AddAllowedProtocol \<Rightarrow>
             bindE (add_allowed_protocol env calldata p c) (\<lambda>(p', c', ev). Inr (c', p', [ev]))
         | AddAllowedProtocolAddress \<Rightarrow> keep (add_allowed_protocol_address env calldata p)
         | RemoveAllowedProtocolAddress \<Rightarrow> keep (Inr (remove_allowed_protocol_address p))
         | AddAllowedProposerAddress \<Rightarrow> keep (add_allowed_proposer_address env calldata p)
         | RemoveAllowedProposerAddress \<Rightarrow> keep (remove_allowed_proposer_address env calldata p)
         | AddExecutor \<Rightarrow> keep (add_executor env calldata p)
         | RemoveExecutor \<Rightarrow> keep (remove_executor env calldata (od_protocol_id d) p)
         | AddTransmitters \<Rightarrow> keep (add_transmitters env calldata p)
         | RemoveTransmitters \<Rightarrow> keep (remove_transmitters env calldata p)
         | UpdateTransmitters \<Rightarrow> keep (update_transmitters env calldata p)
         | SetConsensusTargetRate \<Rightarrow> keep (set_consensus_target_rate env calldata p))"

definition handle_gov_operation ::
    "'x env \<Rightarrow> config \<Rightarrow> protocol_info \<Rightarrow> bytes \<Rightarrow> operation_data
     \<Rightarrow> err + config \<times> protocol_info \<times> event list" where
  "handle_gov_operation env c p code d =
     (if length code < U32_SIZE then Inl (Custom InvalidMethodSelector)
      else bindE (require_ok (gov_try_from (selector_u32 code)) (Custom InvalidMethodSelector))
             (\<lambda>g. gov_dispatch env g c p d))"

subsection \<open>The target protocol of a governance operation\<close>

definition target_protocol_by_code ::
    "(param_type list \<Rightarrow> bytes \<Rightarrow> token list option) \<Rightarrow> bytes \<Rightarrow> bytes \<Rightarrow> string + bytes" where
  "target_protocol_by_code abi code params =
     (if length code < U32_SIZE then Inl ''Selector to short''
      else
        bindE (map_err (\<lambda>_. ''Failed to get gov_operation from selector'')
                 (gov_try_from (selector_u32 code))) (\<lambda>g.
        bindE (map_err (\<lambda>_. ''Failed to decode abi params'')
                 (decode_abi_params abi params (abi_decode_scheme g))) (\<lambda>ps.
        (case ps of
           [] \<Rightarrow> Inl ''Failed to get first decoded abi param''
         | t # _ \<Rightarrow>
             ok_or (into_fixed_bytes t)
               ''Failed to convert first decoded abi param as fixed_bytes''))))"

definition target_protocol ::
    "(param_type list \<Rightarrow> bytes \<Rightarrow> token list option) \<Rightarrow> function_selector \<Rightarrow> bytes \<Rightarrow> err + bytes" where
  "target_protocol abi sel params =
     (case sel of
        ByCode code \<Rightarrow> map_err (\<lambda>_. Panic ExplicitPanic) (target_protocol_by_code abi code params)
      | _ \<Rightarrow> Inl (Panic ExplicitPanic))"

subsection \<open>Rosters\<close>

text \<open>
  A roster is a list read from, and written back to, a fixed array inside the protocol record.
  Its contract: writing a list without the default value that fits succeeds, is read back, and
  keeps the record well formed; a longer list panics; a read never yields the default value.
\<close>

locale roster =
  fixes read :: "'s \<Rightarrow> 'a list"
    and save :: "'a list \<Rightarrow> 's \<Rightarrow> err + 's"
    and dflt :: 'a
    and cap :: nat
    and wf :: "'s \<Rightarrow> bool"
    and entry_ok :: "'a \<Rightarrow> bool"
  assumes write_ok:
      "\<lbrakk>wf s; dflt \<notin> set xs; \<forall>x \<in> set xs. entry_ok x; length xs \<le> cap\<rbrakk>
       \<Longrightarrow> \<exists>s'. save xs s = Inr s' \<and> read s' = xs \<and> wf s'"
    and write_overflow: "cap < length xs \<Longrightarrow> save xs s = Inl (Panic IndexOutOfBounds)"
    and read_dflt: "dflt \<notin> set (read s)"
    and read_entry: "wf s \<Longrightarrow> x \<in> set (read s) \<Longrightarrow> entry_ok x"
    and read_cap: "wf s \<Longrightarrow> length (read s) \<le> cap"
begin

lemma write_success: "wf s \<Longrightarrow> save xs s = Inr s' \<Longrightarrow> length xs \<le> cap"
  using write_overflow [of xs s] by (cases "length xs \<le> cap") auto

lemma filter_ok:
  assumes "wf s"
  shows "\<exists>s'. save (filter P (read s)) s = Inr s' \<and> read s' = filter P (read s) \<and> wf s'"
proof (rule write_ok [OF assms])
  show "length (filter P (read s)) \<le> cap"
    using read_cap [OF assms] by (meson length_filter_le order_trans)
qed (use read_dflt read_entry assms in auto)

lemma push_ok:
  assumes "wf s" "x \<noteq> dflt" "entry_ok x" "length (read s) < cap"
  shows "\<exists>s'. save (read s @ [x]) s = Inr s' \<and> read s' = read s @ [x] \<and> wf s'"
  by (rule write_ok) (use assms read_dflt read_entry in auto)

lemma push_wf:
  "\<lbrakk>save (read s @ [x]) s = Inr s'; wf s; x \<noteq> dflt; entry_ok x; length (read s) < cap\<rbrakk>
   \<Longrightarrow> read s' = read s @ [x] \<and> wf s'"
  using push_ok [of s x] by auto

lemma filter_wf:
  "save (filter P (read s)) s = Inr s' \<Longrightarrow> wf s \<Longrightarrow> read s' = filter P (read s) \<and> wf s'"
  using filter_ok [of s P] by auto

lemma write_wf:
  "\<lbrakk>wf s; dflt \<notin> set xs; \<forall>x \<in> set xs. entry_ok x; save xs s = Inr s'\<rbrakk> \<Longrightarrow> read s' = xs \<and> wf s'"
  using write_ok [of s xs] write_success [of s xs s'] by auto

end

definition protocol_wf :: "protocol_info \<Rightarrow> bool" where
  "protocol_wf p \<longleftrightarrow>
     length (pi_protocol_address p) = 32 \<and>
     length (pi_transmitters p) = MAX_TRANSMITTERS \<and> (\<forall>x \<in> set (pi_transmitters p). length x = 20) \<and>
     length (pi_executors p) = MAX_EXECUTORS \<and> (\<forall>x \<in> set (pi_executors p). length x = 32) \<and>
     length (pi_proposers p) = MAX_PROPOSERS \<and> (\<forall>x \<in> set (pi_proposers p). length x = 32)"

lemmas max_defs = MAX_TRANSMITTERS_def MAX_EXECUTORS_def MAX_PROPOSERS_def

lemma protocol_default_wf: "protocol_wf protocol_info_default"
  by (simp add: protocol_wf_def protocol_info_default_def max_defs eth_default_def pubkey_default_def)

lemma takeWhile_subset: "x \<in> set (takeWhile P xs) \<Longrightarrow> x \<in> set xs"
  by (rule set_takeWhileD [THEN conjunct1])

interpretation tr: roster transmitters_of set_transmitters eth_default MAX_TRANSMITTERS protocol_wf
    "\<lambda>x. length x = 20"
  by unfold_locales
    (auto simp: set_transmitters_def transmitters_of_def protocol_wf_def array_simps max_defs
      eth_default_def intro: length_takeWhile_bound dest!: takeWhile_subset)

interpretation ex: roster executors_of set_executors pubkey_default MAX_EXECUTORS protocol_wf
    "\<lambda>x. length x = 32"
  by unfold_locales
    (auto simp: set_executors_def executors_of_def protocol_wf_def array_simps max_defs
      pubkey_default_def intro: length_takeWhile_bound dest!: takeWhile_subset)

interpretation pr: roster proposers_of set_proposers pubkey_default MAX_PROPOSERS protocol_wf
    "\<lambda>x. length x = 32"
  by unfold_locales
    (auto simp: set_proposers_def proposers_of_def protocol_wf_def array_simps max_defs
      pubkey_default_def intro: length_takeWhile_bound dest!: takeWhile_subset)

text \<open>Each roster write changes its own array only.\<close>

lemma set_transmitters_frame:
  "set_transmitters xs p = Inr p' \<Longrightarrow> \<exists>arr. p' = p\<lparr>pi_transmitters := arr\<rparr>"
  and set_executors_frame: "set_executors xs p = Inr p' \<Longrightarrow> \<exists>arr. p' = p\<lparr>pi_executors := arr\<rparr>"
  and set_proposers_frame: "set_proposers xs p = Inr p' \<Longrightarrow> \<exists>arr. p' = p\<lparr>pi_proposers := arr\<rparr>"
  by (auto simp: set_transmitters_def set_executors_def set_proposers_def result_simps)

lemma roster_reads_frame [simp]:
  "transmitters_of (p\<lparr>pi_executors := e\<rparr>) = transmitters_of p"
  "transmitters_of (p\<lparr>pi_proposers := e\<rparr>) = transmitters_of p"
  "executors_of (p\<lparr>pi_transmitters := e\<rparr>) = executors_of p"
  "executors_of (p\<lparr>pi_proposers := e\<rparr>) = executors_of p"
  "proposers_of (p\<lparr>pi_transmitters := e\<rparr>) = proposers_of p"
  "proposers_of (p\<lparr>pi_executors := e\<rparr>) = proposers_of p"
  by (simp_all add: transmitters_of_def executors_of_def proposers_of_def)

subsection \<open>Operation codes\<close>

lemma gov_code_inj: "gov_code a = gov_code b \<Longrightarrow> a = b"
  by (cases a; cases b) simp_all

lemma gov_try_from_iff: "gov_try_from n = Inr g \<longleftrightarrow> n = gov_code g"
proof
  assume "gov_try_from n = Inr g"
  then show "n = gov_code g"
    by (auto simp: gov_try_from_def find_Some_iff split: option.splits)
next
  assume n: "n = gov_code g"
  have "find (\<lambda>h. gov_code h = n) gov_operations = Some g"
    by (cases g) (simp_all add: n gov_operations_def)
  then show "gov_try_from n = Inr g" by (simp add: gov_try_from_def)
qed

text \<open>The four code bytes an operation is selected by, followed by any tail.\<close>

definition gov_selector :: "gov_operation \<Rightarrow> bytes" where
  "gov_selector g = be_bytes 4 (unat (gov_code g))"

lemma selector_u32_code: "selector_u32 (gov_selector g @ rest) = gov_code g"
proof -
  have "unat (gov_code g) < 256 ^ 4" using unsigned_less [of "gov_code g"] by simp
  moreover have "length (gov_selector g) = U32_SIZE" by (simp add: gov_selector_def U32_SIZE_def)
  ultimately show ?thesis
    by (simp add: selector_u32_def gov_selector_def of_be_be_bytes U32_SIZE_def)
qed

subsection \<open>Typed ABI tokens\<close>

text \<open>
  What \<^verbatim>\<open>ethabi::decode\<close> promises: the tokens have the shapes of the requested types.
\<close>

fun token_ok :: "param_type \<Rightarrow> token \<Rightarrow> bool" where
  "token_ok PT_Address (T_Address a) = (length a = 20)"
| "token_ok PT_Bytes (T_Bytes _) = True"
| "token_ok (PT_Uint _) (T_Uint _) = True"
| "token_ok (PT_FixedBytes n) (T_FixedBytes b) = (length b = n)"
| "token_ok (PT_Array t) (T_Array ts) = list_all (token_ok t) ts"
| "token_ok (PT_Tuple pts) (T_Tuple ts) = list_all2 token_ok pts ts"
| "token_ok _ _ = False"

definition abi_typed :: "(param_type list \<Rightarrow> bytes \<Rightarrow> token list option) \<Rightarrow> bool" where
  "abi_typed abi \<longleftrightarrow> (\<forall>pts data ts. abi pts data = Some ts \<longrightarrow> list_all2 token_ok pts ts)"

lemma decode_typed:
  assumes "abi_typed abi" "decode_abi_params abi data (PT_Tuple pts) = Inr ts"
  shows "list_all2 token_ok pts ts"
proof -
  from assms(2) obtain t rest where d: "abi [PT_Tuple pts] data = Some (t # rest)"
      and t: "into_tuple t = Some ts"
    by (auto simp: decode_abi_params_def ok_or_def split: list.splits option.splits)
  from assms(1) d have "token_ok (PT_Tuple pts) t"
    by (auto simp: abi_typed_def)
  with t show ?thesis by (cases t) auto
qed

lemma decode_error: "decode_abi_params abi data pt = Inl e \<Longrightarrow> e = Custom InvalidProtoMsg"
  by (auto simp: decode_abi_params_def ok_or_def split: list.splits option.splits)

lemma token_ok_cases:
  "token_ok (PT_Uint n) t \<Longrightarrow> \<exists>u. t = T_Uint u"
  "token_ok PT_Bytes t \<Longrightarrow> \<exists>b. t = T_Bytes b"
  "token_ok (PT_FixedBytes n) t \<Longrightarrow> \<exists>b. t = T_FixedBytes b \<and> length b = n"
  "token_ok PT_Address t \<Longrightarrow> \<exists>a. t = T_Address a \<and> length a = 20"
  "token_ok (PT_Array pt) t \<Longrightarrow> \<exists>ts. t = T_Array ts \<and> list_all (token_ok pt) ts"
  by (cases t; simp)+

lemma decode_pubkey:
  assumes "abi_typed abi"
    "decode_abi_params abi data (PT_Tuple [PT_FixedBytes 32, PT_Bytes]) = Inr ts"
  shows "\<exists>pid k. ts = [T_FixedBytes pid, T_Bytes k] \<and> length pid = 32"
  using decode_typed [OF assms] by (auto simp: list_all2_Cons1 dest!: token_ok_cases)

lemma addresses_typed:
  "list_all (token_ok PT_Address) ts \<Longrightarrow>
   \<exists>as. ts = List.map T_Address as \<and> (\<forall>a \<in> set as. length a = 20)"
proof (induction ts)
  case Nil
  then show ?case by simp
next
  case (Cons t ts)
  then obtain a as where "t = T_Address a" "length a = 20" "ts = List.map T_Address as"
      "\<forall>a \<in> set as. length a = 20"
    by (auto dest!: token_ok_cases)
  then show ?case by (intro exI [of _ "a # as"]) simp
qed

lemma decode_addresses:
  assumes "abi_typed abi"
    "decode_abi_params abi data (PT_Tuple [PT_FixedBytes 32, PT_Array PT_Address]) = Inr ts"
  shows "\<exists>pid as. ts = [T_FixedBytes pid, T_Array (List.map T_Address as)] \<and> length pid = 32
    \<and> (\<forall>a \<in> set as. length a = 20)"
  using decode_typed [OF assms]
  by (auto simp: list_all2_Cons1 dest!: token_ok_cases addresses_typed)

lemma decode_addresses2:
  assumes "abi_typed abi"
    "decode_abi_params abi data
       (PT_Tuple [PT_FixedBytes 32, PT_Array PT_Address, PT_Array PT_Address]) = Inr ts"
  shows "\<exists>pid as bs. ts = [T_FixedBytes pid, T_Array (List.map T_Address as),
      T_Array (List.map T_Address bs)] \<and> length pid = 32
    \<and> (\<forall>a \<in> set as. length a = 20) \<and> (\<forall>a \<in> set bs. length a = 20)"
  using decode_typed [OF assms]
  by (auto simp: list_all2_Cons1 dest!: token_ok_cases addresses_typed)

lemma decode_uint:
  assumes "abi_typed abi"
    "decode_abi_params abi data (PT_Tuple [PT_FixedBytes 32, PT_Uint 256]) = Inr ts"
  shows "\<exists>pid n. ts = [T_FixedBytes pid, T_Uint n] \<and> length pid = 32"
  using decode_typed [OF assms] by (auto simp: list_all2_Cons1 dest!: token_ok_cases)

lemma decode_allowed:
  assumes "abi_typed abi"
    "decode_abi_params abi data
       (PT_Tuple [PT_FixedBytes 32, PT_Uint 256, PT_Array PT_Address]) = Inr ts"
  shows "\<exists>pid n as. ts = [T_FixedBytes pid, T_Uint n, T_Array (List.map T_Address as)]
    \<and> length pid = 32 \<and> (\<forall>a \<in> set as. length a = 20)"
  using decode_typed [OF assms]
  by (auto simp: list_all2_Cons1 dest!: token_ok_cases addresses_typed)

lemma pubkey_param_simp [simp]:
  "pubkey_param [T_FixedBytes pid, T_Bytes k] =
     (if length k = 32 then Inr k else Inl (Custom InvalidGovMsg))"
  by (simp add: pubkey_param_def idx_def)

lemma map_filter_addresses [simp]: "List.map_filter into_address (List.map T_Address as) = as"
  by (induction as) (simp_all add: List.map_filter_simps)

lemma transmitters_to_add_simp [simp]:
  "get_transmitters_to_add (T_Array (List.map T_Address as)) = Inr (filter (\<lambda>x. x \<noteq> eth_default) as)"
  by (simp add: get_transmitters_to_add_def)

lemma mapE_addresses [simp]: "mapE (\<lambda>x. ok_or (into_address x) e) (List.map T_Address as) = Inr as"
  by (induction as) simp_all

lemma transmitters_to_remove_simp [simp]:
  "get_transmitters_to_remove (T_Array (List.map T_Address as)) = Inr as"
  by (simp add: get_transmitters_to_remove_def)

subsection \<open>The written arrays\<close>

lemma set_transmitters_eq:
  "set_transmitters xs p =
     (if length xs \<le> 20 then Inr (p\<lparr>pi_transmitters := xs @ replicate (20 - length xs) eth_default\<rparr>)
      else Inl (Panic IndexOutOfBounds))"
  by (simp add: set_transmitters_def array_simps)

lemma set_executors_eq:
  "set_executors xs p =
     (if length xs \<le> 20 then Inr (p\<lparr>pi_executors := xs @ replicate (20 - length xs) pubkey_default\<rparr>)
      else Inl (Panic IndexOutOfBounds))"
  by (simp add: set_executors_def array_simps)

lemma set_proposers_eq:
  "set_proposers xs p =
     (if length xs \<le> 20 then Inr (p\<lparr>pi_proposers := xs @ replicate (20 - length xs) pubkey_default\<rparr>)
      else Inl (Panic IndexOutOfBounds))"
  by (simp add: set_proposers_def array_simps)

lemma filter_no_dflt: "d \<notin> set xs \<Longrightarrow> d \<notin> set (filter P xs)"
  by simp

lemma remdups_adj_length_le: "length (remdups_adj xs) \<le> length xs"
  by (rule remdups_adj_length)

lemma add_transmitters_impl_eq:
  "add_transmitters_impl to_add p =
     (if length (remdups_adj (transmitters_of p @ to_add)) < 20
      then Inr (p\<lparr>pi_transmitters := remdups_adj (transmitters_of p @ to_add)
                    @ replicate (20 - length (remdups_adj (transmitters_of p @ to_add))) eth_default\<rparr>)
      else Inl (Custom MaxTransmittersExceeded))"
  by (simp add: add_transmitters_impl_def Let_def set_transmitters_eq MAX_TRANSMITTERS_def)

lemma add_transmitters_impl_wf:
  assumes "protocol_wf p" "eth_default \<notin> set to_add" "\<forall>a \<in> set to_add. length a = 20"
    and "add_transmitters_impl to_add p = Inr p'"
  shows "transmitters_of p' = remdups_adj (transmitters_of p @ to_add)"
    and "protocol_wf p'" and "length (transmitters_of p') < 20"
proof -
  let ?t = "remdups_adj (transmitters_of p @ to_add)"
  have s: "length ?t < 20" "set_transmitters ?t p = Inr p'"
    using assms(4) by (auto simp: add_transmitters_impl_def Let_def MAX_TRANSMITTERS_def split: if_splits)
  have "eth_default \<notin> set ?t" "\<forall>a \<in> set ?t. length a = 20"
    using assms(2,3) tr.read_dflt tr.read_entry [OF assms(1)] by auto
  with s tr.write_wf [OF assms(1), of ?t p'] show "transmitters_of p' = ?t" "protocol_wf p'"
      "length (transmitters_of p') < 20"
    by auto
qed

lemma remove_transmitters_impl_wf:
  assumes "protocol_wf p"
  shows "\<exists>p'. remove_transmitters_impl to_remove p = Inr p' \<and> protocol_wf p'
    \<and> transmitters_of p' = filter (\<lambda>x. x \<notin> set to_remove) (transmitters_of p)
    \<and> (\<exists>arr. p' = p\<lparr>pi_transmitters := arr\<rparr>)"
proof -
  obtain p' where "set_transmitters (filter (\<lambda>x. x \<notin> set to_remove) (transmitters_of p)) p = Inr p'"
      "transmitters_of p' = filter (\<lambda>x. x \<notin> set to_remove) (transmitters_of p)" "protocol_wf p'"
    using tr.filter_ok [OF assms] by blast
  then show ?thesis
    using set_transmitters_frame unfolding remove_transmitters_impl_def by blast
qed

lemma store_from_wf:
  assumes "store_from 0 xs arr = Some arr'" "length arr = n" "\<forall>a \<in> set arr. length a = k"
    "\<forall>a \<in> set xs. length a = k"
  shows "length arr' = n \<and> (\<forall>a \<in> set arr'. length a = k)"
  using assms by (auto simp: array_simps split: if_splits dest!: in_set_dropD)

subsection \<open>Every operation keeps the record well formed\<close>

lemma filter_dflt_add: "eth_default \<notin> set (filter (\<lambda>x. x \<noteq> eth_default) as)"
  by simp

lemma add_allowed_protocol_wf:
  assumes "abi_typed (env_abi_decode env)" "protocol_wf p"
    and "add_allowed_protocol env cd p c = Inr (p', c', ev)"
  shows "protocol_wf p'"
proof -
  from assms(3) obtain params where d: "decode_abi_params (env_abi_decode env) cd
      (PT_Tuple [PT_FixedBytes 32, PT_Uint 256, PT_Array PT_Address]) = Inr params"
    by (auto simp: add_allowed_protocol_def result_simps)
  from decode_allowed [OF assms(1) d] obtain pid n as where
    p: "params = [T_FixedBytes pid, T_Uint n, T_Array (List.map T_Address as)]"
    and as: "\<forall>a \<in> set as. length a = 20" by blast
  from assms(3) p d obtain rate arr where "store_from 0 as (pi_transmitters p) = Some arr"
      and "p' = p\<lparr>pi_is_init := True, pi_consensus_target_rate := rate, pi_transmitters := arr\<rparr>"
    by (auto simp: add_allowed_protocol_def result_simps idx_def)
  with assms(2) as store_from_wf [of as "pi_transmitters p" arr MAX_TRANSMITTERS 20] show ?thesis
    by (auto simp: protocol_wf_def)
qed

lemma add_allowed_protocol_address_wf:
  assumes "abi_typed (env_abi_decode env)" "protocol_wf p"
    and "add_allowed_protocol_address env cd p = Inr p'"
  shows "protocol_wf p'"
  using assms
  by (auto simp: add_allowed_protocol_address_def result_simps protocol_wf_def split: if_splits
      dest!: decode_pubkey)

lemma proposer_ops_wf:
  assumes a: "abi_typed (env_abi_decode env)" and w: "protocol_wf p"
  shows "add_allowed_proposer_address env cd p = Inr p' \<Longrightarrow> protocol_wf p'"
    and "remove_allowed_proposer_address env cd p = Inr p' \<Longrightarrow> protocol_wf p'"
  by (auto simp: add_allowed_proposer_address_def remove_allowed_proposer_address_def Let_def
      result_simps w split: if_splits dest!: decode_pubkey [OF a] pr.push_wf pr.filter_wf)

lemma executor_ops_wf:
  assumes a: "abi_typed (env_abi_decode env)" and w: "protocol_wf p"
  shows "add_executor env cd p = Inr p' \<Longrightarrow> protocol_wf p'"
    and "remove_executor env cd pid p = Inr p' \<Longrightarrow> protocol_wf p'"
  by (auto simp: add_executor_def remove_executor_def Let_def
      result_simps w split: if_splits dest!: decode_pubkey [OF a] ex.push_wf ex.filter_wf)

lemma remove_transmitters_impl_Inr:
  "remove_transmitters_impl to_remove p = Inr p' \<Longrightarrow> protocol_wf p \<Longrightarrow> protocol_wf p'"
  using remove_transmitters_impl_wf [of p to_remove] by auto

lemma transmitter_ops_wf:
  assumes a: "abi_typed (env_abi_decode env)" and w: "protocol_wf p"
  shows "add_transmitters env cd p = Inr p' \<Longrightarrow> protocol_wf p'"
    and "remove_transmitters env cd p = Inr p' \<Longrightarrow> protocol_wf p'"
  by (auto simp: add_transmitters_def remove_transmitters_def result_simps idx_def w
      dest!: decode_addresses [OF a] remove_transmitters_impl_Inr
      elim!: add_transmitters_impl_wf(2) [OF w, rotated 2])

lemma update_transmitters_wf:
  assumes a: "abi_typed (env_abi_decode env)" and w: "protocol_wf p"
    and u: "update_transmitters env cd p = Inr p'"
  shows "protocol_wf p'"
proof -
  from u obtain params where d: "decode_abi_params (env_abi_decode env) cd
      (PT_Tuple [PT_FixedBytes 32, PT_Array PT_Address, PT_Array PT_Address]) = Inr params"
    by (auto simp: update_transmitters_def result_simps)
  from decode_addresses2 [OF a d] obtain pid as bs where
    p: "params = [T_FixedBytes pid, T_Array (List.map T_Address as), T_Array (List.map T_Address bs)]"
    and as: "\<forall>a \<in> set as. length a = 20" by blast
  obtain p1 where p1: "(if bs \<noteq> [] then remove_transmitters_impl bs p else Inr p) = Inr p1"
      and w1: "protocol_wf p1"
    using remove_transmitters_impl_wf [OF w, of bs] w by (cases "bs = []") auto
  let ?add = "filter (\<lambda>x. x \<noteq> eth_default) as"
  from u p d p1 have r: "(if ?add \<noteq> [] then add_transmitters_impl ?add p1 else Inr p1) = Inr p'"
    by (simp add: update_transmitters_def idx_def)
  then show ?thesis
  proof (cases "?add = []")
    case False
    with r have "add_transmitters_impl ?add p1 = Inr p'" by presburger
    with add_transmitters_impl_wf(2) [OF w1 filter_dflt_add] as show ?thesis by auto
  qed (use r w1 in auto)
qed

lemma set_consensus_target_rate_wf:
  "protocol_wf p \<Longrightarrow> set_consensus_target_rate env cd p = Inr p' \<Longrightarrow> protocol_wf p'"
  by (auto simp: set_consensus_target_rate_def result_simps protocol_wf_def)

lemma remove_allowed_protocol_address_wf:
  "protocol_wf p \<Longrightarrow> protocol_wf (remove_allowed_protocol_address p)"
  by (simp add: remove_allowed_protocol_address_def protocol_wf_def pubkey_default_def)

lemmas gov_op_wf = add_allowed_protocol_wf add_allowed_protocol_address_wf proposer_ops_wf
  executor_ops_wf transmitter_ops_wf update_transmitters_wf set_consensus_target_rate_wf
  remove_allowed_protocol_address_wf

lemma gov_dispatch_wf:
  assumes "abi_typed (env_abi_decode env)" "protocol_wf p"
    and "gov_dispatch env g c p d = Inr (c', p', evs)"
  shows "protocol_wf p'"
  using assms by (cases g) (auto simp: gov_dispatch_def result_simps intro: gov_op_wf)

lemma sample_token_ok: "token_ok t (sample_token data t)"
proof (induction data t rule: sample_token.induct)
  case (6 data ts)
  then show ?case by (simp add: list_all2_conv_all_nth)
qed simp_all

lemma sample_abi_typed: "abi_typed (env_abi_decode sample_env)"
  by (auto simp: abi_typed_def list_all2_conv_all_nth sample_token_ok)

lemma length_gov_selector [simp]: "length (gov_selector g) = 4"
  by (simp add: gov_selector_def)

lemma handle_gov_selector:
  "handle_gov_operation env c p (gov_selector g @ rest) d = gov_dispatch env g c p d"
  by (simp add: handle_gov_operation_def U32_SIZE_def selector_u32_code
      gov_try_from_iff [THEN iffD2] require_ok_def)

lemma handle_gov_no_tail:
  "handle_gov_operation env c p (gov_selector g) d = gov_dispatch env g c p d"
  using handle_gov_selector [of env c p g "[]"] by simp

lemma decode_sample [simp]:
  "decode_abi_params (env_abi_decode sample_env) data (PT_Tuple pts) =
     Inr (List.map (sample_token data) pts)"
  by (simp add: decode_abi_params_def)

lemma sample_add_executor:
  "handle_gov_operation sample_env config_default protocol_info_default (gov_selector AddExecutor)
     (op_data_zeroed\<lparr>od_params := replicate 32 5\<rparr>) =
   Inr (config_default, protocol_info_default\<lparr>pi_executors :=
     replicate 32 5 # replicate 19 pubkey_default\<rparr>, [])"
  by (simp add: handle_gov_no_tail gov_dispatch_def add_executor_def pubkey_default_def
      executors_of_def protocol_info_default_def MAX_EXECUTORS_def set_executors_eq)

lemma handle_gov_effect:
  assumes "handle_gov_operation env c p code d = Inr (c', p', evs)"
  shows "(c' = c \<and> evs = [])
    \<or> (unat (conf_nonce c) + 1 < 2 ^ 64 \<and> c' = c\<lparr>conf_nonce := conf_nonce c + 1\<rparr>
       \<and> (\<exists>pe. evs = [ProposeEvent pe] \<and> pe_nonce pe = conf_nonce c))"
proof -
  from assms obtain g where g: "gov_dispatch env g c p d = Inr (c', p', evs)"
    by (auto simp: handle_gov_operation_def result_simps split: if_splits)
  then show ?thesis
    by (cases g) (auto simp: gov_dispatch_def result_simps add_allowed_protocol_def
        propose_handle_add_allowed_protocol_def checked_add_Some_iff)
qed

lemma handle_gov_wf:
  assumes "abi_typed (env_abi_decode env)" "protocol_wf p"
    and "handle_gov_operation env c p code d = Inr (c', p', evs)"
  shows "protocol_wf p'"
  using assms by (auto simp: handle_gov_operation_def result_simps intro: gov_dispatch_wf split: if_splits)

subsection \<open>Properties\<close>

text \<open>C10: A governance operation that succeeds leaves the target record well formed (each roster array
  keeps its 20 slots and its entry width), changes the config's nonce only, by the number of
  events it emits, and every event is a proposal under the nonce it consumed.\<close>

theorem handle_gov_operation_invariant:
  assumes "abi_typed (env_abi_decode env)" "protocol_wf p"
    and "handle_gov_operation env c p code d = Inr (c', p', evs)"
  shows "protocol_wf p' \<and> c' = c\<lparr>conf_nonce := conf_nonce c'\<rparr>
    \<and> unat (conf_nonce c') = unat (conf_nonce c) + length evs
    \<and> (\<forall>ev \<in> set evs. \<exists>pe. ev = ProposeEvent pe \<and> pe_nonce pe = conf_nonce c)"
  using handle_gov_wf [OF assms] handle_gov_effect [OF assms(3)]
    unat_inc [of "conf_nonce c"]
  by auto

theorem handle_gov_operation_invariant_witness:
  "protocol_wf (protocol_info_default\<lparr>pi_executors := replicate 32 5 # replicate 19 pubkey_default\<rparr>)"
  using handle_gov_operation_invariant
    [OF sample_abi_typed protocol_default_wf sample_add_executor] by (rule conjunct1)

text \<open>\<^verbatim>\<open>add_executor\<close> on every branch: a key that has not 32 bytes, the default key, a registered
  executor and a full roster are rejected with their own errors; otherwise the new roster is the
  old one with the key at the end, the unused slots are default, and nothing else changes.\<close>

theorem add_executor_correct:
  assumes "protocol_wf p"
    and "decode_abi_params (env_abi_decode env) cd (PT_Tuple [PT_FixedBytes 32, PT_Bytes]) =
           Inr [T_FixedBytes pid, T_Bytes k]"
  shows "add_executor env cd p =
    (if length k \<noteq> 32 then Inl (Custom InvalidGovMsg)
     else if k = pubkey_default then Inl (Custom InvalidExecutorAddress)
     else if k \<in> set (executors_of p) then Inl (Custom ExecutorIsAlreadyAllowed)
     else if length (executors_of p) = 20 then Inl (Custom MaxExecutorsExceeded)
     else Inr (p\<lparr>pi_executors :=
       executors_of p @ [k] @ replicate (19 - length (executors_of p)) pubkey_default\<rparr>))"
  using assms ex.read_cap [OF assms(1)]
  by (simp add: add_executor_def Let_def set_executors_eq MAX_EXECUTORS_def)

theorem add_executor_correct_witness:
  "add_executor sample_env (replicate 32 5) protocol_info_default =
     Inr (protocol_info_default\<lparr>pi_executors := replicate 32 5 # replicate 19 pubkey_default\<rparr>)"
  using add_executor_correct [OF protocol_default_wf, of sample_env "replicate 32 5"
      "replicate 32 5" "replicate 32 5"]
  by (simp add: pad_def executors_of_def protocol_info_default_def pubkey_default_def)

text \<open>\<^verbatim>\<open>remove_executor\<close> filters the key out of the target's roster, except that an operation of the
  governance protocol may not empty a roster. The guard tests the protocol of the operation, not
  the target, and every governance operation carries the governance protocol's id: so the last
  executor of any protocol is kept, not only the governance protocol's.\<close>

theorem remove_executor_correct:
  assumes "protocol_wf p"
    and "decode_abi_params (env_abi_decode env) cd (PT_Tuple [PT_FixedBytes 32, PT_Bytes]) =
           Inr [T_FixedBytes pid, T_Bytes k]" and "length k = 32"
  shows "remove_executor env cd op_protocol p =
    (if set (executors_of p) \<subseteq> {k} \<and> op_protocol = GOV_PROTOCOL_ID
     then Inl (Custom TryingToRemoveLastGovExecutor)
     else Inr (p\<lparr>pi_executors := filter (\<lambda>x. x \<noteq> k) (executors_of p)
       @ replicate (20 - length (filter (\<lambda>x. x \<noteq> k) (executors_of p))) pubkey_default\<rparr>))"
proof -
  have "length (filter (\<lambda>x. x \<noteq> k) (executors_of p)) \<le> 20"
    using ex.read_cap [OF assms(1)] length_filter_le [of "\<lambda>x. x \<noteq> k" "executors_of p"]
    by (simp only: MAX_EXECUTORS_def)
  moreover have "filter (\<lambda>x. x \<noteq> k) (executors_of p) = [] \<longleftrightarrow> set (executors_of p) \<subseteq> {k}"
    by (auto simp: filter_empty_conv)
  ultimately show ?thesis
    using assms(2,3) by (simp add: remove_executor_def Let_def set_executors_eq)
qed

theorem remove_executor_correct_witness:
  "remove_executor sample_env (replicate 32 5) GOV_PROTOCOL_ID
     (protocol_info_default\<lparr>pi_executors := replicate 32 5 # replicate 19 pubkey_default\<rparr>) =
   Inl (Custom TryingToRemoveLastGovExecutor)"
  using remove_executor_correct [of "protocol_info_default\<lparr>pi_executors := replicate 32 5 #
      replicate 19 pubkey_default\<rparr>" sample_env "replicate 32 5" "replicate 32 5" "replicate 32 5"
      GOV_PROTOCOL_ID]
  by (simp add: pad_def executors_of_def protocol_info_default_def pubkey_default_def
      protocol_wf_def max_defs eth_default_def)

text \<open>C11: \<^verbatim>\<open>update_transmitters\<close> first removes, then adds: the new roster is the old one without the
  removed addresses, followed by the non-default added ones, consecutive repetitions merged. It
  fails, changing nothing, when an addition would leave 20 or more transmitters, so a roster never
  reaches the 20 slots the array has; it never panics.\<close>

theorem update_transmitters_correct:
  fixes as bs
  defines "kept p \<equiv> filter (\<lambda>x. x \<notin> set bs) (transmitters_of p)"
    and "added \<equiv> filter (\<lambda>x. x \<noteq> eth_default) as"
  assumes w: "protocol_wf p"
    and d: "decode_abi_params (env_abi_decode env) cd
           (PT_Tuple [PT_FixedBytes 32, PT_Array PT_Address, PT_Array PT_Address]) =
         Inr [T_FixedBytes pid, T_Array (List.map T_Address as), T_Array (List.map T_Address bs)]"
    and as: "\<forall>a \<in> set as. length a = 20"
  shows "case update_transmitters env cd p of
      Inl e \<Rightarrow> e = Custom MaxTransmittersExceeded \<and> added \<noteq> []
        \<and> 20 \<le> length (remdups_adj (kept p @ added))
    | Inr p' \<Rightarrow> transmitters_of p' = (if added = [] then kept p else remdups_adj (kept p @ added))
        \<and> (added \<noteq> [] \<longrightarrow> length (transmitters_of p') < 20)
        \<and> (\<exists>arr. p' = p\<lparr>pi_transmitters := arr\<rparr>)"
proof -
  obtain p1 where p1: "(if bs \<noteq> [] then remove_transmitters_impl bs p else Inr p) = Inr p1"
      and w1: "protocol_wf p1" and t1: "transmitters_of p1 = kept p"
      and f1: "\<exists>arr. p1 = p\<lparr>pi_transmitters := arr\<rparr>"
  proof (cases "bs = []")
    case True
    show ?thesis
      by (rule that [of p, OF _ w _ exI [of _ "pi_transmitters p"]])
        (use True in \<open>simp_all add: kept_def\<close>)
  next
    case False
    then show ?thesis using that remove_transmitters_impl_wf [OF w, of bs] by (auto simp: kept_def)
  qed
  have u: "update_transmitters env cd p =
      (if added \<noteq> [] then add_transmitters_impl added p1 else Inr p1)"
    using d p1 by (simp add: update_transmitters_def idx_def added_def)
  show ?thesis
  proof (cases "added = []")
    case True
    with u t1 f1 show ?thesis by simp
  next
    case False
    note add = add_transmitters_impl_wf [OF w1, of added]
    have ok: "eth_default \<notin> set added" "\<forall>a \<in> set added. length a = 20"
      using as by (auto simp: added_def)
    show ?thesis
    proof (cases "add_transmitters_impl added p1")
      case (Inl e)
      with False u t1 show ?thesis by (auto simp: add_transmitters_impl_eq split: if_splits)
    next
      case (Inr p2)
      then have "\<exists>arr. p2 = p1\<lparr>pi_transmitters := arr\<rparr>"
        by (auto simp: add_transmitters_impl_eq split: if_splits)
      with Inr False u f1 t1 add(1,3) [OF ok Inr] show ?thesis by auto
    qed
  qed
qed

theorem update_transmitters_correct_witness:
  "case update_transmitters sample_env (replicate 20 5) protocol_info_default of
     Inl e \<Rightarrow> False | Inr p' \<Rightarrow> transmitters_of p' = [replicate 20 5]"
proof -
  have d: "decode_abi_params (env_abi_decode sample_env) (replicate 20 5)
        (PT_Tuple [PT_FixedBytes 32, PT_Array PT_Address, PT_Array PT_Address]) =
      Inr [T_FixedBytes (replicate 20 5 @ replicate 12 0),
        T_Array (List.map T_Address [replicate 20 5]), T_Array (List.map T_Address [replicate 20 5])]"
    by (simp add: pad_def)
  have t: "transmitters_of protocol_info_default = []"
    by (simp add: transmitters_of_def protocol_info_default_def)
  show ?thesis
    using update_transmitters_correct [OF protocol_default_wf d]
    by (simp add: t eth_default_def split: sum.splits)
qed

text \<open>\<^verbatim>\<open>add_transmitters\<close> does not keep a roster free of duplicates: \<^verbatim>\<open>dedup\<close> merges neighbours only, so
  adding a transmitter that is already registered, but not last, registers it twice. The roster's
  length, the divisor of the consensus rate, grows although no new signer exists.\<close>

theorem add_transmitters_duplicates:
  assumes "protocol_wf p" "transmitters_of p = [a, b]" "a \<noteq> b"
  shows "\<exists>p'. add_transmitters_impl [a] p = Inr p' \<and> transmitters_of p' = [a, b, a]"
proof -
  have a: "a \<noteq> eth_default" "length a = 20"
    using tr.read_dflt [of p] tr.read_entry [OF assms(1), of a] assms(2) by auto
  have e: "add_transmitters_impl [a] p =
      Inr (p\<lparr>pi_transmitters := [a, b, a] @ replicate 17 eth_default\<rparr>)" (is "_ = Inr ?p")
    using assms(2,3) by (simp add: add_transmitters_impl_eq)
  show ?thesis
    using e add_transmitters_impl_wf(1) [OF assms(1) _ _ e] a assms(2,3) by simp
qed

theorem add_transmitters_duplicates_witness:
  "\<exists>p'. add_transmitters_impl [replicate 20 1]
      (protocol_info_default\<lparr>pi_transmitters :=
         [replicate 20 1, replicate 20 2] @ replicate 18 eth_default\<rparr>) = Inr p'
    \<and> transmitters_of p' = [replicate 20 1, replicate 20 2, replicate 20 1]"
  by (rule add_transmitters_duplicates)
    (simp_all add: protocol_wf_def protocol_info_default_def max_defs eth_default_def
      pubkey_default_def transmitters_of_def)

text \<open>\<^verbatim>\<open>add_allowed_protocol\<close> accepts exactly the rates 1 to 10000 (a rate of 2^64 or more and a
  list of more than 20 transmitters panic), stores the rate, marks the record initialised, and
  writes the transmitters over the front of the existing array without clearing it: entries of an
  earlier registration beyond the new list stay, and count as transmitters.\<close>

theorem add_allowed_protocol_correct:
  assumes "protocol_wf p"
    and d: "decode_abi_params (env_abi_decode env) cd
           (PT_Tuple [PT_FixedBytes 32, PT_Uint 256, PT_Array PT_Address]) =
         Inr [T_FixedBytes pid, T_Uint n, T_Array (List.map T_Address as)]"
  shows "case add_allowed_protocol env cd p c of
      Inr (p', c', ev) \<Rightarrow>
        1 \<le> unat n \<and> unat n \<le> 10000 \<and> length as \<le> 20 \<and> unat (conf_nonce c) + 1 < 2 ^ 64
        \<and> pi_is_init p' \<and> unat (pi_consensus_target_rate p') = unat n
        \<and> pi_transmitters p' = as @ drop (length as) (pi_transmitters p)
        \<and> executors_of p' = executors_of p \<and> proposers_of p' = proposers_of p
        \<and> conf_nonce c' = conf_nonce c + 1
    | Inl e \<Rightarrow>
        e = (if 2 ^ 64 \<le> unat n then Panic ArithmeticOverflow
             else if unat n = 0 then Custom ConsensusTargetRateTooLow
             else if 10000 < unat n then Custom ConsensusTargetRateTooHigh
             else if 20 < length as then Panic IndexOutOfBounds
             else Panic ArithmeticOverflow)
        \<and> (1 \<le> unat n \<and> unat n \<le> 10000 \<and> length as \<le> 20 \<longrightarrow> unat (conf_nonce c) + 1 = 2 ^ 64)"
proof -
  have r: "unat (ucast n :: u64) = unat n" if "unat n < 2 ^ 64"
    using that unat_of_nat [of "unat n", where ?'a = 64] by simp
  have l: "length (pi_transmitters p) = 20" using assms(1) by (simp add: protocol_wf_def max_defs)
  have o: "unat (conf_nonce c) < 2 ^ 64" using unsigned_less [of "conf_nonce c"] by simp
  show ?thesis
    using d r l o
    by (simp add: add_allowed_protocol_def idx_def as_u64_def check_consensus_target_rate_def
        RATE_DECIMALS_def array_simps propose_handle_add_allowed_protocol_def checked_add_def
        executors_of_def proposers_of_def)
qed

theorem add_allowed_protocol_correct_witness:
  "case add_allowed_protocol sample_env [] protocol_info_default config_default of
     Inr (p', c', ev) \<Rightarrow> unat (pi_consensus_target_rate p') = 6000 | Inl e \<Rightarrow> False"
proof -
  have d: "decode_abi_params (env_abi_decode sample_env) []
        (PT_Tuple [PT_FixedBytes 32, PT_Uint 256, PT_Array PT_Address]) =
      Inr [T_FixedBytes (pad 32 []), T_Uint 6000, T_Array (List.map T_Address [pad 20 []])]"
    by simp
  show ?thesis
    using add_allowed_protocol_correct [OF protocol_default_wf d, of config_default]
    by (auto simp: config_default_def split: sum.splits)
qed

lemma selector_u32_eq:
  assumes "4 \<le> length code"
  shows "selector_u32 code = gov_code g \<longleftrightarrow> take 4 code = gov_selector g"
proof
  assume "take 4 code = gov_selector g"
  then show "selector_u32 code = gov_code g"
    using selector_u32_code [of g "[]"] by (simp add: selector_u32_def U32_SIZE_def gov_selector_def)
next
  assume s: "selector_u32 code = gov_code g"
  have "of_be_bytes (take 4 code) < 256 ^ 4"
    using of_be_bytes_bound [of "take 4 code"] assms by simp
  then have "unat (selector_u32 code) = of_be_bytes (take 4 code)"
    by (simp add: selector_u32_def U32_SIZE_def unat_of_nat)
  with s be_of_be_bytes [of "take 4 code"] assms show "take 4 code = gov_selector g"
    by (simp add: gov_selector_def)
qed

lemma gov_selector_inj: "gov_selector a = gov_selector b \<Longrightarrow> a = b"
  using selector_u32_code [of a "[]"] selector_u32_code [of b "[]"] by (auto intro: gov_code_inj)

lemma gov_operations_UNIV: "g \<in> set gov_operations"
  by (cases g) (simp_all add: gov_operations_def)

text \<open>The first four bytes of the code select the operation: for each of the eleven operations its
  own selector bytes, and only those, run it on the target record; a code shorter than four bytes
  or with any other prefix is \<^verbatim>\<open>InvalidMethodSelector\<close>.\<close>

theorem gov_selector_dispatch:
  "handle_gov_operation env c p code d =
     (case find (\<lambda>g. take 4 code = gov_selector g) gov_operations of
        Some g \<Rightarrow> gov_dispatch env g c p d
      | None \<Rightarrow> Inl (Custom InvalidMethodSelector))"
proof (cases "find (\<lambda>g. take 4 code = gov_selector g) gov_operations")
  case None
  then have no: "take 4 code \<noteq> gov_selector g" for g
    using gov_operations_UNIV by (auto simp: find_None_iff)
  show ?thesis
  proof (cases "4 \<le> length code")
    case True
    with no have "selector_u32 code \<noteq> gov_code g" for g using selector_u32_eq by blast
    then have "find (\<lambda>g. gov_code g = selector_u32 code) gov_operations = None"
      unfolding find_None_iff by metis
    then have "gov_try_from (selector_u32 code) = Inl (selector_u32 code)"
      by (simp add: gov_try_from_def)
    with None True show ?thesis
      by (simp add: handle_gov_operation_def require_ok_def U32_SIZE_def)
  next
    case False
    then show ?thesis by (subst None) (simp add: handle_gov_operation_def U32_SIZE_def)
  qed
next
  case (Some g)
  then have t: "take 4 code = gov_selector g" by (auto simp: find_Some_iff)
  then have "code = gov_selector g @ drop 4 code" by (metis append_take_drop_id)
  with Some handle_gov_selector [of env c p g "drop 4 code" d] show ?thesis by simp
qed

lemma no_panic_pubkey: "pubkey_param [T_FixedBytes pid, T_Bytes k] \<noteq> Inl (Panic x)"
  by simp

lemma set_executors_no_panic:
  "length xs \<le> 20 \<Longrightarrow> set_executors xs p \<noteq> Inl e" "length xs \<le> 20 \<Longrightarrow> set_proposers xs p \<noteq> Inl e"
  by (simp_all add: set_executors_eq set_proposers_eq)

lemma filter_roster_bound:
  assumes "protocol_wf p"
  shows "length (filter P (executors_of p)) \<le> 20" "length (filter P (proposers_of p)) \<le> 20"
  using ex.read_cap [OF assms] pr.read_cap [OF assms]
    length_filter_le [of P "executors_of p"] length_filter_le [of P "proposers_of p"]
  by (simp_all only: max_defs)

lemma executor_ops_no_panic:
  assumes a: "abi_typed (env_abi_decode env)" and w: "protocol_wf p"
  shows "add_executor env cd p \<noteq> Inl (Panic x)" "remove_executor env cd q p \<noteq> Inl (Panic x)"
    "add_allowed_proposer_address env cd p \<noteq> Inl (Panic x)"
    "remove_allowed_proposer_address env cd p \<noteq> Inl (Panic x)"
  using filter_roster_bound [OF w]
  by (auto simp: add_executor_def remove_executor_def add_allowed_proposer_address_def
      remove_allowed_proposer_address_def result_simps Let_def max_defs set_executors_eq
      set_proposers_eq dest!: decode_pubkey [OF a] dest: decode_error split: if_splits)

lemma remove_transmitters_impl_ok:
  "protocol_wf p \<Longrightarrow> remove_transmitters_impl to_remove p \<noteq> Inl e"
  using remove_transmitters_impl_wf [of p to_remove] by auto

lemma transmitter_ops_no_panic:
  assumes a: "abi_typed (env_abi_decode env)" and w: "protocol_wf p"
  shows "add_transmitters env cd p \<noteq> Inl (Panic x)" "remove_transmitters env cd p \<noteq> Inl (Panic x)"
    "update_transmitters env cd p \<noteq> Inl (Panic x)"
  by (auto simp: add_transmitters_def remove_transmitters_def update_transmitters_def result_simps
      idx_def add_transmitters_impl_eq remove_transmitters_impl_ok [OF w]
      dest!: decode_addresses [OF a] decode_addresses2 [OF a] dest: decode_error split: if_splits)

text \<open>On a well-formed record no governance operation panics, except the two that read a rate:
  every other failure is a named error. \<^verbatim>\<open>set_consensus_target_rate\<close> panics exactly when the decoded
  rate needs more than 64 bits.\<close>

theorem set_rate_panics_only:
  assumes a: "abi_typed (env_abi_decode env)" and w: "protocol_wf p"
    and g: "g \<noteq> AddAllowedProtocol"
    and r: "gov_dispatch env g c p d = Inl (Panic x)"
  shows "g = SetConsensusTargetRate \<and> (\<exists>pid n. decode_abi_params (env_abi_decode env) (od_params d)
    (abi_decode_scheme g) = Inr [T_FixedBytes pid, T_Uint n] \<and> 2 ^ 64 \<le> unat n)"
proof (cases "g = SetConsensusTargetRate")
  case True
  let ?dec = "decode_abi_params (env_abi_decode env) (od_params d)
    (PT_Tuple [PT_FixedBytes 32, PT_Uint 256])"
  show ?thesis
  proof (cases ?dec)
    case (Inl e)
    with True r decode_error [OF Inl] show ?thesis
      by (simp add: gov_dispatch_def set_consensus_target_rate_def)
  next
    case (Inr ts)
    with decode_uint [OF a] obtain pid n where ts: "?dec = Inr [T_FixedBytes pid, T_Uint n]" by blast
    with True r have "2 ^ 64 \<le> unat n"
      by (auto simp: gov_dispatch_def set_consensus_target_rate_def idx_def as_u64_def
          check_consensus_target_rate_def split: if_splits)
    with True ts show ?thesis by simp
  qed
next
  case False
  with g r executor_ops_no_panic [OF a w] transmitter_ops_no_panic [OF a w] show ?thesis
    by (cases g) (auto simp: gov_dispatch_def result_simps add_allowed_protocol_address_def
        dest!: decode_pubkey [OF a] dest: decode_error split: if_splits)
qed

theorem set_rate_panics_only_witness:
  "\<nexists>x. gov_dispatch sample_env AddExecutor config_default protocol_info_default op_data_zeroed =
     Inl (Panic x)"
  using set_rate_panics_only [OF sample_abi_typed protocol_default_wf, of AddExecutor
      config_default op_data_zeroed] by auto

end
