(* ===== verification/Endpoint.thy ===== *)
theory Endpoint
  imports Gov
begin

section \<open>Instruction handlers of the endpoint program\<close>

text \<open>
  \<^verbatim>\<open>programs/entangle-photon-sol/src/lib.rs\<close>: for every instruction its accounts record, the
  checks its \<^verbatim>\<open>#[derive(Accounts)]\<close> struct makes (an \<open>_accounts\<close> definition), and the handler.
  The account checks follow anchor's three phases: the fields that are not created are read in
  declaration order (a \<^verbatim>\<open>Signer\<close> must have signed, an \<^verbatim>\<open>Account\<close> must exist with its type), then
  the \<^verbatim>\<open>init\<close> fields are created, then the remaining constraints are tested field by field. A
  handler returns the world after its accounts are written back, or the error that aborts the
  transaction. \<open>call\<close> and \<open>exec_call\<close> are the program's instruction dispatch.
\<close>

subsection \<open>initialize\<close>

record initialize_accs =
  in_admin :: account_info
  in_protocol_info :: account_info
  in_config :: account_info
  in_system_program :: account_info

definition initialize_accounts ::
    "'x env \<Rightarrow> initialize_accs \<Rightarrow> 'x world \<Rightarrow> err + 'x world \<times> protocol_info \<times> config" where
  "initialize_accounts env a w =
     bindE (check_signer (in_admin a)) (\<lambda>_.
     bindE (check_program (env_system_program env) (in_system_program a)) (\<lambda>_.
     bindE (check_seeds env [ROOT, str ''PROTOCOL'', gov_protocol_id] (in_protocol_info a)) (\<lambda>_.
     bindE (init_if_needed env (in_admin a) (in_protocol_info a) ProtocolInfo_LEN
              (AProtocol protocol_info_default) w) (\<lambda>w1.
     bindE (load_protocol w1 (in_protocol_info a)) (\<lambda>p.
     bindE (check_seeds env [ROOT, str ''CONFIG''] (in_config a)) (\<lambda>_.
     bindE (init_if_needed env (in_admin a) (in_config a) Config_LEN
              (AConfig config_default) w1) (\<lambda>w2.
     bindE (load_config w2 (in_config a)) (\<lambda>c.
     bindE (check_mut (in_admin a)) (\<lambda>_.
     bindE (require (ai_key (in_admin a) = conf_admin c \<or> ai_key (in_admin a) = env_deployer env)
              (Custom IsNotAdmin)) (\<lambda>_.
     Inr (w2, p, c)))))))))))"

definition initialize ::
    "'x env \<Rightarrow> initialize_accs \<Rightarrow> u64 \<Rightarrow> bytes \<Rightarrow> u64 \<Rightarrow> bytes list \<Rightarrow> bytes list
     \<Rightarrow> 'x world \<Rightarrow> err + 'x world" where
  "initialize env a eob_chain_id eob_master rate gov_transmitters gov_executors w =
     bindE (initialize_accounts env a w) (\<lambda>(w', p, c).
     bindE (require (length eob_master = 32) (Anchor RequireEqViolated)) (\<lambda>_.
     let c' = c\<lparr>conf_admin := ai_key (in_admin a), conf_eob_chain_id := eob_chain_id,
                conf_eob_master := eob_master\<rparr>;
         p1 = p\<lparr>pi_is_init := True, pi_protocol_address := env_photon_id env,
                pi_consensus_target_rate := rate\<rparr>
     in bindE (set_transmitters gov_transmitters p1) (\<lambda>p2.
        bindE (set_executors gov_executors p2) (\<lambda>p3.
        Inr (store (in_config a) (AConfig c') (store (in_protocol_info a) (AProtocol p3) w'))))))"

subsection \<open>load_operation\<close>

record load_accs =
  lo_executor :: account_info
  lo_protocol_info :: account_info
  lo_op_info :: account_info
  lo_config :: account_info
  lo_system_program :: account_info

definition load_operation_accounts ::
    "'x env \<Rightarrow> load_accs \<Rightarrow> operation_data \<Rightarrow> bytes \<Rightarrow> 'x world
     \<Rightarrow> err + 'x world \<times> protocol_info \<times> op_info" where
  "load_operation_accounts env a d op_hash_cached w =
     bindE (check_signer (lo_executor a)) (\<lambda>_.
     bindE (load_protocol w (lo_protocol_info a)) (\<lambda>p.
     bindE (load_config w (lo_config a)) (\<lambda>c.
     bindE (check_program (env_system_program env) (lo_system_program a)) (\<lambda>_.
     bindE (check_seeds env [ROOT, str ''OP'', op_hash_cached] (lo_op_info a)) (\<lambda>_.
     bindE (init_account env (lo_executor a) (lo_op_info a) (OpInfo_len (env_borsh_op env) d)
              (AOp op_info_zeroed) w) (\<lambda>w1.
     bindE (load_op w1 (lo_op_info a)) (\<lambda>x.
     bindE (require (oi_status x = StNone) (Custom OpStateInvalid)) (\<lambda>_.
     bindE (check_mut (lo_executor a)) (\<lambda>_.
     bindE (require (ai_key (lo_executor a) \<in> set (pi_executors p)) (Custom ExecutorIsNotAllowed)) (\<lambda>_.
     bindE (check_seeds env [ROOT, str ''PROTOCOL'', od_protocol_id d] (lo_protocol_info a)) (\<lambda>_.
     bindE (check_seeds env [ROOT, str ''CONFIG''] (lo_config a)) (\<lambda>_.
     bindE (check_mut (lo_config a)) (\<lambda>_.
     Inr (w1, p, x))))))))))))))"

definition load_operation ::
    "'x env \<Rightarrow> load_accs \<Rightarrow> operation_data \<Rightarrow> bytes \<Rightarrow> 'x world \<Rightarrow> err + 'x world" where
  "load_operation env a d op_hash_cached w =
     bindE (load_operation_accounts env a d op_hash_cached w) (\<lambda>(w', p, x).
     bindE (op_hash_with_message (env_keccak env) d) (\<lambda>h.
     bindE (require (h = op_hash_cached) (Custom CachedOpHashMismatch)) (\<lambda>_.
     bindE (require (od_dest_chain_id d = SOLANA_CHAIN_ID (env_network env))
              (Custom OpIsNotForThisChain)) (\<lambda>_.
     bindE (require (pi_protocol_address p = od_protocol_addr d) (Custom ProtocolAddressMismatch)) (\<lambda>_.
     bindE (require (od_protocol_id d \<noteq> replicate 32 0 \<and> length (od_protocol_id d) = 32)
              (Custom InvalidOpData)) (\<lambda>_.
     Inr (store (lo_op_info a) (AOp (x\<lparr>oi_op_data := d, oi_status := StInit\<rparr>))
            (emit (ProposalLoaded h (ai_key (lo_executor a))) w'))))))))"

subsection \<open>sign_operation\<close>

record sign_accs =
  sg_executor :: account_info
  sg_op_info :: account_info
  sg_protocol_info :: account_info

definition sign_operation_accounts ::
    "'x env \<Rightarrow> sign_accs \<Rightarrow> bytes \<Rightarrow> 'x world \<Rightarrow> err + op_info \<times> protocol_info" where
  "sign_operation_accounts env a h w =
     bindE (check_signer (sg_executor a)) (\<lambda>_.
     bindE (load_op w (sg_op_info a)) (\<lambda>x.
     bindE (load_protocol w (sg_protocol_info a)) (\<lambda>p.
     bindE (check_mut (sg_executor a)) (\<lambda>_.
     bindE (require (ai_key (sg_executor a) \<in> set (pi_executors p)) (Custom ExecutorIsNotAllowed)) (\<lambda>_.
     bindE (check_seeds env [ROOT, str ''OP'', h] (sg_op_info a)) (\<lambda>_.
     bindE (check_mut (sg_op_info a)) (\<lambda>_.
     bindE (require (oi_status x = StInit \<or> oi_status x = StSigned) (Custom OpStateInvalid)) (\<lambda>_.
     bindE (check_seeds env [ROOT, str ''PROTOCOL'', od_protocol_id (oi_op_data x)]
              (sg_protocol_info a)) (\<lambda>_.
     Inr (x, p))))))))))"

text \<open>
  \<open>(signers * RATE_DECIMALS) / transmitters\<close>, in \<^verbatim>\<open>u64\<close>: with at most 36 signers the product
  cannot overflow.
\<close>

definition consensus_rate :: "nat \<Rightarrow> nat \<Rightarrow> nat" where
  "consensus_rate signers transmitters = signers * RATE_DECIMALS div transmitters"

text \<open>The loop over the signatures: the new signers, and whether consensus was reached.\<close>

fun sign_loop ::
    "'x env \<Rightarrow> bytes list \<Rightarrow> u64 \<Rightarrow> bytes \<Rightarrow> transmitter_signature list \<Rightarrow> bytes list
     \<Rightarrow> err + bytes list \<times> bool" where
  "sign_loop env allowed target h [] unique = Inr (unique, False)"
| "sign_loop env allowed target h (sig # sigs) unique =
     bindE (ecrecover (env_keccak env) (env_recover env) h sig) (\<lambda>transmitter.
     if transmitter \<in> set allowed \<and> transmitter \<notin> set unique then
       let unique' = unique @ [transmitter]
       in if consensus_rate (length unique') (length allowed) \<ge> unat target then Inr (unique', True)
          else sign_loop env allowed target h sigs unique'
     else sign_loop env allowed target h sigs unique)"

definition sign_operation ::
    "'x env \<Rightarrow> sign_accs \<Rightarrow> bytes \<Rightarrow> transmitter_signature list \<Rightarrow> 'x world
     \<Rightarrow> err + 'x world \<times> bool" where
  "sign_operation env a h sigs w =
     bindE (sign_operation_accounts env a h w) (\<lambda>(x, p).
     let allowed = transmitters_of p;
         unique = filter (\<lambda>k. k \<noteq> eth_default) (oi_unique_signers x)
     in bindE (require (length allowed > 0) (Custom NoTransmittersAllowed)) (\<lambda>_.
        if consensus_rate (length unique) (length allowed) \<ge> unat (pi_consensus_target_rate p)
        then Inr (w, True)
        else
          bindE (sign_loop env allowed (pi_consensus_target_rate p) h sigs unique) (\<lambda>(unique', reached).
          bindE (ok_or (store_from 0 unique' (replicate 16 eth_default)) (Panic IndexOutOfBounds)) (\<lambda>arr.
          let x' = x\<lparr>oi_unique_signers := arr,
                     oi_status := (if reached then StSigned else oi_status x)\<rparr>;
              w1 = (if reached then emit (ProposalApproved h (ai_key (sg_executor a))) w else w)
          in Inr (store (sg_op_info a) (AOp x') w1, reached)))))"

subsection \<open>execute_operation\<close>

record execute_accs =
  ec_executor :: account_info
  ec_op_info :: account_info
  ec_protocol_info :: account_info
  ec_call_authority :: account_info

definition execute_operation_accounts ::
    "'x env \<Rightarrow> execute_accs \<Rightarrow> bytes \<Rightarrow> 'x world \<Rightarrow> err + op_info \<times> u8" where
  "execute_operation_accounts env a h w =
     bindE (check_signer (ec_executor a)) (\<lambda>_.
     bindE (load_op w (ec_op_info a)) (\<lambda>x.
     bindE (load_protocol w (ec_protocol_info a)) (\<lambda>p.
     bindE (check_mut (ec_executor a)) (\<lambda>_.
     bindE (require (ai_key (ec_executor a) \<in> set (pi_executors p)) (Custom ExecutorIsNotAllowed)) (\<lambda>_.
     bindE (check_seeds env [ROOT, str ''OP'', h] (ec_op_info a)) (\<lambda>_.
     bindE (check_mut (ec_op_info a)) (\<lambda>_.
     bindE (require (oi_status x = StSigned) (Custom OpStateInvalid)) (\<lambda>_.
     bindE (check_seeds env [ROOT, str ''PROTOCOL'', od_protocol_id (oi_op_data x)]
              (ec_protocol_info a)) (\<lambda>_.
     bindE (check_seeds env [ROOT, str ''CALL_AUTHORITY'', od_protocol_id (oi_op_data x)]
              (ec_call_authority a)) (\<lambda>bump.
     Inr (x, bump)))))))))))"

definition meta_of :: "account_info \<Rightarrow> account_meta" where
  "meta_of a =
     \<lparr>am_pubkey = ai_key a, am_is_signer = ai_is_signer a, am_is_writable = ai_is_writable a\<rparr>"

text \<open>The instruction that is invoked for the operation: its method and payload, and the accounts.\<close>

definition call_payload :: "'x env \<Rightarrow> bytes \<Rightarrow> operation_data \<Rightarrow> err + bytes \<times> bytes" where
  "call_payload env h d =
     (case od_function_selector d of
        ByCode selector \<Rightarrow>
          Inr (str ''receive_photon_msg'',
               env_borsh_msg_sel env
                 \<lparr>pms_op_hash = h, pms_selector = selector, pms_params = od_params d\<rparr>)
      | ByName name \<Rightarrow> Inr (name, env_borsh_msg env \<lparr>pm_params = od_params d\<rparr>)
      | Dummy \<Rightarrow> Inl (Panic ExplicitPanic))"

definition execute_infos ::
    "execute_accs \<Rightarrow> bytes \<Rightarrow> account_info list \<Rightarrow> err + account_info list" where
  "execute_infos a protocol_addr remaining =
     (case remaining of
        [] \<Rightarrow> Inl (Custom ProtocolAddressNotProvided)
      | first # rest \<Rightarrow>
          bindE (require (ai_key first = protocol_addr) (Custom ProtocolAddressNotProvided)) (\<lambda>_.
          Inr ([first, ec_executor a, (ec_call_authority a)\<lparr>ai_is_signer := True\<rparr>, ec_op_info a]
               @ rest)))"

definition execute_operation ::
    "'x env \<Rightarrow> execute_accs \<Rightarrow> account_info list \<Rightarrow> bytes \<Rightarrow> 'x world \<Rightarrow> err + 'x world" where
  "execute_operation env a remaining h w =
     bindE (execute_operation_accounts env a h w) (\<lambda>(x, bump).
     let d = oi_op_data x
     in bindE (execute_infos a (od_protocol_addr d) remaining) (\<lambda>infos.
        let metas = List.map meta_of (filter (\<lambda>i. ai_key i \<noteq> od_protocol_addr d) infos)
        in bindE (call_payload env h d) (\<lambda>(method, payload).
           let instr = \<lparr>ix_program_id = od_protocol_addr d,
                        ix_data = sighash (env_sha256 env) (str ''global'') method @ payload,
                        ix_accounts = metas\<rparr>
           in bindE (env_invoke_signed env instr infos
                       [ROOT, str ''CALL_AUTHORITY'', od_protocol_id d, [bump]] w) (\<lambda>w'.
              Inr (store (ec_op_info a) (AOp (x\<lparr>oi_status := StExecuted\<rparr>))
                     (emit (ProposalExecuted h (ai_key (ec_executor a))) w'))))))"

subsection \<open>propose\<close>

record propose_accs =
  pp_proposer :: account_info
  pp_config :: account_info
  pp_protocol_info :: account_info

definition propose_accounts ::
    "'x env \<Rightarrow> propose_accs \<Rightarrow> bytes \<Rightarrow> 'x world \<Rightarrow> err + config" where
  "propose_accounts env a protocol_id w =
     bindE (check_signer (pp_proposer a)) (\<lambda>_.
     bindE (load_config w (pp_config a)) (\<lambda>c.
     bindE (load_protocol w (pp_protocol_info a)) (\<lambda>p.
     bindE (require (ai_key (pp_proposer a) \<in> set (pi_proposers p)) (Custom ProposerIsNotAllowed)) (\<lambda>_.
     bindE (check_seeds env [ROOT, str ''CONFIG''] (pp_config a)) (\<lambda>_.
     bindE (check_mut (pp_config a)) (\<lambda>_.
     bindE (check_seeds env [ROOT, str ''PROTOCOL'', protocol_id] (pp_protocol_info a)) (\<lambda>_.
     Inr c)))))))"

definition propose ::
    "'x env \<Rightarrow> propose_accs \<Rightarrow> bytes \<Rightarrow> u128 \<Rightarrow> bytes \<Rightarrow> function_selector \<Rightarrow> bytes \<Rightarrow> 'x world
     \<Rightarrow> err + 'x world" where
  "propose env a protocol_id dst_chain_id protocol_address selector params w =
     bindE (propose_accounts env a protocol_id w) (\<lambda>c.
     bindE (ok_or (checked_add (conf_nonce c) 1) (Panic ArithmeticOverflow)) (\<lambda>n'.
     bindE (map_err Custom (to_bytes selector)) (\<lambda>sel.
     Inr (store (pp_config a) (AConfig (c\<lparr>conf_nonce := n'\<rparr>))
            (emit (ProposeEvent
                     \<lparr>pe_protocol_id = protocol_id, pe_nonce = conf_nonce c,
                      pe_dst_chain_id = dst_chain_id, pe_protocol_address = protocol_address,
                      pe_function_selector = sel, pe_params = params\<rparr>) w)))))"

subsection \<open>receive_photon_msg\<close>

record receive_accs =
  rp_executor :: account_info
  rp_call_authority :: account_info
  rp_op_info :: account_info
  rp_config :: account_info
  rp_gov_info :: account_info
  rp_target_protocol_info :: account_info
  rp_system_program :: account_info

definition receive_photon_msg_accounts ::
    "'x env \<Rightarrow> receive_accs \<Rightarrow> bytes \<Rightarrow> 'x world
     \<Rightarrow> err + 'x world \<times> op_info \<times> config \<times> protocol_info" where
  "receive_photon_msg_accounts env a h w =
     bindE (check_signer (rp_executor a)) (\<lambda>_.
     bindE (check_signer (rp_call_authority a)) (\<lambda>_.
     bindE (load_op w (rp_op_info a)) (\<lambda>x.
     bindE (load_protocol w (rp_gov_info a)) (\<lambda>gov.
     bindE (check_program (env_system_program env) (rp_system_program a)) (\<lambda>_.
     bindE (check_seeds env [ROOT, str ''CONFIG''] (rp_config a)) (\<lambda>_.
     bindE (init_if_needed env (rp_executor a) (rp_config a) Config_LEN
              (AConfig config_default) w) (\<lambda>w1.
     bindE (load_config w1 (rp_config a)) (\<lambda>c.
     bindE (target_protocol (env_abi_decode env) (od_function_selector (oi_op_data x))
              (od_params (oi_op_data x))) (\<lambda>target_id.
     bindE (check_seeds env [ROOT, str ''PROTOCOL'', target_id] (rp_target_protocol_info a)) (\<lambda>_.
     bindE (init_if_needed env (rp_executor a) (rp_target_protocol_info a) ProtocolInfo_LEN
              (AProtocol protocol_info_default) w1) (\<lambda>w2.
     bindE (load_protocol w2 (rp_target_protocol_info a)) (\<lambda>target.
     bindE (check_mut (rp_executor a)) (\<lambda>_.
     bindE (require (ai_key (rp_executor a) \<in> set (pi_executors gov)) (Custom ExecutorIsNotAllowed)) (\<lambda>_.
     bindE (check_seeds env [ROOT, str ''OP'', h] (rp_op_info a)) (\<lambda>_.
     bindE (require (oi_status x = StSigned) (Custom OpStateInvalid)) (\<lambda>_.
     bindE (check_seeds env [ROOT, str ''PROTOCOL'', gov_protocol_id] (rp_gov_info a)) (\<lambda>_.
     Inr (w2, x, c, target))))))))))))))))))"

definition receive_photon_msg ::
    "'x env \<Rightarrow> receive_accs \<Rightarrow> bytes \<Rightarrow> bytes \<Rightarrow> bytes \<Rightarrow> 'x world \<Rightarrow> err + 'x world" where
  "receive_photon_msg env a h code params w =
     bindE (receive_photon_msg_accounts env a h w) (\<lambda>(w', x, c, target).
     let d = oi_op_data x
     in bindE (require (od_protocol_id d = gov_protocol_id \<and> od_protocol_addr d = env_photon_id env)
                 (Custom InvalidEndpoint)) (\<lambda>_.
        bindE (handle_gov_operation env c target code d) (\<lambda>(c', target', evs).
        Inr (store (rp_target_protocol_info a) (AProtocol target')
               (store (rp_config a) (AConfig c') (fold emit evs w'))))))"

subsection \<open>set_admin\<close>

record set_admin_accs =
  sa_deployer :: account_info
  sa_config :: account_info

definition set_admin_accounts :: "'x env \<Rightarrow> set_admin_accs \<Rightarrow> 'x world \<Rightarrow> err + config" where
  "set_admin_accounts env a w =
     bindE (check_signer (sa_deployer a)) (\<lambda>_.
     bindE (load_config w (sa_config a)) (\<lambda>c.
     bindE (require (ai_key (sa_deployer a) = env_deployer env) (Anchor ConstraintAddress)) (\<lambda>_.
     bindE (check_seeds env [ROOT, str ''CONFIG''] (sa_config a)) (\<lambda>_.
     bindE (check_mut (sa_config a)) (\<lambda>_. Inr c)))))"

definition set_admin :: "'x env \<Rightarrow> set_admin_accs \<Rightarrow> bytes \<Rightarrow> 'x world \<Rightarrow> err + 'x world" where
  "set_admin env a admin w =
     bindE (set_admin_accounts env a w) (\<lambda>c.
     Inr (store (sa_config a) (AConfig (c\<lparr>conf_admin := admin\<rparr>)) w))"

subsection \<open>Dispatch\<close>

datatype call =
    Initialize initialize_accs u64 bytes u64 "bytes list" "bytes list"
  | LoadOperation load_accs operation_data bytes
  | SignOperation sign_accs bytes "transmitter_signature list"
  | ExecuteOperation execute_accs "account_info list" bytes
  | Propose propose_accs bytes u128 bytes function_selector bytes
  | ReceivePhotonMsg receive_accs bytes bytes bytes
  | SetAdmin set_admin_accs bytes

fun exec_call :: "'x env \<Rightarrow> call \<Rightarrow> 'x world \<Rightarrow> err + 'x world" where
  "exec_call env (Initialize a chain master rate ts es) w = initialize env a chain master rate ts es w"
| "exec_call env (LoadOperation a d h) w = load_operation env a d h w"
| "exec_call env (SignOperation a h sigs) w = bindE (sign_operation env a h sigs w) (\<lambda>(w', b). Inr w')"
| "exec_call env (ExecuteOperation a rem h) w = execute_operation env a rem h w"
| "exec_call env (Propose a pid dst addr sel ps) w = propose env a pid dst addr sel ps w"
| "exec_call env (ReceivePhotonMsg a h code ps) w = receive_photon_msg env a h code ps w"
| "exec_call env (SetAdmin a admin) w = set_admin env a admin w"

end
