(* ===== verification/Lifecycle.thy ===== *)
theory Lifecycle
  imports Endpoint
begin

section \<open>The life of an operation, abstractly\<close>

text \<open>
  The contract of the endpoint program, without accounts: a status for every operation hash, and
  the pipeline of the program's documentation, load, then sign to consensus, then execute. A
  transition is labelled with the events it announces. \<open>Endpoint_Inv\<close> shows that every reachable
  state of the handlers is a reachable state of this machine.
\<close>

inductive lstep :: "(bytes \<Rightarrow> op_status) \<Rightarrow> event list \<Rightarrow> (bytes \<Rightarrow> op_status) \<Rightarrow> bool" where
  skip: "lstep s [] s"
| loaded: "s h = StNone \<Longrightarrow> lstep s [ProposalLoaded h e] (s(h := StInit))"
| approved: "s h = StInit \<or> s h = StSigned \<Longrightarrow> lstep s [ProposalApproved h e] (s(h := StSigned))"
| executed: "s h = StSigned \<Longrightarrow> lstep s [ProposalExecuted h e] (s(h := StExecuted))"

inductive lreach :: "(bytes \<Rightarrow> op_status) \<Rightarrow> event list \<Rightarrow> bool" where
  start: "lreach (\<lambda>_. StNone) []"
| next_step: "lreach s evs \<Longrightarrow> lstep s l s' \<Longrightarrow> lreach s' (evs @ l)"

inductive_cases lstep_cases: "lstep s l s'"

text \<open>The events about one operation, as letters.\<close>

datatype letter = L | A | E

fun letter_of :: "bytes \<Rightarrow> event \<Rightarrow> letter list" where
  "letter_of h (ProposalLoaded h' e) = (if h' = h then [L] else [])"
| "letter_of h (ProposalApproved h' e) = (if h' = h then [A] else [])"
| "letter_of h (ProposalExecuted h' e) = (if h' = h then [E] else [])"
| "letter_of h (ProposeEvent p) = []"

definition op_trace :: "bytes \<Rightarrow> event list \<Rightarrow> letter list" where
  "op_trace h evs = concat (List.map (letter_of h) evs)"

lemma op_trace_append [simp]: "op_trace h (xs @ ys) = op_trace h xs @ op_trace h ys"
  and op_trace_Nil [simp]: "op_trace h [] = []"
  and op_trace_Cons [simp]: "op_trace h (e # ys) = letter_of h e @ op_trace h ys"
  by (simp_all add: op_trace_def)

text \<open>What each status says of the events so far.\<close>

definition signed_trace :: "letter list \<Rightarrow> bool" where
  "signed_trace t \<longleftrightarrow> t \<noteq> [] \<and> hd t = L \<and> tl t \<noteq> [] \<and> set (tl t) = {A}"

fun trace_ok :: "op_status \<Rightarrow> letter list \<Rightarrow> bool" where
  "trace_ok StNone t \<longleftrightarrow> t = []"
| "trace_ok StInit t \<longleftrightarrow> t = [L]"
| "trace_ok StSigned t \<longleftrightarrow> signed_trace t"
| "trace_ok StExecuted t \<longleftrightarrow> t \<noteq> [] \<and> last t = E \<and> signed_trace (butlast t)"

lemma signed_trace_loaded [simp]: "signed_trace [L, A]"
  by (simp add: signed_trace_def)

lemma signed_trace_approved: "signed_trace t \<Longrightarrow> signed_trace (t @ [A])"
  by (cases t) (auto simp: signed_trace_def)

lemma signed_trace_count: "signed_trace t \<Longrightarrow> count_list t E = 0"
  by (cases t) (auto simp: signed_trace_def count_list_0_iff)

lemma trace_ok_count_E: "trace_ok s t \<Longrightarrow> count_list t E = (if s = StExecuted then 1 else 0)"
proof (cases s)
  case StExecuted
  moreover assume "trace_ok s t"
  ultimately obtain u where "t = u @ [E]" "signed_trace u"
    by (auto simp: append_butlast_last_id) (metis append_butlast_last_id)
  with StExecuted show ?thesis by (simp add: signed_trace_count)
qed (auto simp: signed_trace_count)

lemma lreach_trace: "lreach s evs \<Longrightarrow> trace_ok (s h) (op_trace h evs)"
proof (induction rule: lreach.induct)
  case (next_step s evs l s')
  from next_step(2) show ?case
  proof cases
    case (approved h' e)
    with next_step.IH show ?thesis by (auto intro: signed_trace_approved)
  qed (use next_step.IH in auto)
qed simp

lemma lstep_mono: "lstep s l s' \<Longrightarrow> s h \<le> s' h"
  by (cases rule: lstep.cases) auto

end
