(* ===== verification/Endpoint_Effects.thy ===== *)
theory Endpoint_Effects
  imports Lifecycle
begin

section \<open>What the endpoint's handlers do\<close>

text \<open>
  Each handler of \<open>Endpoint\<close>, seen from outside: an \<open>_effect\<close> lemma says which guards held and what
  the world looks like afterwards, as an update of the account map and a list of new events. The
  predicates \<open>loads\<close>, \<open>signs\<close> and \<open>receives\<close> name the effects the invariants speak about.
\<close>

subsection \<open>Reading the world\<close>

definition ops :: "'x world \<Rightarrow> bytes \<Rightarrow> op_info option" where
  "ops w k = (case accounts w k of Some (AOp x) \<Rightarrow> Some x | _ \<Rightarrow> None)"

definition protocols :: "'x world \<Rightarrow> bytes \<Rightarrow> protocol_info option" where
  "protocols w k = (case accounts w k of Some (AProtocol p) \<Rightarrow> Some p | _ \<Rightarrow> None)"

definition configs :: "'x world \<Rightarrow> bytes \<Rightarrow> config option" where
  "configs w k = (case accounts w k of Some (AConfig c) \<Rightarrow> Some c | _ \<Rightarrow> None)"

lemma ops_Some: "ops w k = Some x \<longleftrightarrow> accounts w k = Some (AOp x)"
  and protocols_Some: "protocols w k = Some p \<longleftrightarrow> accounts w k = Some (AProtocol p)"
  and configs_Some: "configs w k = Some c \<longleftrightarrow> accounts w k = Some (AConfig c)"
  by (auto simp: ops_def protocols_def configs_def split: option.splits account.splits)

fun is_propose :: "event \<Rightarrow> bool" where
  "is_propose (ProposeEvent p) = True"
| "is_propose _ = False"

lemma fold_emit_simps [simp]:
  "accounts (fold emit evs w) = accounts w" "foreign (fold emit evs w) = foreign w"
  "events (fold emit evs w) = events w @ evs"
  by (induction evs arbitrary: w) simp_all

subsection \<open>What the handlers do\<close>

text \<open>
  An account that is created if needed: the old contents, or the zeroed record, at its address.
\<close>

definition current :: "'x world \<Rightarrow> bytes \<Rightarrow> account \<Rightarrow> account \<Rightarrow> bool" where
  "current w k zeroed a \<longleftrightarrow> accounts w k = Some a \<or> accounts w k = None \<and> a = zeroed"

lemma init_if_needed_current:
  assumes "init_if_needed env payer a space z w = Inr w1" "accounts w1 (ai_key a) = Some acc"
  shows "current w (ai_key a) z acc \<and> accounts w1 = (accounts w)(ai_key a \<mapsto> acc)
    \<and> events w1 = events w"
  using assms
  by (auto simp: init_if_needed_def init_account_def current_def result_simps split: if_splits)

lemma initialize_effect:
  assumes "initialize env a chain master rate ts es w = Inr w'"
  obtains p p1 p2 c b b' where
    "ai_is_signer (in_admin a)"
    "env_find_pda env [ROOT, str ''PROTOCOL'', gov_protocol_id] (env_photon_id env) =
       Some (ai_key (in_protocol_info a), b)"
    "env_find_pda env [ROOT, str ''CONFIG''] (env_photon_id env) = Some (ai_key (in_config a), b')"
    "current w (ai_key (in_protocol_info a)) (AProtocol protocol_info_default) (AProtocol p)"
    "current w (ai_key (in_config a)) (AConfig config_default) (AConfig c)"
    "ai_key (in_admin a) = conf_admin c \<or> ai_key (in_admin a) = env_deployer env"
    "ai_key (in_protocol_info a) \<noteq> ai_key (in_config a)"
    "set_transmitters ts (p\<lparr>pi_is_init := True, pi_protocol_address := env_photon_id env,
       pi_consensus_target_rate := rate\<rparr>) = Inr p1"
    "set_executors es p1 = Inr p2"
    "length master = 32"
    "accounts w' = (accounts w)(ai_key (in_protocol_info a) \<mapsto> AProtocol p2,
       ai_key (in_config a) \<mapsto> AConfig (c\<lparr>conf_admin := ai_key (in_admin a),
         conf_eob_chain_id := chain, conf_eob_master := master\<rparr>))"
    "events w' = events w"
proof -
  let ?kp = "ai_key (in_protocol_info a)" and ?kc = "ai_key (in_config a)"
  from assms obtain w1 w2 p p1 p2 c b b' where
    r: "ai_is_signer (in_admin a)"
      "env_find_pda env [ROOT, str ''PROTOCOL'', gov_protocol_id] (env_photon_id env) = Some (?kp, b)"
      "env_find_pda env [ROOT, str ''CONFIG''] (env_photon_id env) = Some (?kc, b')"
      "ai_key (in_admin a) = conf_admin c \<or> ai_key (in_admin a) = env_deployer env"
      "length master = 32" and
    i: "init_if_needed env (in_admin a) (in_protocol_info a) ProtocolInfo_LEN
          (AProtocol protocol_info_default) w = Inr w1"
      "accounts w1 ?kp = Some (AProtocol p)"
      "init_if_needed env (in_admin a) (in_config a) Config_LEN (AConfig config_default) w1 = Inr w2"
      "accounts w2 ?kc = Some (AConfig c)" and
    s: "set_transmitters ts (p\<lparr>pi_is_init := True, pi_protocol_address := env_photon_id env,
          pi_consensus_target_rate := rate\<rparr>) = Inr p1" "set_executors es p1 = Inr p2" and
    w': "w' = store (in_config a) (AConfig (c\<lparr>conf_admin := ai_key (in_admin a),
         conf_eob_chain_id := chain, conf_eob_master := master\<rparr>))
         (store (in_protocol_info a) (AProtocol p2) w2)"
    by (simp add: initialize_def initialize_accounts_def result_simps Let_def split_paired_Ex split_def)
      blast
  note c1 = init_if_needed_current [OF i(1,2)] and c2 = init_if_needed_current [OF i(3,4)]
  from c2 have ne: "?kp \<noteq> ?kc" using c1 by (auto simp: current_def)
  with c1 c2 show ?thesis
    using that [OF r(1,2,3) _ _ r(4) ne s r(5)] w' by (auto simp: current_def fun_upd_twist)
qed

lemma load_operation_accounts_effect:
  assumes "load_operation_accounts env a d h w = Inr (w1, p, x)"
  shows "ai_is_signer (lo_executor a) \<and> ai_key (lo_executor a) \<in> set (pi_executors p)
    \<and> accounts w (ai_key (lo_protocol_info a)) = Some (AProtocol p)
    \<and> (\<exists>bp. env_find_pda env [ROOT, str ''PROTOCOL'', od_protocol_id d] (env_photon_id env) =
         Some (ai_key (lo_protocol_info a), bp))
    \<and> (\<exists>b. env_find_pda env [ROOT, str ''OP'', h] (env_photon_id env) =
         Some (ai_key (lo_op_info a), b))
    \<and> accounts w (ai_key (lo_op_info a)) = None \<and> x = op_info_zeroed
    \<and> accounts w1 = (accounts w)(ai_key (lo_op_info a) \<mapsto> AOp op_info_zeroed)
    \<and> events w1 = events w"
  using assms by (auto simp: load_operation_accounts_def init_account_def result_simps)

text \<open>Loading operation \<open>d\<close> under the hash \<open>h\<close> creates its account at address \<open>k\<close>.\<close>

definition loads :: "'x env \<Rightarrow> 'x world \<Rightarrow> operation_data \<Rightarrow> bytes \<Rightarrow> bytes \<Rightarrow> bytes \<Rightarrow> 'x world \<Rightarrow> bool" where
  "loads env w d h k e w' \<longleftrightarrow>
     (\<exists>p kp bp b. accounts w kp = Some (AProtocol p) \<and> e \<in> set (pi_executors p)
      \<and> env_find_pda env [ROOT, str ''PROTOCOL'', od_protocol_id d] (env_photon_id env) = Some (kp, bp)
      \<and> env_find_pda env [ROOT, str ''OP'', h] (env_photon_id env) = Some (k, b)
      \<and> pi_protocol_address p = od_protocol_addr d)
     \<and> accounts w k = None
     \<and> op_hash_with_message (env_keccak env) d = Inr h
     \<and> od_dest_chain_id d = SOLANA_CHAIN_ID (env_network env)
     \<and> od_protocol_id d \<noteq> replicate 32 0 \<and> length (od_protocol_id d) = 32
     \<and> accounts w' = (accounts w)(k \<mapsto>
          AOp \<lparr>oi_status = StInit, oi_unique_signers = replicate 16 eth_default, oi_op_data = d\<rparr>)
     \<and> events w' = events w @ [ProposalLoaded h e]"

lemma load_operation_effect:
  assumes "load_operation env a d h w = Inr w'"
  shows "ai_is_signer (lo_executor a) \<and>
    loads env w d h (ai_key (lo_op_info a)) (ai_key (lo_executor a)) w'"
proof -
  from assms obtain w1 p x where acc: "load_operation_accounts env a d h w = Inr (w1, p, x)"
    by (auto simp: load_operation_def result_simps)
  note e = load_operation_accounts_effect [OF acc]
  from assms acc have
    "op_hash_with_message (env_keccak env) d = Inr h
     \<and> od_dest_chain_id d = SOLANA_CHAIN_ID (env_network env)
     \<and> pi_protocol_address p = od_protocol_addr d
     \<and> od_protocol_id d \<noteq> replicate 32 0 \<and> length (od_protocol_id d) = 32
     \<and> w' = store (lo_op_info a) (AOp (x\<lparr>oi_op_data := d, oi_status := StInit\<rparr>))
            (emit (ProposalLoaded h (ai_key (lo_executor a))) w1)"
    by (auto simp: load_operation_def result_simps)
  with e show ?thesis
    unfolding loads_def by (auto simp: op_info_zeroed_def)
qed

lemma sign_operation_accounts_effect:
  "sign_operation_accounts env a h w = Inr (x, p) \<longleftrightarrow>
     ai_is_signer (sg_executor a) \<and> ai_is_writable (sg_executor a) \<and> ai_is_writable (sg_op_info a)
    \<and> ai_key (sg_executor a) \<in> set (pi_executors p)
    \<and> accounts w (ai_key (sg_op_info a)) = Some (AOp x)
    \<and> accounts w (ai_key (sg_protocol_info a)) = Some (AProtocol p)
    \<and> (oi_status x = StInit \<or> oi_status x = StSigned)
    \<and> (\<exists>b. env_find_pda env [ROOT, str ''OP'', h] (env_photon_id env) =
         Some (ai_key (sg_op_info a), b))
    \<and> (\<exists>b. env_find_pda env [ROOT, str ''PROTOCOL'', od_protocol_id (oi_op_data x)]
         (env_photon_id env) = Some (ai_key (sg_protocol_info a), b))"
  by (auto simp: sign_operation_accounts_def result_simps)

text \<open>The signers recorded in an operation's account.\<close>

definition signers_of :: "op_info \<Rightarrow> bytes list" where
  "signers_of x = filter (\<lambda>k. k \<noteq> eth_default) (oi_unique_signers x)"

text \<open>Signing operation \<open>x\<close> of protocol \<open>p\<close>: nothing happens, or the loop's result is recorded.\<close>

definition signs ::
    "'x env \<Rightarrow> 'x world \<Rightarrow> bytes \<Rightarrow> bytes \<Rightarrow> bytes \<Rightarrow> op_info \<Rightarrow> protocol_info
     \<Rightarrow> transmitter_signature list \<Rightarrow> 'x world \<Rightarrow> bool" where
  "signs env w h k e x p sigs w' \<longleftrightarrow>
     (\<exists>unique reached. length unique \<le> 16
      \<and> sign_loop env (transmitters_of p) (pi_consensus_target_rate p) h sigs (signers_of x) =
          Inr (unique, reached)
      \<and> accounts w' = (accounts w)(k \<mapsto> AOp (x\<lparr>oi_unique_signers :=
            unique @ replicate (16 - length unique) eth_default,
            oi_status := (if reached then StSigned else oi_status x)\<rparr>))
      \<and> events w' = events w @ (if reached then [ProposalApproved h e] else []))"

text \<open>The handler's body, once its accounts have passed.\<close>

definition sign_body ::
    "'x env \<Rightarrow> sign_accs \<Rightarrow> bytes \<Rightarrow> transmitter_signature list \<Rightarrow> 'x world \<Rightarrow> op_info \<Rightarrow> protocol_info
     \<Rightarrow> err + 'x world \<times> bool" where
  "sign_body env a h sigs w x p =
     (case sign_loop env (transmitters_of p) (pi_consensus_target_rate p) h sigs (signers_of x) of
        Inl e \<Rightarrow> Inl e
      | Inr (u, r) \<Rightarrow>
          if length u \<le> 16
          then Inr (store (sg_op_info a) (AOp (x\<lparr>oi_unique_signers :=
                      u @ replicate (16 - length u) eth_default,
                      oi_status := (if r then StSigned else oi_status x)\<rparr>))
                 (if r then emit (ProposalApproved h (ai_key (sg_executor a))) w else w), r)
          else Inl (Panic IndexOutOfBounds))"

lemma sign_operation_eq:
  assumes "sign_operation_accounts env a h w = Inr (x, p)"
  shows "sign_operation env a h sigs w =
    (if transmitters_of p = [] then Inl (Custom NoTransmittersAllowed)
     else if unat (pi_consensus_target_rate p) \<le>
          consensus_rate (length (signers_of x)) (length (transmitters_of p)) then Inr (w, True)
     else sign_body env a h sigs w x p)"
  unfolding sign_operation_def assms bindE_Inr prod.case Let_def sign_body_def signers_of_def [symmetric]
  by (simp add: array_simps split: sum.splits)

lemma sign_body_effect:
  assumes "sign_body env a h sigs w x p = Inr (w', b)"
  shows "signs env w h (ai_key (sg_op_info a)) (ai_key (sg_executor a)) x p sigs w'"
proof (cases "sign_loop env (transmitters_of p) (pi_consensus_target_rate p) h sigs (signers_of x)")
  case (Inl e)
  with assms show ?thesis by (simp add: sign_body_def)
next
  case (Inr ur)
  obtain u r where ur: "ur = (u, r)" by (cases ur)
  with assms Inr have "length u \<le> 16"
    by (cases "length u \<le> 16") (simp_all add: sign_body_def)
  let ?w = "store (sg_op_info a) (AOp (x\<lparr>oi_unique_signers :=
        u @ replicate (16 - length u) eth_default,
        oi_status := (if r then StSigned else oi_status x)\<rparr>))
      (if r then emit (ProposalApproved h (ai_key (sg_executor a))) w else w)"
  have "sign_body env a h sigs w x p = Inr (?w, r)"
    unfolding sign_body_def Inr ur by (simp only: sum.case prod.case \<open>length u \<le> 16\<close> if_True)
  with assms have "w' = ?w" by (metis Inr_inject fst_conv)
  with \<open>length u \<le> 16\<close> show ?thesis
    unfolding signs_def by (intro exI [of _ u] exI [of _ r]) (simp add: Inr ur)
qed

lemma sign_operation_effect:
  assumes "sign_operation env a h sigs w = Inr (w', b)"
  obtains x p where "sign_operation_accounts env a h w = Inr (x, p)"
    and "transmitters_of p \<noteq> []"
    and "(unat (pi_consensus_target_rate p) \<le>
            consensus_rate (length (signers_of x)) (length (transmitters_of p)) \<and> w' = w \<and> b)
       \<or> (consensus_rate (length (signers_of x)) (length (transmitters_of p)) <
            unat (pi_consensus_target_rate p)
          \<and> signs env w h (ai_key (sg_op_info a)) (ai_key (sg_executor a)) x p sigs w')"
proof -
  from assms obtain x p where acc: "sign_operation_accounts env a h w = Inr (x, p)"
    unfolding sign_operation_def by (cases "sign_operation_accounts env a h w") auto
  from assms show ?thesis
    unfolding sign_operation_eq [OF acc]
    by (intro that [OF acc]) (auto dest: sign_body_effect split: if_splits)
qed

lemma execute_operation_accounts_effect:
  "execute_operation_accounts env a h w = Inr (x, bump) \<longleftrightarrow>
     ai_is_signer (ec_executor a) \<and> ai_is_writable (ec_executor a) \<and> ai_is_writable (ec_op_info a)
    \<and> (\<exists>p. accounts w (ai_key (ec_protocol_info a)) = Some (AProtocol p)
         \<and> ai_key (ec_executor a) \<in> set (pi_executors p))
    \<and> accounts w (ai_key (ec_op_info a)) = Some (AOp x)
    \<and> oi_status x = StSigned
    \<and> (\<exists>b. env_find_pda env [ROOT, str ''OP'', h] (env_photon_id env) =
         Some (ai_key (ec_op_info a), b))
    \<and> (\<exists>b. env_find_pda env [ROOT, str ''PROTOCOL'', od_protocol_id (oi_op_data x)]
         (env_photon_id env) = Some (ai_key (ec_protocol_info a), b))
    \<and> env_find_pda env [ROOT, str ''CALL_AUTHORITY'', od_protocol_id (oi_op_data x)]
         (env_photon_id env) = Some (ai_key (ec_call_authority a), bump)"
  by (auto simp: execute_operation_accounts_def result_simps)

lemma execute_operation_effect:
  assumes "execute_operation env a remaining h w = Inr w'"
  shows "\<exists>x bump infos meth payload w1.
      execute_operation_accounts env a h w = Inr (x, bump)
    \<and> execute_infos a (od_protocol_addr (oi_op_data x)) remaining = Inr infos
    \<and> call_payload env h (oi_op_data x) = Inr (meth, payload)
    \<and> env_invoke_signed env
        \<lparr>ix_program_id = od_protocol_addr (oi_op_data x),
         ix_data = sighash (env_sha256 env) (str ''global'') meth @ payload,
         ix_accounts =
           List.map meta_of (filter (\<lambda>i. ai_key i \<noteq> od_protocol_addr (oi_op_data x)) infos)\<rparr>
        infos [ROOT, str ''CALL_AUTHORITY'', od_protocol_id (oi_op_data x), [bump]] w = Inr w1
    \<and> accounts w' = (accounts w1)(ai_key (ec_op_info a) \<mapsto> AOp (x\<lparr>oi_status := StExecuted\<rparr>))
    \<and> events w' = events w1 @ [ProposalExecuted h (ai_key (ec_executor a))]"
proof -
  from assms obtain x bump where acc: "execute_operation_accounts env a h w = Inr (x, bump)"
    unfolding execute_operation_def by (cases "execute_operation_accounts env a h w") auto
  let ?d = "oi_op_data x"
  from assms acc obtain infos where i: "execute_infos a (od_protocol_addr ?d) remaining = Inr infos"
    unfolding execute_operation_def Let_def
    by (cases "execute_infos a (od_protocol_addr ?d) remaining") auto
  from assms acc i obtain meth payload where c: "call_payload env h ?d = Inr (meth, payload)"
    unfolding execute_operation_def Let_def by (cases "call_payload env h ?d") auto
  let ?r = "env_invoke_signed env
        \<lparr>ix_program_id = od_protocol_addr ?d,
         ix_data = sighash (env_sha256 env) (str ''global'') meth @ payload,
         ix_accounts = List.map meta_of (filter (\<lambda>i. ai_key i \<noteq> od_protocol_addr ?d) infos)\<rparr>
        infos [ROOT, str ''CALL_AUTHORITY'', od_protocol_id ?d, [bump]] w"
  from assms acc i c obtain w1 where r: "?r = Inr w1"
    unfolding execute_operation_def Let_def by (cases ?r) auto
  from assms acc i c r have "w' = store (ec_op_info a) (AOp (x\<lparr>oi_status := StExecuted\<rparr>))
      (emit (ProposalExecuted h (ai_key (ec_executor a))) w1)"
    by (simp add: execute_operation_def Let_def)
  with acc i c r show ?thesis by (intro exI conjI) (assumption | simp)+
qed

lemma propose_effect:
  assumes "propose env a pid dst addr sel ps w = Inr w'"
  shows "\<exists>c p sb b bp. ai_is_signer (pp_proposer a)
    \<and> accounts w (ai_key (pp_config a)) = Some (AConfig c)
    \<and> accounts w (ai_key (pp_protocol_info a)) = Some (AProtocol p)
    \<and> ai_key (pp_proposer a) \<in> set (pi_proposers p)
    \<and> env_find_pda env [ROOT, str ''CONFIG''] (env_photon_id env) = Some (ai_key (pp_config a), b)
    \<and> env_find_pda env [ROOT, str ''PROTOCOL'', pid] (env_photon_id env) =
        Some (ai_key (pp_protocol_info a), bp)
    \<and> unat (conf_nonce c) + 1 < 2 ^ 64 \<and> to_bytes sel = Inr sb
    \<and> accounts w' = (accounts w)(ai_key (pp_config a) \<mapsto> AConfig (c\<lparr>conf_nonce := conf_nonce c + 1\<rparr>))
    \<and> events w' = events w @ [ProposeEvent \<lparr>pe_protocol_id = pid, pe_nonce = conf_nonce c,
        pe_dst_chain_id = dst, pe_protocol_address = addr, pe_function_selector = sb,
        pe_params = ps\<rparr>]"
proof -
  from assms obtain c where acc: "propose_accounts env a pid w = Inr c"
    unfolding propose_def by (cases "propose_accounts env a pid w") auto
  from acc have "\<exists>p b bp. ai_is_signer (pp_proposer a)
    \<and> accounts w (ai_key (pp_config a)) = Some (AConfig c)
    \<and> accounts w (ai_key (pp_protocol_info a)) = Some (AProtocol p)
    \<and> ai_key (pp_proposer a) \<in> set (pi_proposers p)
    \<and> env_find_pda env [ROOT, str ''CONFIG''] (env_photon_id env) = Some (ai_key (pp_config a), b)
    \<and> env_find_pda env [ROOT, str ''PROTOCOL'', pid] (env_photon_id env) =
        Some (ai_key (pp_protocol_info a), bp)"
    by (auto simp: propose_accounts_def result_simps)
  moreover from assms acc have "\<exists>sb. unat (conf_nonce c) + 1 < 2 ^ 64 \<and> to_bytes sel = Inr sb
    \<and> accounts w' = (accounts w)(ai_key (pp_config a) \<mapsto> AConfig (c\<lparr>conf_nonce := conf_nonce c + 1\<rparr>))
    \<and> events w' = events w @ [ProposeEvent \<lparr>pe_protocol_id = pid, pe_nonce = conf_nonce c,
        pe_dst_chain_id = dst, pe_protocol_address = addr, pe_function_selector = sb,
        pe_params = ps\<rparr>]"
    by (auto simp: propose_def result_simps checked_add_Some_iff)
  ultimately show ?thesis by blast
qed

lemma set_admin_effect:
  assumes "set_admin env a admin w = Inr w'"
  shows "\<exists>c b. ai_is_signer (sa_deployer a) \<and> ai_key (sa_deployer a) = env_deployer env
    \<and> env_find_pda env [ROOT, str ''CONFIG''] (env_photon_id env) = Some (ai_key (sa_config a), b)
    \<and> accounts w (ai_key (sa_config a)) = Some (AConfig c)
    \<and> accounts w' = (accounts w)(ai_key (sa_config a) \<mapsto> AConfig (c\<lparr>conf_admin := admin\<rparr>))
    \<and> events w' = events w"
  using assms by (auto simp: set_admin_def set_admin_accounts_def result_simps)

text \<open>
  \<open>receive_photon_msg\<close> on the operation \<open>x\<close> whose target protocol account is \<open>kt\<close> and whose config
  account is \<open>kc\<close>.
\<close>

definition receives ::
    "'x env \<Rightarrow> 'x world \<Rightarrow> bytes \<Rightarrow> bytes \<Rightarrow> op_info \<Rightarrow> bytes \<Rightarrow> bytes \<Rightarrow> 'x world \<Rightarrow> bool" where
  "receives env w h code x kt kc w' \<longleftrightarrow>
     (\<exists>ko b bc c c' t t' evs.
        env_find_pda env [ROOT, str ''OP'', h] (env_photon_id env) = Some (ko, b)
      \<and> env_find_pda env [ROOT, str ''CONFIG''] (env_photon_id env) = Some (kc, bc)
      \<and> accounts w ko = Some (AOp x) \<and> oi_status x = StSigned \<and> kt \<noteq> kc
      \<and> od_protocol_id (oi_op_data x) = gov_protocol_id
      \<and> od_protocol_addr (oi_op_data x) = env_photon_id env
      \<and> current w kc (AConfig config_default) (AConfig c)
      \<and> current w kt (AProtocol protocol_info_default) (AProtocol t)
      \<and> handle_gov_operation env c t code (oi_op_data x) = Inr (c', t', evs)
      \<and> accounts w' = (accounts w)(kc \<mapsto> AConfig c', kt \<mapsto> AProtocol t')
      \<and> events w' = events w @ evs)"

lemma receive_photon_msg_accounts_effect:
  assumes "receive_photon_msg_accounts env a h w = Inr (w2, x, c, t)"
  shows "ai_is_signer (rp_executor a) \<and> ai_is_signer (rp_call_authority a)
    \<and> (\<exists>b. env_find_pda env [ROOT, str ''OP'', h] (env_photon_id env) = Some (ai_key (rp_op_info a), b))
    \<and> (\<exists>b. env_find_pda env [ROOT, str ''CONFIG''] (env_photon_id env) =
         Some (ai_key (rp_config a), b))
    \<and> accounts w (ai_key (rp_op_info a)) = Some (AOp x) \<and> oi_status x = StSigned
    \<and> (\<exists>b gov. env_find_pda env [ROOT, str ''PROTOCOL'', gov_protocol_id] (env_photon_id env) =
         Some (ai_key (rp_gov_info a), b)
         \<and> accounts w (ai_key (rp_gov_info a)) = Some (AProtocol gov)
         \<and> ai_key (rp_executor a) \<in> set (pi_executors gov))
    \<and> (\<exists>w1. init_if_needed env (rp_executor a) (rp_config a) Config_LEN (AConfig config_default) w
         = Inr w1 \<and> accounts w1 (ai_key (rp_config a)) = Some (AConfig c)
       \<and> init_if_needed env (rp_executor a) (rp_target_protocol_info a) ProtocolInfo_LEN
           (AProtocol protocol_info_default) w1 = Inr w2)
    \<and> accounts w2 (ai_key (rp_target_protocol_info a)) = Some (AProtocol t)"
  using assms by (auto simp: receive_photon_msg_accounts_def result_simps)

lemma receive_photon_msg_accounts_current:
  assumes "receive_photon_msg_accounts env a h w = Inr (w2, x, c, t)"
  shows "current w (ai_key (rp_config a)) (AConfig config_default) (AConfig c)"
    and "current w (ai_key (rp_target_protocol_info a)) (AProtocol protocol_info_default) (AProtocol t)"
    and "ai_key (rp_target_protocol_info a) \<noteq> ai_key (rp_config a)"
    and "accounts w2 = (accounts w)(ai_key (rp_config a) \<mapsto> AConfig c,
      ai_key (rp_target_protocol_info a) \<mapsto> AProtocol t)"
    and "events w2 = events w"
proof -
  from receive_photon_msg_accounts_effect [OF assms] obtain w1 where
    i: "init_if_needed env (rp_executor a) (rp_config a) Config_LEN (AConfig config_default) w = Inr w1"
      "accounts w1 (ai_key (rp_config a)) = Some (AConfig c)"
      "init_if_needed env (rp_executor a) (rp_target_protocol_info a) ProtocolInfo_LEN
         (AProtocol protocol_info_default) w1 = Inr w2"
      "accounts w2 (ai_key (rp_target_protocol_info a)) = Some (AProtocol t)"
    by blast
  note c1 = init_if_needed_current [OF i(1,2)] and c2 = init_if_needed_current [OF i(3,4)]
  from c1 show "current w (ai_key (rp_config a)) (AConfig config_default) (AConfig c)" by simp
  from c1 c2 show ne: "ai_key (rp_target_protocol_info a) \<noteq> ai_key (rp_config a)" by (auto simp: current_def)
  with c1 c2 show "current w (ai_key (rp_target_protocol_info a)) (AProtocol protocol_info_default) (AProtocol t)"
    by (auto simp: current_def)
  from c1 c2 show "accounts w2 = (accounts w)(ai_key (rp_config a) \<mapsto> AConfig c,
      ai_key (rp_target_protocol_info a) \<mapsto> AProtocol t)" "events w2 = events w"
    by simp_all
qed

lemma receive_photon_msg_effect:
  assumes "receive_photon_msg env a h code ps w = Inr w'"
  shows "\<exists>x. receives env w h code x (ai_key (rp_target_protocol_info a)) (ai_key (rp_config a)) w'"
proof -
  from assms obtain w2 x c t where acc: "receive_photon_msg_accounts env a h w = Inr (w2, x, c, t)"
    unfolding receive_photon_msg_def by (cases "receive_photon_msg_accounts env a h w") auto
  note e = receive_photon_msg_accounts_effect [OF acc] and cur = receive_photon_msg_accounts_current [OF acc]
  from assms acc have g: "od_protocol_id (oi_op_data x) = gov_protocol_id"
      "od_protocol_addr (oi_op_data x) = env_photon_id env"
    by (auto simp: receive_photon_msg_def result_simps Let_def)
  with assms acc obtain c' t' evs where
    h: "handle_gov_operation env c t code (oi_op_data x) = Inr (c', t', evs)"
    by (cases "handle_gov_operation env c t code (oi_op_data x)")
      (auto simp: receive_photon_msg_def Let_def)
  with assms acc g have "w' = store (rp_target_protocol_info a) (AProtocol t')
      (store (rp_config a) (AConfig c') (fold emit evs w2))"
    by (simp add: receive_photon_msg_def Let_def)
  with cur have "accounts w' = (accounts w)(ai_key (rp_config a) \<mapsto> AConfig c',
      ai_key (rp_target_protocol_info a) \<mapsto> AProtocol t')" "events w' = events w @ evs"
    by (auto simp: fun_upd_twist)
  with e cur(1-3) g h show ?thesis unfolding receives_def by blast
qed

end
