(* ===== verification/Endpoint_Inv.thy ===== *)
theory Endpoint_Inv
  imports Endpoint_Effects
begin

section \<open>Invariants of the endpoint program\<close>

text \<open>
  The reachable worlds of the program, the invariants every reachable world has, and the
  refinement of \<open>Lifecycle\<close>. Three facts about code outside the repository are assumed where they
  are needed: \<open>cpi_ok\<close> (a cross-program call cannot write the program's accounts, except through
  the program's own \<open>receive_photon_msg\<close>: the runtime forbids every other re-entry), \<open>op_pda_inj\<close>
  (two operation hashes do not derive the same address) and \<open>env_typed\<close> (the ABI decoder respects
  the requested types, and program ids have 32 bytes).
\<close>

definition cpi_ok :: "'x env \<Rightarrow> bool" where
  "cpi_ok env \<longleftrightarrow>
     (\<forall>ix infos seeds w w'. env_invoke_signed env ix infos seeds w = Inr w' \<longrightarrow>
        accounts w' = accounts w \<and> events w' = events w
        \<or> (\<exists>a h code ps. receive_photon_msg env a h code ps w = Inr w'))"

definition op_pda_inj :: "'x env \<Rightarrow> bool" where
  "op_pda_inj env \<longleftrightarrow>
     (\<forall>h h' k b b'. env_find_pda env [ROOT, str ''OP'', h] (env_photon_id env) = Some (k, b)
        \<and> env_find_pda env [ROOT, str ''OP'', h'] (env_photon_id env) = Some (k, b') \<longrightarrow> h = h')"

definition env_typed :: "'x env \<Rightarrow> bool" where
  "env_typed env \<longleftrightarrow> abi_typed (env_abi_decode env) \<and> length (env_photon_id env) = 32"

text \<open>The Rust types of the instruction arguments: addresses have 20 bytes and keys 32.\<close>

fun call_typed :: "call \<Rightarrow> bool" where
  "call_typed (Initialize a chain master rate ts es) =
     ((\<forall>t \<in> set ts. length t = 20) \<and> (\<forall>k \<in> set es. length k = 32))"
| "call_typed _ = True"

inductive reachable :: "'x env \<Rightarrow> 'x world \<Rightarrow> bool" for env where
  genesis: "reachable env \<lparr>accounts = (\<lambda>_. None), events = [], foreign = x\<rparr>"
| call: "reachable env w \<Longrightarrow> call_typed c \<Longrightarrow> exec_call env c w = Inr w' \<Longrightarrow> reachable env w'"
| outside: "reachable env w \<Longrightarrow> reachable env (w\<lparr>foreign := x\<rparr>)"

subsection \<open>Steps, as they concern operations\<close>

definition quiet :: "'x world \<Rightarrow> 'x world \<Rightarrow> bool" where
  "quiet w w' \<longleftrightarrow>
     ops w' = ops w \<and> (\<exists>evs. events w' = events w @ evs \<and> list_all is_propose evs)"

inductive op_step :: "'x env \<Rightarrow> 'x world \<Rightarrow> 'x world \<Rightarrow> bool" for env where
  quiet: "quiet w w' \<Longrightarrow> op_step env w w'"
| load: "loads env w d h k e w' \<Longrightarrow> op_step env w w'"
| sign: "\<lbrakk>accounts w k = Some (AOp x); oi_status x = StInit \<or> oi_status x = StSigned;
          env_find_pda env [ROOT, str ''OP'', h] (env_photon_id env) = Some (k, b);
          env_find_pda env [ROOT, str ''PROTOCOL'', od_protocol_id (oi_op_data x)]
            (env_photon_id env) = Some (kp, bp);
          accounts w kp = Some (AProtocol p);
          consensus_rate (length (signers_of x)) (length (transmitters_of p)) <
            unat (pi_consensus_target_rate p);
          signs env w h k e x p sigs w'\<rbrakk> \<Longrightarrow> op_step env w w'"
| exec: "\<lbrakk>accounts w k = Some (AOp x); oi_status x = StSigned; quiet w w1;
          env_find_pda env [ROOT, str ''OP'', h] (env_photon_id env) = Some (k, b);
          accounts w' = (accounts w1)(k \<mapsto> AOp (x\<lparr>oi_status := StExecuted\<rparr>));
          events w' = events w1 @ [ProposalExecuted h e]\<rbrakk> \<Longrightarrow> op_step env w w'"

lemma ops_update:
  "accounts w' = (accounts w)(k \<mapsto> a) \<Longrightarrow>
   ops w' = (ops w)(k := (case a of AOp x \<Rightarrow> Some x | _ \<Rightarrow> None))"
  by (auto simp: ops_def fun_eq_iff split: account.splits)

lemma ops_keep2:
  assumes "accounts w' = (accounts w)(k1 \<mapsto> a1, k2 \<mapsto> a2)"
    and "ops w k1 = None" "ops w k2 = None" "\<forall>x. a1 \<noteq> AOp x" "\<forall>x. a2 \<noteq> AOp x"
  shows "ops w' = ops w"
  using assms by (auto simp: ops_def fun_eq_iff split: account.splits)

lemma current_ops: "current w k z a \<Longrightarrow> \<forall>x. a \<noteq> AOp x \<Longrightarrow> ops w k = None"
  by (auto simp: current_def ops_def split: account.splits)

lemma quiet_refl [simp]: "quiet w w"
  by (simp add: quiet_def)

lemma quiet_same: "accounts w' = accounts w \<Longrightarrow> events w' = events w \<Longrightarrow> quiet w w'"
  by (auto simp: quiet_def ops_def fun_eq_iff)

lemma receives_quiet: "receives env w h code x kt kc w' \<Longrightarrow> quiet w w'"
  unfolding receives_def quiet_def
  by (elim exE conjE)
    (auto dest!: handle_gov_effect current_ops intro!: ops_keep2)

lemma initialize_quiet: "initialize env a chain master rate ts es w = Inr w' \<Longrightarrow> quiet w w'"
  by (erule initialize_effect) (auto simp: quiet_def dest!: current_ops intro!: ops_keep2)

lemma propose_quiet: "propose env a pid dst addr sel ps w = Inr w' \<Longrightarrow> quiet w w'"
  by (auto simp: quiet_def ops_update dest!: propose_effect)
    (auto simp: ops_def)

lemma set_admin_quiet: "set_admin env a admin w = Inr w' \<Longrightarrow> quiet w w'"
  by (auto simp: quiet_def ops_update dest!: set_admin_effect) (auto simp: ops_def)

lemma cpi_quiet: "cpi_ok env \<Longrightarrow> env_invoke_signed env ix infos seeds w = Inr w' \<Longrightarrow> quiet w w'"
  unfolding cpi_ok_def by (metis quiet_same receive_photon_msg_effect receives_quiet)

lemma call_op_step:
  assumes cpi: "cpi_ok env" and c: "exec_call env c w = Inr w'"
  shows "op_step env w w'"
proof (cases c)
  case (Initialize a chain master rate ts es)
  with c show ?thesis by (auto intro: op_step.quiet initialize_quiet)
next
  case (LoadOperation a d h)
  with c show ?thesis by (auto intro: op_step.load dest!: load_operation_effect)
next
  case (SignOperation a h sigs)
  with c obtain b where "sign_operation env a h sigs w = Inr (w', b)"
    by (auto simp: result_simps)
  then show ?thesis
  proof (rule sign_operation_effect)
    fix x p
    assume acc: "sign_operation_accounts env a h w = Inr (x, p)"
      and "(unat (pi_consensus_target_rate p) \<le>
            consensus_rate (length (signers_of x)) (length (transmitters_of p)) \<and> w' = w \<and> b)
       \<or> (consensus_rate (length (signers_of x)) (length (transmitters_of p)) <
            unat (pi_consensus_target_rate p)
          \<and> signs env w h (ai_key (sg_op_info a)) (ai_key (sg_executor a)) x p sigs w')"
    then consider "w' = w"
      | "consensus_rate (length (signers_of x)) (length (transmitters_of p)) <
            unat (pi_consensus_target_rate p)
          \<and> signs env w h (ai_key (sg_op_info a)) (ai_key (sg_executor a)) x p sigs w'" by blast
    then show ?thesis
    proof cases
      case 2
      then show ?thesis
        using acc unfolding sign_operation_accounts_effect by (blast intro: op_step.sign)
    qed (simp add: op_step.quiet)
  qed
next
  case (ExecuteOperation a rem h)
  with c have "execute_operation env a rem h w = Inr w'" by simp
  from execute_operation_effect [OF this] cpi show ?thesis
    unfolding execute_operation_accounts_effect by (blast intro: op_step.exec dest: cpi_quiet)
next
  case (Propose a pid dst addr sel ps)
  with c show ?thesis by (auto intro: op_step.quiet propose_quiet)
next
  case (ReceivePhotonMsg a h code ps)
  with c show ?thesis
    by (auto intro: op_step.quiet dest!: receive_photon_msg_effect receives_quiet)
next
  case (SetAdmin a admin)
  with c show ?thesis by (auto intro: op_step.quiet set_admin_quiet)
qed

subsection \<open>The signature loop\<close>

lemma rate_mono: "m \<le> n \<Longrightarrow> consensus_rate m k \<le> consensus_rate n k"
  by (simp add: consensus_rate_def div_le_mono)

text \<open>
  The signers the loop adds are distinct allowed transmitters, each with a signature in the input,
  and the flag says whether the target is met by the recorded signers.
\<close>

lemma sign_loop_sound:
  assumes "sign_loop env allowed target h sigs u = Inr (u', r)"
    and "consensus_rate (length u) (length allowed) < unat target"
  shows "\<exists>new. u' = u @ new \<and> set new \<subseteq> set allowed \<and> (distinct u \<longrightarrow> distinct u')
    \<and> (\<forall>s \<in> set new. \<exists>sig \<in> set sigs. ecrecover (env_keccak env) (env_recover env) h sig = Inr s)
    \<and> (r \<longleftrightarrow> unat target \<le> consensus_rate (length u') (length allowed))"
  using assms
proof (induction sigs arbitrary: u)
  case Nil
  then show ?case by auto
next
  case (Cons sig sigs)
  from Cons.prems(1) obtain t where t: "ecrecover (env_keccak env) (env_recover env) h sig = Inr t"
    by (auto simp: result_simps)
  show ?case
  proof (cases "t \<in> set allowed \<and> t \<notin> set u")
    case False
    with Cons.prems t have "sign_loop env allowed target h sigs u = Inr (u', r)" by auto
    from Cons.IH [OF this Cons.prems(2)] show ?thesis by auto
  next
    case new: True
    show ?thesis
    proof (cases "unat target \<le> consensus_rate (length (u @ [t])) (length allowed)")
      case True
      with Cons.prems(1) t new have "u' = u @ [t]" "r" by (auto simp: Let_def)
      with True new t show ?thesis by (intro exI [of _ "[t]"]) auto
    next
      case False
      with Cons.prems(1) t new have "sign_loop env allowed target h sigs (u @ [t]) = Inr (u', r)"
        by (auto simp: Let_def)
      then obtain new' where
        n: "u' = (u @ [t]) @ new'" "set new' \<subseteq> set allowed"
          "distinct (u @ [t]) \<longrightarrow> distinct u'"
          "\<forall>s \<in> set new'. \<exists>sig \<in> set sigs. ecrecover (env_keccak env) (env_recover env) h sig = Inr s"
          "r \<longleftrightarrow> unat target \<le> consensus_rate (length u') (length allowed)"
        using Cons.IH [of "u @ [t]"] False by (simp only: not_le) blast
      from n new t show ?thesis by (intro exI [of _ "t # new'"]) auto
    qed
  qed
qed

text \<open>
  When every signature recovers, the loop meets the target exactly when the recorded signers and
  the allowed transmitters among the recovered addresses meet it together.
\<close>

lemma sign_loop_complete:
  assumes "mapE (ecrecover (env_keccak env) (env_recover env) h) sigs = Inr ts"
    and "distinct u" and "consensus_rate (length u) (length allowed) < unat target"
  shows "\<exists>u' r. sign_loop env allowed target h sigs u = Inr (u', r)
    \<and> (r \<longleftrightarrow> unat target \<le>
          consensus_rate (card (set u \<union> (set ts \<inter> set allowed))) (length allowed))"
  using assms
proof (induction sigs arbitrary: u ts)
  case Nil
  then show ?case by (auto simp: distinct_card)
next
  case (Cons sig sigs)
  from Cons.prems(1) obtain t ts' where
    t: "ecrecover (env_keccak env) (env_recover env) h sig = Inr t"
    and ts: "ts = t # ts'" "mapE (ecrecover (env_keccak env) (env_recover env) h) sigs = Inr ts'"
    by (auto simp: result_simps)
  show ?case
  proof (cases "t \<in> set allowed \<and> t \<notin> set u")
    case False
    then have "set u \<union> (set ts \<inter> set allowed) = set u \<union> (set ts' \<inter> set allowed)"
      using ts(1) by auto
    with False t Cons.IH [OF ts(2) Cons.prems(2,3)] show ?thesis by auto
  next
    case new: True
    then have s: "set u \<union> (set ts \<inter> set allowed) = set (u @ [t]) \<union> (set ts' \<inter> set allowed)"
      using ts(1) by auto
    show ?thesis
    proof (cases "unat target \<le> consensus_rate (length (u @ [t])) (length allowed)")
      case True
      have "card (set (u @ [t])) \<le> card (set u \<union> (set ts \<inter> set allowed))"
        unfolding s by (intro card_mono) auto
      then have "length (u @ [t]) \<le> card (set u \<union> (set ts \<inter> set allowed))"
        using new Cons.prems(2) by (simp add: distinct_card)
      then have "unat target \<le>
          consensus_rate (card (set u \<union> (set ts \<inter> set allowed))) (length allowed)"
        using True rate_mono order_trans by blast
      with True t new show ?thesis
        by (intro exI [of _ "u @ [t]"] exI [of _ True]) (simp add: Let_def)
    next
      case False
      have "distinct (u @ [t])" using new Cons.prems(2) by simp
      from Cons.IH [OF ts(2) this] False new t show ?thesis
        unfolding s by (simp add: Let_def not_le)
    qed
  qed
qed

subsection \<open>The state of an operation\<close>

text \<open>
  What is always true of an operation's account at address \<open>k\<close>: the address is derived from the
  operation's own hash, the operation is for this chain and of a protocol with a 32-byte id, it has
  left \<open>None\<close>, and every recorded signer has signed that hash.
\<close>

definition op_inv :: "'x env \<Rightarrow> bytes \<Rightarrow> op_info \<Rightarrow> bool" where
  "op_inv env k x \<longleftrightarrow>
     (\<exists>h b. env_find_pda env [ROOT, str ''OP'', h] (env_photon_id env) = Some (k, b)
       \<and> op_hash_with_message (env_keccak env) (oi_op_data x) = Inr h
       \<and> (\<forall>s \<in> set (signers_of x). \<exists>sig. ecrecover (env_keccak env) (env_recover env) h sig = Inr s))
     \<and> od_dest_chain_id (oi_op_data x) = SOLANA_CHAIN_ID (env_network env)
     \<and> length (od_protocol_id (oi_op_data x)) = 32
     \<and> od_protocol_id (oi_op_data x) \<noteq> replicate 32 0
     \<and> oi_status x \<noteq> StNone
     \<and> length (oi_unique_signers x) = 16 \<and> distinct (signers_of x)"

lemma signers_of_signed:
  assumes "u = signers_of x @ new" "eth_default \<notin> set new"
  shows "signers_of (x\<lparr>oi_unique_signers := u @ replicate n eth_default, oi_status := s\<rparr>) = u"
proof -
  have "eth_default \<notin> set u" using assms by (auto simp: signers_of_def)
  then show ?thesis by (auto simp: signers_of_def filter_id_conv)
qed

text \<open>What signing does to the account: new signers at the end, the status only upwards.\<close>

lemma signs_account:
  assumes "signs env w h k e x p sigs w'"
    and rate: "consensus_rate (length (signers_of x)) (length (transmitters_of p)) <
      unat (pi_consensus_target_rate p)"
  obtains x' new where "accounts w' = (accounts w)(k \<mapsto> AOp x')"
    "signers_of x' = signers_of x @ new" "set new \<subseteq> set (transmitters_of p)"
    "distinct (signers_of x) \<longrightarrow> distinct (signers_of x')"
    "\<forall>s \<in> set new. \<exists>sig \<in> set sigs. ecrecover (env_keccak env) (env_recover env) h sig = Inr s"
    "oi_op_data x' = oi_op_data x" "length (oi_unique_signers x') = 16"
    "length (signers_of x') \<le> 16"
    "(oi_status x' = StSigned \<and> events w' = events w @ [ProposalApproved h e]
        \<and> unat (pi_consensus_target_rate p) \<le>
            consensus_rate (length (signers_of x')) (length (transmitters_of p)))
     \<or> (oi_status x' = oi_status x \<and> events w' = events w
        \<and> consensus_rate (length (signers_of x')) (length (transmitters_of p)) <
            unat (pi_consensus_target_rate p))"
proof -
  from assms(1) obtain u r where u: "length u \<le> 16"
      "sign_loop env (transmitters_of p) (pi_consensus_target_rate p) h sigs (signers_of x) = Inr (u, r)"
    and w': "accounts w' = (accounts w)(k \<mapsto> AOp (x\<lparr>oi_unique_signers :=
            u @ replicate (16 - length u) eth_default,
            oi_status := (if r then StSigned else oi_status x)\<rparr>))" (is "_ = _(k \<mapsto> AOp ?x)")
      "events w' = events w @ (if r then [ProposalApproved h e] else [])"
    unfolding signs_def by blast
  from sign_loop_sound [OF u(2) rate] obtain new where
    n: "u = signers_of x @ new" "set new \<subseteq> set (transmitters_of p)"
      "distinct (signers_of x) \<longrightarrow> distinct u"
      "\<forall>s \<in> set new. \<exists>sig \<in> set sigs. ecrecover (env_keccak env) (env_recover env) h sig = Inr s"
      "r \<longleftrightarrow> unat (pi_consensus_target_rate p) \<le> consensus_rate (length u) (length (transmitters_of p))"
    by blast
  have s: "signers_of ?x = u"
    using n(2) tr.read_dflt [of p] by (intro signers_of_signed [OF n(1)]) auto
  show ?thesis
  proof (rule that [of ?x new])
    show "(oi_status ?x = StSigned \<and> events w' = events w @ [ProposalApproved h e]
        \<and> unat (pi_consensus_target_rate p) \<le>
            consensus_rate (length (signers_of ?x)) (length (transmitters_of p)))
     \<or> (oi_status ?x = oi_status x \<and> events w' = events w
        \<and> consensus_rate (length (signers_of ?x)) (length (transmitters_of p)) <
            unat (pi_consensus_target_rate p))"
      unfolding s using n(5) w'(2) by (cases r) auto
  qed (use n w' s u(1) in simp_all)
qed

lemma op_inv_signed:
  assumes inj: "op_pda_inj env" and x: "op_inv env k x"
    and k: "env_find_pda env [ROOT, str ''OP'', h] (env_photon_id env) = Some (k, b)"
    and s: "signers_of x' = signers_of x @ new" "distinct (signers_of x) \<longrightarrow> distinct (signers_of x')"
      "\<forall>s \<in> set new. \<exists>sig \<in> set sigs. ecrecover (env_keccak env) (env_recover env) h sig = Inr s"
    and x': "oi_op_data x' = oi_op_data x" "length (oi_unique_signers x') = 16" "oi_status x' \<noteq> StNone"
  shows "op_inv env k x'"
proof -
  from x obtain h' b' where h': "env_find_pda env [ROOT, str ''OP'', h'] (env_photon_id env) = Some (k, b')"
      "op_hash_with_message (env_keccak env) (oi_op_data x) = Inr h'"
      "\<forall>s \<in> set (signers_of x). \<exists>sig. ecrecover (env_keccak env) (env_recover env) h' sig = Inr s"
    unfolding op_inv_def by blast
  with inj k have "h' = h" unfolding op_pda_inj_def by blast
  with h' s have "\<forall>s \<in> set (signers_of x'). \<exists>sig. ecrecover (env_keccak env) (env_recover env) h' sig = Inr s"
    by auto
  with x x' s h'(1,2) show ?thesis unfolding op_inv_def by auto
qed

lemma op_inv_step:
  assumes "op_step env w w'" and inj: "op_pda_inj env"
    and inv: "\<And>k x. ops w k = Some x \<Longrightarrow> op_inv env k x"
    and x': "ops w' k = Some x'"
  shows "op_inv env k x'"
  using assms(1)
proof cases
  case quiet
  with inv x' show ?thesis by (auto simp: quiet_def)
next
  case (load d h k' e)
  then have o: "ops w' = (ops w)(k' := Some \<lparr>oi_status = StInit,
      oi_unique_signers = replicate 16 eth_default, oi_op_data = d\<rparr>)"
    by (simp add: loads_def ops_update)
  show ?thesis
  proof (cases "k = k'")
    case True
    with o x' load show ?thesis by (auto simp: op_inv_def loads_def signers_of_def)
  qed (use o x' inv in auto)
next
  case (sign k' x h b kp bp p e sigs)
  from sign(7,6) obtain x1 new where u: "accounts w' = (accounts w)(k' \<mapsto> AOp x1)"
    "signers_of x1 = signers_of x @ new"
    "distinct (signers_of x) \<longrightarrow> distinct (signers_of x1)"
    "\<forall>s \<in> set new. \<exists>sig \<in> set sigs. ecrecover (env_keccak env) (env_recover env) h sig = Inr s"
    "oi_op_data x1 = oi_op_data x" "length (oi_unique_signers x1) = 16"
    "oi_status x1 = StSigned \<or> oi_status x1 = oi_status x"
    by (rule signs_account) blast+
  from u(1) have o: "ops w' = (ops w)(k' := Some x1)" by (simp add: ops_update)
  show ?thesis
  proof (cases "k = k'")
    case True
    with o x' have "x' = x1" by simp
    moreover have "op_inv env k x1"
      using op_inv_signed [OF inj inv sign(3) u(2,3,4,5,6)] True sign(1,2) u(7)
      by (auto simp: ops_Some)
    ultimately show ?thesis by simp
  qed (use o x' inv in auto)
next
  case (exec k' x w1 h b e)
  from exec have o: "ops w' = (ops w)(k' := Some (x\<lparr>oi_status := StExecuted\<rparr>))"
    by (simp add: ops_update quiet_def)
  show ?thesis
  proof (cases "k = k'")
    case True
    with o x' have "x' = x\<lparr>oi_status := StExecuted\<rparr>" by simp
    moreover from inv [of k' x] exec(1) have "op_inv env k' x" by (simp add: ops_Some)
    ultimately show ?thesis using True by (simp add: op_inv_def signers_of_def)
  qed (use o x' inv in auto)
qed

lemma ops_foreign [simp]: "ops (w\<lparr>foreign := x\<rparr>) = ops w"
  by (simp add: ops_def fun_eq_iff)

lemma reachable_op_inv:
  assumes "reachable env w" "cpi_ok env" "op_pda_inj env"
  shows "ops w k = Some x \<Longrightarrow> op_inv env k x"
  using assms(1)
proof (induction arbitrary: k x rule: reachable.induct)
  case (genesis x)
  then show ?case by (simp add: ops_def)
next
  case (call w c w')
  from op_inv_step [OF call_op_step [OF assms(2) call.hyps(3)] assms(3) call.IH call.prems]
  show ?case .
next
  case (outside w x)
  then show ?case by simp
qed

subsection \<open>Refinement of the lifecycle\<close>

definition status_of :: "'x env \<Rightarrow> 'x world \<Rightarrow> bytes \<Rightarrow> op_status" where
  "status_of env w h =
     (case env_find_pda env [ROOT, str ''OP'', h] (env_photon_id env) of
        None \<Rightarrow> StNone
      | Some (k, b) \<Rightarrow> (case ops w k of None \<Rightarrow> StNone | Some x \<Rightarrow> oi_status x))"

definition lifecycle_events :: "event list \<Rightarrow> event list" where
  "lifecycle_events evs = filter (\<lambda>e. \<not> is_propose e) evs"

lemma quiet_lifecycle: "quiet w w' \<Longrightarrow> lifecycle_events (events w') = lifecycle_events (events w)"
  by (auto simp: quiet_def lifecycle_events_def list_all_iff filter_empty_conv)

lemma status_of_cong: "ops w' = ops w \<Longrightarrow> status_of env w' = status_of env w"
  by (rule ext) (simp only: status_of_def)

lemma quiet_status: "quiet w w' \<Longrightarrow> status_of env w' = status_of env w"
  unfolding quiet_def by (blast intro: status_of_cong)

lemma status_update:
  assumes "op_pda_inj env" "env_find_pda env [ROOT, str ''OP'', h] (env_photon_id env) = Some (k, b)"
    and "ops w' = (ops w)(k := Some x)"
  shows "status_of env w' = (status_of env w)(h := oi_status x)"
proof
  fix h'
  show "status_of env w' h' = ((status_of env w)(h := oi_status x)) h'"
  proof (cases "h' = h")
    case False
    then have "env_find_pda env [ROOT, str ''OP'', h'] (env_photon_id env) \<noteq> Some (k, b')" for b'
      using assms(1,2) unfolding op_pda_inj_def by blast
    with False assms(3) show ?thesis
      by (auto simp: status_of_def split: option.splits)
  qed (use assms(2,3) in \<open>simp add: status_of_def\<close>)
qed

lemma status_of_op:
  "env_find_pda env [ROOT, str ''OP'', h] (env_photon_id env) = Some (k, b) \<Longrightarrow>
   accounts w k = Some (AOp x) \<Longrightarrow> status_of env w h = oi_status x"
  by (simp add: status_of_def ops_def)

lemma lstep_sign:
  assumes st: "status_of env w h = s" "s \<in> {StInit, StSigned}"
    and s': "status_of env w' = (status_of env w)(h := s')"
    and e: "(s' = StSigned \<and> events w' = events w @ [ProposalApproved h e]) \<or> (s' = s \<and> events w' = events w)"
  shows "\<exists>l. lstep (status_of env w) l (status_of env w')
    \<and> lifecycle_events (events w') = lifecycle_events (events w) @ l"
  using e
proof
  assume "s' = StSigned \<and> events w' = events w @ [ProposalApproved h e]"
  then show ?thesis using st s'
    by (intro exI [of _ "[ProposalApproved h e]"]) (simp add: lstep.approved lifecycle_events_def)
next
  assume "s' = s \<and> events w' = events w"
  moreover from this have "(status_of env w)(h := s') = status_of env w"
    using st by (simp add: fun_upd_idem)
  ultimately show ?thesis using s' by (intro exI [of _ "[]"]) (simp add: lstep.skip)
qed

lemma op_step_lstep:
  assumes "op_step env w w'" and inj: "op_pda_inj env"
  shows "\<exists>l. lstep (status_of env w) l (status_of env w')
    \<and> lifecycle_events (events w') = lifecycle_events (events w) @ l"
  using assms(1)
proof cases
  case quiet
  then show ?thesis
    by (intro exI [of _ "[]"]) (simp add: quiet_lifecycle quiet_status lstep.skip)
next
  case (load d h k e)
  then obtain b where pda: "env_find_pda env [ROOT, str ''OP'', h] (env_photon_id env) = Some (k, b)"
      and k: "accounts w k = None"
      and w': "accounts w' = (accounts w)(k \<mapsto> AOp \<lparr>oi_status = StInit,
        oi_unique_signers = replicate 16 eth_default, oi_op_data = d\<rparr>)"
        "events w' = events w @ [ProposalLoaded h e]"
    unfolding loads_def by blast
  have "status_of env w h = StNone" using pda k by (simp add: status_of_def ops_def)
  moreover have "status_of env w' = (status_of env w)(h := StInit)"
    using status_update [OF inj pda, of w' w] w'(1) by (simp add: ops_update)
  ultimately show ?thesis
    using w'(2) by (intro exI [of _ "[ProposalLoaded h e]"])
      (simp add: lstep.loaded lifecycle_events_def)
next
  case (sign k x h b kp bp p e sigs)
  note pda = sign(3) and st = status_of_op [OF sign(3,1)]
  from sign(7,6) obtain x' where w': "accounts w' = (accounts w)(k \<mapsto> AOp x')"
    and s: "(oi_status x' = StSigned \<and> events w' = events w @ [ProposalApproved h e])
      \<or> (oi_status x' = oi_status x \<and> events w' = events w)"
    by (rule signs_account) blast+
  have s': "status_of env w' = (status_of env w)(h := oi_status x')"
    using status_update [OF inj pda, of w' w x'] w' by (simp add: ops_update)
  show ?thesis by (rule lstep_sign [OF st _ s' s]) (use sign(2) in simp)
next
  case (exec k x w1 h b e)
  note pda = exec(4)
  have "status_of env w' = (status_of env w)(h := StExecuted)"
    using status_update [OF inj pda, of w' w "x\<lparr>oi_status := StExecuted\<rparr>"] exec(3,5)
    by (simp add: ops_update quiet_def)
  moreover have "status_of env w h = StSigned" using status_of_op [OF pda exec(1)] exec(2) by simp
  ultimately show ?thesis
    using exec(6) quiet_lifecycle [OF exec(3)]
    by (intro exI [of _ "[ProposalExecuted h e]"]) (simp add: lstep.executed lifecycle_events_def)
qed

lemma reachable_lreach:
  assumes "reachable env w" "cpi_ok env" "op_pda_inj env"
  shows "lreach (status_of env w) (lifecycle_events (events w))"
  using assms(1)
proof (induction rule: reachable.induct)
  case (genesis x)
  have "status_of env \<lparr>accounts = \<lambda>_. None, events = [], foreign = x\<rparr> = (\<lambda>_. StNone)"
    by (auto simp: status_of_def ops_def fun_eq_iff split: option.splits)
  then show ?case by (simp add: lifecycle_events_def lreach.start)
next
  case (call w c w')
  then obtain l where "lstep (status_of env w) l (status_of env w')"
      "lifecycle_events (events w') = lifecycle_events (events w) @ l"
    using op_step_lstep [OF call_op_step [OF assms(2)] assms(3)] by blast
  with call.IH show ?case by (metis lreach.next_step)
next
  case (outside w x)
  then show ?case using status_of_cong [of "w\<lparr>foreign := x\<rparr>" w env] by simp
qed

lemma op_trace_lifecycle: "op_trace h (lifecycle_events evs) = op_trace h evs"
proof (induction evs)
  case (Cons e evs)
  then show ?case by (cases e) (simp_all add: lifecycle_events_def)
qed (simp add: lifecycle_events_def)

subsection \<open>Proposal nonces\<close>

fun proposal :: "event \<Rightarrow> propose_event list" where
  "proposal (ProposeEvent p) = [p]"
| "proposal _ = []"

definition proposals :: "event list \<Rightarrow> propose_event list" where
  "proposals evs = concat (List.map proposal evs)"

lemma proposals_append [simp]: "proposals (xs @ ys) = proposals xs @ proposals ys"
  and proposals_simps [simp]: "proposals [] = []" "proposals (e # ys) = proposal e @ proposals ys"
  by (simp_all add: proposals_def)

text \<open>The nonce in the config account, 0 while there is none.\<close>

definition config_nonce :: "'x env \<Rightarrow> 'x world \<Rightarrow> nat" where
  "config_nonce env w =
     (case env_find_pda env [ROOT, str ''CONFIG''] (env_photon_id env) of
        None \<Rightarrow> 0
      | Some (kc, b) \<Rightarrow> (case accounts w kc of Some (AConfig c) \<Rightarrow> unat (conf_nonce c) | _ \<Rightarrow> 0))"

definition nonce_step :: "'x env \<Rightarrow> 'x world \<Rightarrow> 'x world \<Rightarrow> bool" where
  "nonce_step env w w' \<longleftrightarrow> config_nonce env w \<le> config_nonce env w' \<and>
     (\<exists>new. proposals (events w') = proposals (events w) @ new
      \<and> List.map (\<lambda>p. unat (pe_nonce p)) new = [config_nonce env w ..< config_nonce env w'])"

lemma nonce_step_trans:
  assumes "nonce_step env w w1" "nonce_step env w1 w2"
  shows "nonce_step env w w2"
proof -
  from assms obtain n1 n2 where
    "proposals (events w1) = proposals (events w) @ n1"
    "List.map (\<lambda>p. unat (pe_nonce p)) n1 = [config_nonce env w ..< config_nonce env w1]"
    "proposals (events w2) = proposals (events w1) @ n2"
    "List.map (\<lambda>p. unat (pe_nonce p)) n2 = [config_nonce env w1 ..< config_nonce env w2]"
    "config_nonce env w \<le> config_nonce env w1" "config_nonce env w1 \<le> config_nonce env w2"
    by (auto simp: nonce_step_def)
  then show ?thesis
    unfolding nonce_step_def
    by (intro conjI exI [of _ "n1 @ n2"])
      (auto simp: upt_join)
qed

lemma nonce_step_same:
  "config_nonce env w' = config_nonce env w \<Longrightarrow> proposals (events w') = proposals (events w) \<Longrightarrow>
   nonce_step env w w'"
  by (simp add: nonce_step_def)

lemma config_nonce_op:
  "accounts w' = (accounts w)(k \<mapsto> AOp x) \<Longrightarrow> \<forall>c. accounts w k \<noteq> Some (AConfig c) \<Longrightarrow>
   config_nonce env w' = config_nonce env w"
  by (auto simp: config_nonce_def split: option.splits account.splits)

lemma config_nonce_cong: "accounts w' = accounts w \<Longrightarrow> config_nonce env w' = config_nonce env w"
  by (simp only: config_nonce_def)

lemma nonce_step_op:
  assumes "accounts w' = (accounts w)(k \<mapsto> AOp x')" "accounts w k = Some (AOp x)"
    and "proposals (events w') = proposals (events w)"
  shows "nonce_step env w w'"
  using assms by (intro nonce_step_same config_nonce_op [OF assms(1)]) auto

lemma config_nonce_at:
  "env_find_pda env [ROOT, str ''CONFIG''] (env_photon_id env) = Some (kc, b) \<Longrightarrow>
   accounts w kc = Some (AConfig c) \<Longrightarrow> config_nonce env w = unat (conf_nonce c)"
  by (simp add: config_nonce_def)

lemma config_nonce_current:
  "env_find_pda env [ROOT, str ''CONFIG''] (env_photon_id env) = Some (kc, b) \<Longrightarrow>
   current w kc (AConfig config_default) (AConfig c) \<Longrightarrow> config_nonce env w = unat (conf_nonce c)"
  by (auto simp: config_nonce_def current_def config_default_def)

lemma receives_nonce:
  assumes "receives env w h code x kt kc w'"
  shows "nonce_step env w w'"
proof -
  from assms obtain b c c' t t' evs where
    pda: "env_find_pda env [ROOT, str ''CONFIG''] (env_photon_id env) = Some (kc, b)" and ne: "kt \<noteq> kc"
    and c: "current w kc (AConfig config_default) (AConfig c)"
    and g: "handle_gov_operation env c t code (oi_op_data x) = Inr (c', t', evs)"
    and w': "accounts w' = (accounts w)(kc \<mapsto> AConfig c', kt \<mapsto> AProtocol t')"
      "events w' = events w @ evs"
    unfolding receives_def by blast
  have n: "config_nonce env w = unat (conf_nonce c)" by (rule config_nonce_current [OF pda c])
  have n': "config_nonce env w' = unat (conf_nonce c')"
    using w'(1) ne by (intro config_nonce_at [OF pda]) simp
  from handle_gov_effect [OF g] show ?thesis
    using n n' w'(2) unat_inc [of "conf_nonce c"] by (auto simp: nonce_step_def)
qed

lemma initialize_nonce:
  "initialize env a chain master rate ts es w = Inr w' \<Longrightarrow> nonce_step env w w'"
proof (erule initialize_effect)
  fix p2 c b'
  assume pda: "env_find_pda env [ROOT, str ''CONFIG''] (env_photon_id env) = Some (ai_key (in_config a), b')"
    and c: "current w (ai_key (in_config a)) (AConfig config_default) (AConfig c)"
    and w': "accounts w' = (accounts w)(ai_key (in_protocol_info a) \<mapsto> AProtocol p2,
       ai_key (in_config a) \<mapsto> AConfig (c\<lparr>conf_admin := ai_key (in_admin a),
         conf_eob_chain_id := chain, conf_eob_master := master\<rparr>))" "events w' = events w"
  have "config_nonce env w' = unat (conf_nonce c)"
    using config_nonce_at [OF pda, of w'] w'(1) by simp
  with config_nonce_current [OF pda c] w'(2) show ?thesis by (intro nonce_step_same) simp_all
qed

lemma propose_nonce: "propose env a pid dst addr sel ps w = Inr w' \<Longrightarrow> nonce_step env w w'"
  using config_nonce_at [of env "ai_key (pp_config a)"] unat_inc
  by (fastforce simp: nonce_step_def dest!: propose_effect)

lemma set_admin_nonce: "set_admin env a admin w = Inr w' \<Longrightarrow> nonce_step env w w'"
  using config_nonce_at [of env "ai_key (sa_config a)"]
  by (fastforce simp: nonce_step_def dest!: set_admin_effect)

lemma cpi_nonce:
  "cpi_ok env \<Longrightarrow> env_invoke_signed env ix infos seeds w = Inr w' \<Longrightarrow> nonce_step env w w'"
  unfolding cpi_ok_def
  by (metis nonce_step_same receive_photon_msg_effect receives_nonce config_nonce_cong)

lemma call_nonce:
  assumes cpi: "cpi_ok env" and c: "exec_call env c w = Inr w'"
  shows "nonce_step env w w'"
proof (cases c)
  case (LoadOperation a d h)
  with c show ?thesis
    by (auto simp: loads_def dest!: load_operation_effect intro!: nonce_step_same config_nonce_op)
next
  case (SignOperation a h sigs)
  with c obtain b where "sign_operation env a h sigs w = Inr (w', b)"
    by (auto simp: result_simps)
  then show ?thesis
    by (rule sign_operation_effect)
      (auto simp: signs_def sign_operation_accounts_effect intro: nonce_step_same elim: nonce_step_op)
next
  case (ExecuteOperation a rem h)
  with c have "execute_operation env a rem h w = Inr w'" by simp
  from execute_operation_effect [OF this] obtain x bump w1 where
    x: "execute_operation_accounts env a h w = Inr (x, bump)"
    and n: "nonce_step env w w1" "quiet w w1"
    and w': "accounts w' = (accounts w1)(ai_key (ec_op_info a) \<mapsto> AOp (x\<lparr>oi_status := StExecuted\<rparr>))"
      "events w' = events w1 @ [ProposalExecuted h (ai_key (ec_executor a))]"
    using cpi_nonce [OF cpi] cpi_quiet [OF cpi] by blast
  from x n(2) have "ops w1 (ai_key (ec_op_info a)) = Some x"
    by (simp add: execute_operation_accounts_effect quiet_def ops_Some)
  with w' have "nonce_step env w1 w'"
    by (intro nonce_step_same config_nonce_op) (auto simp: ops_Some)
  with n(1) show ?thesis by (rule nonce_step_trans)
qed (use c in \<open>auto intro: initialize_nonce propose_nonce set_admin_nonce receives_nonce
      dest!: receive_photon_msg_effect\<close>)

lemma reachable_nonces:
  assumes "reachable env w" "cpi_ok env"
  shows "List.map (\<lambda>p. unat (pe_nonce p)) (proposals (events w)) = [0 ..< config_nonce env w]"
  using assms(1)
proof (induction rule: reachable.induct)
  case (genesis x)
  then show ?case by (simp add: config_nonce_def split: option.splits)
next
  case (call w c w')
  with call_nonce [OF assms(2) call.hyps(3)] show ?case
    using upt_join [of 0 "config_nonce env w" "config_nonce env w'"]
    by (auto simp: nonce_step_def)
next
  case (outside w x)
  then show ?case using config_nonce_cong [of "w\<lparr>foreign := x\<rparr>" w env] by simp
qed

end
