(* ===== verification/Protocol_Records.thy ===== *)
theory Protocol_Records
  imports Endpoint_Inv
begin

section \<open>The protocol records of reachable worlds\<close>

text \<open>
  What holds of every protocol record that the instructions of the endpoint (\<open>Endpoint\<close>) and the operations of
  governance (\<open>Gov\<close>) can produce. \<open>record_invariant\<close> is the contract of such an invariant: it holds of the fresh
  record and is kept by governance and by \<^verbatim>\<open>initialize\<close>; then it holds in every reachable world. It is
  interpreted twice: on the widths of the arrays, and on the content of the rosters and the target rate.
\<close>

locale record_invariant =
  fixes holds :: "'x env \<Rightarrow> bytes \<Rightarrow> protocol_info \<Rightarrow> bool"
  assumes fresh: "holds env k protocol_info_default"
    and governed: "holds env k p \<Longrightarrow> handle_gov_operation env c p code d = Inr (c', p', evs) \<Longrightarrow> holds env k p'"
    and initialised: "\<lbrakk>holds env k p;
      env_find_pda env [ROOT, str ''PROTOCOL'', gov_protocol_id] (env_photon_id env) = Some (k, b);
      \<forall>t \<in> set ts. length t = 20; \<forall>e \<in> set es. length e = 32;
      set_transmitters ts (p\<lparr>pi_is_init := True, pi_protocol_address := env_photon_id env,
        pi_consensus_target_rate := rate\<rparr>) = Inr p1; set_executors es p1 = Inr p2\<rbrakk> \<Longrightarrow> holds env k p2"
begin

definition everywhere :: "'x env \<Rightarrow> 'x world \<Rightarrow> bool" where
  "everywhere env w \<longleftrightarrow> (\<forall>k p. accounts w k = Some (AProtocol p) \<longrightarrow> holds env k p)"

lemma everywhere_op: "accounts w' = (accounts w)(k \<mapsto> AOp x) \<Longrightarrow> everywhere env w \<Longrightarrow> everywhere env w'"
  and everywhere_config: "accounts w' = (accounts w)(k \<mapsto> AConfig c) \<Longrightarrow> everywhere env w \<Longrightarrow> everywhere env w'"
  and everywhere_same: "accounts w' = accounts w \<Longrightarrow> everywhere env w \<Longrightarrow> everywhere env w'"
  by (auto simp: everywhere_def)

lemma current_holds:
  "current w k (AProtocol protocol_info_default) (AProtocol p) \<Longrightarrow> everywhere env w \<Longrightarrow> holds env k p"
  by (auto simp: current_def everywhere_def fresh)

lemma receives_keeps:
  assumes "receives env w h code x kt kc w'" "everywhere env w"
  shows "everywhere env w'"
proof -
  from assms(1) obtain c c' t t' evs where
    t: "current w kt (AProtocol protocol_info_default) (AProtocol t)"
    and g: "handle_gov_operation env c t code (oi_op_data x) = Inr (c', t', evs)"
    and w': "accounts w' = (accounts w)(kc \<mapsto> AConfig c', kt \<mapsto> AProtocol t')"
    unfolding receives_def by blast
  from governed [OF current_holds [OF t assms(2)] g] w' assms(2) show ?thesis by (simp add: everywhere_def)
qed

lemma initialize_keeps:
  assumes "initialize env a chain master rate ts es w = Inr w'"
    and "\<forall>t \<in> set ts. length t = 20" "\<forall>e \<in> set es. length e = 32" "everywhere env w"
  shows "everywhere env w'"
  using assms(1)
proof (rule initialize_effect)
  fix p p1 p2 c b
  assume k: "env_find_pda env [ROOT, str ''PROTOCOL'', gov_protocol_id] (env_photon_id env) =
      Some (ai_key (in_protocol_info a), b)"
    and p: "current w (ai_key (in_protocol_info a)) (AProtocol protocol_info_default) (AProtocol p)"
    and s: "set_transmitters ts (p\<lparr>pi_is_init := True, pi_protocol_address := env_photon_id env,
       pi_consensus_target_rate := rate\<rparr>) = Inr p1" "set_executors es p1 = Inr p2"
    and w': "accounts w' = (accounts w)(ai_key (in_protocol_info a) \<mapsto> AProtocol p2,
       ai_key (in_config a) \<mapsto> AConfig (c\<lparr>conf_admin := ai_key (in_admin a),
         conf_eob_chain_id := chain, conf_eob_master := master\<rparr>))"
  from initialised [OF current_holds [OF p assms(4)] k assms(2,3) s] w' assms(4)
  show ?thesis by (simp add: everywhere_def)
qed

lemma cpi_keeps:
  assumes "cpi_ok env" "everywhere env w" "env_invoke_signed env ix infos seeds w = Inr w'"
  shows "everywhere env w'"
  using assms unfolding cpi_ok_def by (metis everywhere_same receive_photon_msg_effect receives_keeps)

lemma call_keeps:
  assumes cpi: "cpi_ok env" and t: "call_typed c" and w: "everywhere env w" and c: "exec_call env c w = Inr w'"
  shows "everywhere env w'"
proof (cases c)
  case (Initialize a chain master rate ts es)
  with c t w show ?thesis by (auto intro: initialize_keeps)
next
  case (LoadOperation a d h)
  with c w show ?thesis by (auto simp: loads_def dest!: load_operation_effect elim: everywhere_op)
next
  case (SignOperation a h sigs)
  with c obtain b where "sign_operation env a h sigs w = Inr (w', b)" by (auto simp: result_simps)
  then show ?thesis
    by (rule sign_operation_effect) (use w in \<open>auto simp: signs_def elim: everywhere_op\<close>)
next
  case (ExecuteOperation a rem h)
  with c have "execute_operation env a rem h w = Inr w'" by simp
  from execute_operation_effect [OF this] show ?thesis
    using cpi_keeps [OF cpi w] by (auto elim: everywhere_op)
next
  case (Propose a pid dst addr sel ps)
  with c w show ?thesis by (auto dest!: propose_effect elim: everywhere_config)
next
  case (ReceivePhotonMsg a h code ps)
  with c w show ?thesis by (auto dest!: receive_photon_msg_effect elim: receives_keeps)
next
  case (SetAdmin a admin)
  with c w show ?thesis by (auto dest!: set_admin_effect elim: everywhere_config)
qed

lemma reachable_everywhere:
  assumes "reachable env w" "cpi_ok env"
  shows "everywhere env w"
  using assms(1)
proof (induction rule: reachable.induct)
  case (call w c w')
  then show ?case using call_keeps [OF assms(2)] by blast
qed (simp_all add: everywhere_def)

lemma reachable_holds:
  "reachable env w \<Longrightarrow> cpi_ok env \<Longrightarrow> accounts w k = Some (AProtocol p) \<Longrightarrow> holds env k p"
  using reachable_everywhere by (auto simp: everywhere_def)

end

subsection \<open>The widths of the arrays\<close>

lemma initialised_wf:
  assumes "env_typed env" "protocol_wf p" "\<forall>t \<in> set ts. length t = 20" "\<forall>e \<in> set es. length e = 32"
    and "set_transmitters ts (p\<lparr>pi_is_init := True, pi_protocol_address := env_photon_id env,
       pi_consensus_target_rate := rate\<rparr>) = Inr p1" "set_executors es p1 = Inr p2"
  shows "protocol_wf p2"
  using assms(5,6) assms(1-4)
  by (auto simp: set_transmitters_eq set_executors_eq protocol_wf_def env_typed_def max_defs
      eth_default_def pubkey_default_def split: if_splits)

interpretation widths: record_invariant "\<lambda>env k p. env_typed env \<longrightarrow> protocol_wf p"
proof
  fix env :: "'x env" and k p c code d c' p' evs
  assume "env_typed env \<longrightarrow> protocol_wf p" "handle_gov_operation env c p code d = Inr (c', p', evs)"
  then show "env_typed env \<longrightarrow> protocol_wf p'" using handle_gov_wf by (auto simp: env_typed_def)
next
  fix env :: "'x env" and k p b ts es rate p1 p2
  assume "env_typed env \<longrightarrow> protocol_wf p" "\<forall>t \<in> set ts. length t = 20" "\<forall>e \<in> set es. length e = 32"
    "set_transmitters ts (p\<lparr>pi_is_init := True, pi_protocol_address := env_photon_id env,
       pi_consensus_target_rate := rate\<rparr>) = Inr p1" "set_executors es p1 = Inr p2"
  then show "env_typed env \<longrightarrow> protocol_wf p2" using initialised_wf by blast
qed (simp add: protocol_default_wf)

subsection \<open>The content of the rosters\<close>

text \<open>
  A clean roster: different keys from the first slot on, none of them the default key, and default keys in
  all slots behind them, so that nobody is registered twice and nobody hides behind a gap. A record whose
  target rate is in range: at most 100 percent, and positive once the protocol is registered.
\<close>

definition roster_clean :: "bytes list \<Rightarrow> bool" where
  "roster_clean arr \<longleftrightarrow>
     (let xs = takeWhile (\<lambda>x. x \<noteq> pubkey_default) arr
      in distinct xs \<and> arr = xs @ replicate (20 - length xs) pubkey_default)"

definition rate_in_range :: "protocol_info \<Rightarrow> bool" where
  "rate_in_range p \<longleftrightarrow>
     unat (pi_consensus_target_rate p) \<le> RATE_DECIMALS \<and> (pi_is_init p \<longrightarrow> 0 < unat (pi_consensus_target_rate p))"

lemma roster_clean_written:
  assumes "distinct xs" "pubkey_default \<notin> set xs"
  shows "roster_clean (xs @ replicate (20 - length xs) pubkey_default)"
proof -
  have "takeWhile (\<lambda>x. x \<noteq> pubkey_default) (xs @ replicate n pubkey_default) = xs" for n
    using assms(2) by (induction xs) (cases n, auto)
  with assms(1) show ?thesis by (simp add: roster_clean_def Let_def)
qed

lemma executors_distinct: "roster_clean (pi_executors p) \<Longrightarrow> distinct (executors_of p)"
  and proposers_distinct: "roster_clean (pi_proposers p) \<Longrightarrow> distinct (proposers_of p)"
  by (simp_all add: roster_clean_def Let_def executors_of_def proposers_of_def)

lemma set_executors_clean:
  assumes "set_executors xs p = Inr p'" "distinct xs" "pubkey_default \<notin> set xs"
  shows "roster_clean (pi_executors p')"
  using assms roster_clean_written by (auto simp: set_executors_eq split: if_splits)

lemma set_proposers_clean:
  assumes "set_proposers xs p = Inr p'" "distinct xs" "pubkey_default \<notin> set xs"
  shows "roster_clean (pi_proposers p')"
  using assms roster_clean_written by (auto simp: set_proposers_eq split: if_splits)

lemmas frames = set_executors_frame set_proposers_frame set_transmitters_frame

lemma check_rate_range:
  "check_consensus_target_rate r = Inr u \<Longrightarrow> 0 < unat r \<and> unat r \<le> RATE_DECIMALS"
  by (auto simp: check_consensus_target_rate_def split: if_splits)

definition keeps_clean :: "protocol_info \<Rightarrow> protocol_info \<Rightarrow> bool" where
  "keeps_clean p p' \<longleftrightarrow>
     (roster_clean (pi_executors p) \<longrightarrow> roster_clean (pi_executors p')) \<and>
     (roster_clean (pi_proposers p) \<longrightarrow> roster_clean (pi_proposers p')) \<and>
     (rate_in_range p \<longrightarrow> rate_in_range p')"

lemma executor_ops_clean:
  "add_executor env cd p = Inr p' \<Longrightarrow> keeps_clean p p'"
  "remove_executor env cd pid p = Inr p' \<Longrightarrow> keeps_clean p p'"
  using ex.read_dflt [of p] executors_distinct [of p]
  by (auto simp: add_executor_def remove_executor_def result_simps Let_def keeps_clean_def rate_in_range_def
      split: if_splits dest: set_executors_clean set_executors_frame)

lemma proposer_ops_clean:
  "add_allowed_proposer_address env cd p = Inr p' \<Longrightarrow> keeps_clean p p'"
  "remove_allowed_proposer_address env cd p = Inr p' \<Longrightarrow> keeps_clean p p'"
  using pr.read_dflt [of p] proposers_distinct [of p]
  by (auto simp: add_allowed_proposer_address_def remove_allowed_proposer_address_def result_simps Let_def
      keeps_clean_def rate_in_range_def
      split: if_splits dest: set_proposers_clean set_proposers_frame)

lemma transmitter_ops_clean:
  "set_transmitters ts p = Inr p' \<Longrightarrow> keeps_clean p p'"
  by (auto simp: keeps_clean_def rate_in_range_def dest: set_transmitters_frame)

lemma keeps_clean_trans: "keeps_clean p p' \<Longrightarrow> keeps_clean p' p'' \<Longrightarrow> keeps_clean p p''"
  and keeps_clean_refl [simp]: "keeps_clean p p"
  by (simp_all add: keeps_clean_def)

lemma roster_updates_clean:
  "add_transmitters env cd p = Inr p' \<Longrightarrow> keeps_clean p p'"
  "remove_transmitters env cd p = Inr p' \<Longrightarrow> keeps_clean p p'"
  "update_transmitters env cd p = Inr p' \<Longrightarrow> keeps_clean p p'"
  by (auto simp: add_transmitters_def remove_transmitters_def update_transmitters_def add_transmitters_impl_def
      remove_transmitters_impl_def result_simps Let_def
      split: if_splits dest: transmitter_ops_clean intro: keeps_clean_trans)

lemma rate_ops_clean:
  "set_consensus_target_rate env cd p = Inr p' \<Longrightarrow> keeps_clean p p'"
  "add_allowed_protocol env cd p c = Inr (p', c', ev) \<Longrightarrow> keeps_clean p p'"
  by (auto simp: set_consensus_target_rate_def add_allowed_protocol_def result_simps keeps_clean_def
      rate_in_range_def dest!: check_rate_range)

lemma address_ops_clean:
  "add_allowed_protocol_address env cd p = Inr p' \<Longrightarrow> keeps_clean p p'"
  "keeps_clean p (remove_allowed_protocol_address p)"
  by (auto simp: add_allowed_protocol_address_def remove_allowed_protocol_address_def result_simps keeps_clean_def
      rate_in_range_def)

lemmas gov_op_clean = executor_ops_clean proposer_ops_clean roster_updates_clean rate_ops_clean address_ops_clean

lemma handle_gov_clean:
  assumes "handle_gov_operation env c p code d = Inr (c', p', evs)"
  shows "keeps_clean p p'"
proof -
  from assms obtain g where "gov_dispatch env g c p d = Inr (c', p', evs)"
    by (auto simp: handle_gov_operation_def result_simps split: if_splits)
  then show ?thesis by (cases g) (auto simp: gov_dispatch_def result_simps intro: gov_op_clean)
qed

text \<open>
  \<^verbatim>\<open>initialize\<close> stores the executors and the rate it is given as they are, so of the governance record only the
  proposers are known to be clean.
\<close>

definition record_clean :: "'x env \<Rightarrow> bytes \<Rightarrow> protocol_info \<Rightarrow> bool" where
  "record_clean env k p \<longleftrightarrow>
     roster_clean (pi_proposers p) \<and>
     ((\<exists>b. env_find_pda env [ROOT, str ''PROTOCOL'', gov_protocol_id] (env_photon_id env) = Some (k, b)) \<or>
      roster_clean (pi_executors p) \<and> rate_in_range p)"

interpretation clean: record_invariant record_clean
proof
  fix env :: "'x env" and k
  show "record_clean env k protocol_info_default"
    using roster_clean_written [of "[]"]
    by (simp add: record_clean_def protocol_info_default_def rate_in_range_def)
next
  fix env :: "'x env" and k p c code d c' p' evs
  assume "record_clean env k p" "handle_gov_operation env c p code d = Inr (c', p', evs)"
  then show "record_clean env k p'" using handle_gov_clean [of env c p code d c' p' evs]
    by (auto simp: record_clean_def keeps_clean_def)
next
  fix env :: "'x env" and k p b ts es rate p1 p2
  assume "record_clean env k p"
    "env_find_pda env [ROOT, str ''PROTOCOL'', gov_protocol_id] (env_photon_id env) = Some (k, b)"
    "set_transmitters ts (p\<lparr>pi_is_init := True, pi_protocol_address := env_photon_id env,
       pi_consensus_target_rate := rate\<rparr>) = Inr p1" "set_executors es p1 = Inr p2"
  then show "record_clean env k p2" by (auto simp: record_clean_def dest!: frames)
qed

end
