(* ===== verification/Endpoint_Props.thy ===== *)
theory Endpoint_Props
  imports Protocol_Records
begin

section \<open>Properties of the endpoint program\<close>

text \<open>
  The properties of the instruction handlers and of every reachable world of the program, each
  followed by a witness on the concrete environment. They rest on the effects, the invariants and
  the refinement of the theories before.
\<close>

subsection \<open>Environment facts of the concrete instance\<close>

lemma sample_cpi_ok: "cpi_ok sample_env"
  by (simp add: cpi_ok_def)

lemma sample_op_pda_inj: "op_pda_inj sample_env"
  by (simp add: op_pda_inj_def)

lemma sample_env_typed: "env_typed sample_env"
  by (simp add: env_typed_def sample_abi_typed)

text \<open>A run on the concrete environment: initialize, load, sign by one transmitter.\<close>

definition key :: "u8 \<Rightarrow> bytes" where "key b = replicate 32 b"

lemma length_key [simp]: "length (key b) = 32"
  by (simp add: key_def)

definition signer_acc :: "bytes \<Rightarrow> account_info" where
  "signer_acc k = \<lparr>ai_key = k, ai_is_signer = True, ai_is_writable = True\<rparr>"
definition mut_acc :: "bytes \<Rightarrow> account_info" where
  "mut_acc k = \<lparr>ai_key = k, ai_is_signer = False, ai_is_writable = True\<rparr>"

lemmas acc_simps = signer_acc_def mut_acc_def

definition config_key :: bytes where "config_key = ROOT @ str ''CONFIG''"
definition gov_key :: bytes where "gov_key = ROOT @ str ''PROTOCOL'' @ gov_protocol_id"
definition op_key :: "bytes \<Rightarrow> bytes" where "op_key h = ROOT @ str ''OP'' @ h"
definition authority_key :: bytes where
  "authority_key = ROOT @ str ''CALL_AUTHORITY'' @ gov_protocol_id"

lemma seeds_simps [simp]:
  "ROOT @ str ''CONFIG'' = config_key"
  "ROOT @ str ''PROTOCOL'' @ gov_protocol_id = gov_key"
  "ROOT @ str ''OP'' @ h = op_key h"
  "ROOT @ str ''CALL_AUTHORITY'' @ gov_protocol_id = authority_key"
  by (simp_all add: config_key_def gov_key_def op_key_def authority_key_def)

definition w_empty :: "unit world" where
  "w_empty = \<lparr>accounts = (\<lambda>_. None), events = [], foreign = ()\<rparr>"

definition gov_info_1 :: protocol_info where
  "gov_info_1 =
     \<lparr>pi_is_init = True, pi_consensus_target_rate = 6000, pi_protocol_address = replicate 32 7,
      pi_transmitters = replicate 20 1 # replicate 19 eth_default,
      pi_executors = key 4 # replicate 19 pubkey_default,
      pi_proposers = replicate 20 pubkey_default\<rparr>"

definition config_1 :: config where
  "config_1 = \<lparr>conf_admin = key 8, conf_eob_chain_id = 5, conf_eob_master = key 3, conf_nonce = 0\<rparr>"

definition w_init :: "unit world" where
  "w_init = \<lparr>accounts = [gov_key \<mapsto> AProtocol gov_info_1, config_key \<mapsto> AConfig config_1],
     events = [], foreign = ()\<rparr>"

definition init_accs :: initialize_accs where
  "init_accs = \<lparr>in_admin = signer_acc (key 8), in_protocol_info = mut_acc gov_key,
     in_config = mut_acc config_key, in_system_program = mut_acc (key 9)\<rparr>"

lemma keys_neq [simp]:
  "config_key \<noteq> gov_key" "gov_key \<noteq> config_key"
  "op_key h \<noteq> gov_key" "op_key h \<noteq> config_key" "gov_key \<noteq> op_key h" "config_key \<noteq> op_key h"
  unfolding config_key_def gov_key_def op_key_def by (simp_all add: str_def)

lemma seeds_check [simp]:
  "check_seeds sample_env seeds a =
     (if ai_key a = concat seeds then Inr 255 else Inl (Anchor ConstraintSeeds))"
  by (simp add: check_seeds_def)

lemmas run_simps = acc_simps check_defs init_if_needed_def init_account_def load_protocol_def
  load_config_def load_op_def store_def emit_def

lemma sample_initialize:
  "initialize sample_env init_accs 5 (key 3) 6000 [replicate 20 1] [key 4] w_empty = Inr w_init"
  by (simp add: initialize_def initialize_accounts_def init_accs_def run_simps
      w_empty_def w_init_def Let_def set_transmitters_eq
      set_executors_eq protocol_info_default_def config_default_def gov_info_1_def config_1_def
      key_def fun_upd_twist)

definition op_1 :: operation_data where
  "op_1 = op_data_zeroed\<lparr>od_protocol_id := gov_protocol_id, od_dest_chain_id := 100000000000000000000,
     od_protocol_addr := replicate 32 7, od_function_selector := ByCode (gov_selector AddExecutor),
     od_params := replicate 32 5\<rparr>"

definition hash_1 :: bytes where
  "hash_1 = MSG @ str ''phot''"

lemma take4_gov: "take 4 gov_protocol_id = str ''phot''"
  by (simp add: gov_protocol_id_def GOV_PROTOCOL_ID_def str_def)

lemma length_gov_protocol_id [simp]: "length gov_protocol_id = 32"
  by (simp add: gov_protocol_id_def)

lemma op_1_hash: "op_hash_with_message (pad 32) op_1 = Inr hash_1"
proof -
  obtain tl where e: "op_data_evm op_1 = Inr (gov_protocol_id @ tl)"
    by (simp add: op_data_evm_def op_1_def)
  have "take 4 (pad 32 (gov_protocol_id @ tl)) = str ''phot''"
    by (simp add: pad_def take4_gov [symmetric])
  then show ?thesis
    by (simp add: op_hash_with_message_def op_hash_def e hash_with_message_def pad_def hash_1_def)
qed

definition op_info_1 :: "op_status \<Rightarrow> op_info" where
  "op_info_1 s = \<lparr>oi_status = s, oi_unique_signers =
     (if s = StInit then replicate 16 eth_default else replicate 20 1 # replicate 15 eth_default),
     oi_op_data = op_1\<rparr>"

definition load_accs_1 :: load_accs where
  "load_accs_1 = \<lparr>lo_executor = signer_acc (key 4), lo_protocol_info = mut_acc gov_key,
     lo_op_info = mut_acc (op_key hash_1), lo_config = mut_acc config_key,
     lo_system_program = mut_acc (key 9)\<rparr>"

definition sign_accs_1 :: sign_accs where
  "sign_accs_1 = \<lparr>sg_executor = signer_acc (key 4), sg_op_info = mut_acc (op_key hash_1),
     sg_protocol_info = mut_acc gov_key\<rparr>"

definition execute_accs_1 :: execute_accs where
  "execute_accs_1 = \<lparr>ec_executor = signer_acc (key 4), ec_op_info = mut_acc (op_key hash_1),
     ec_protocol_info = mut_acc gov_key, ec_call_authority = mut_acc authority_key\<rparr>"

definition sig_1 :: transmitter_signature where
  "sig_1 = \<lparr>sig_v = 27, sig_r = key 1, sig_s = key 1\<rparr>"

definition run_world :: "op_status \<Rightarrow> event list \<Rightarrow> unit world" where
  "run_world s evs = w_init\<lparr>accounts := (accounts w_init)(op_key hash_1 \<mapsto> AOp (op_info_1 s)),
     events := evs\<rparr>"

definition loaded_ev :: "event" where "loaded_ev = ProposalLoaded hash_1 (key 4)"
definition approved_ev :: "event" where "approved_ev = ProposalApproved hash_1 (key 4)"
definition executed_ev :: "event" where "executed_ev = ProposalExecuted hash_1 (key 4)"

lemma zero_protocol: "gov_protocol_id \<noteq> replicate 32 0"
proof
  assume "gov_protocol_id = replicate 32 0"
  then have "take 1 gov_protocol_id = take 1 (replicate 32 0)" by simp
  then show False by (simp add: gov_protocol_id_def GOV_PROTOCOL_ID_def str_def)
qed

lemma sample_load:
  "load_operation sample_env load_accs_1 op_1 hash_1 w_init = Inr (run_world StInit [loaded_ev])"
  by (simp add: load_operation_def load_operation_accounts_def load_accs_1_def run_simps
      w_init_def op_1_hash run_world_def gov_info_1_def key_def op_info_zeroed_def op_info_1_def
      loaded_ev_def fun_upd_twist)
    (simp add: op_1_def zero_protocol)

lemma sample_recover:
  "ecrecover (pad 32) (\<lambda>h v s. Some s) h sig_1 = Inr (replicate 20 1)"
  by (simp add: ecrecover_def sig_1_def key_def derive_eth_address_def pad_def)

lemma transmitters_1: "transmitters_of gov_info_1 = [replicate 20 1]"
  by (simp add: transmitters_of_def gov_info_1_def eth_default_def)

lemma rate_1: "unat (pi_consensus_target_rate gov_info_1) = 6000"
  by (simp add: gov_info_1_def)

lemma sample_sign_accounts:
  "s = StInit \<or> s = StSigned \<Longrightarrow>
   sign_operation_accounts sample_env sign_accs_1 hash_1 (run_world s evs) =
     Inr (op_info_1 s, gov_info_1)"
  by (auto simp: sign_operation_accounts_def sign_accs_1_def run_simps run_world_def w_init_def
      gov_info_1_def op_info_1_def op_1_def)

lemma sample_sign:
  "sign_operation sample_env sign_accs_1 hash_1 [sig_1] (run_world StInit evs) =
     Inr (run_world StSigned (evs @ [approved_ev]), True)"
proof -
  have r: "ecrecover (env_keccak sample_env) (env_recover sample_env) h sig_1 = Inr (replicate 20 1)" for h
    by (simp add: sample_env_def sample_recover)
  have s: "signers_of (op_info_1 StInit) = []" by (simp add: signers_of_def op_info_1_def)
  have t: "unat (pi_consensus_target_rate gov_info_1) = 6000" by (simp add: gov_info_1_def)
  have l: "sign_loop sample_env [replicate 20 1] (pi_consensus_target_rate gov_info_1) hash_1 [sig_1] []
      = Inr ([replicate 20 1], True)"
    using r t by (simp add: Let_def consensus_rate_def RATE_DECIMALS_def)
  have "sign_operation sample_env sign_accs_1 hash_1 [sig_1] (run_world StInit evs) =
      sign_body sample_env sign_accs_1 hash_1 [sig_1] (run_world StInit evs) (op_info_1 StInit) gov_info_1"
    using t s by (subst sign_operation_eq [OF sample_sign_accounts])
      (simp_all add: transmitters_1 consensus_rate_def)
  also have "\<dots> = Inr (run_world StSigned (evs @ [approved_ev]), True)"
    unfolding sign_body_def transmitters_1 s l
    by (simp add: run_world_def op_info_1_def sign_accs_1_def run_simps approved_ev_def key_def)
  finally show ?thesis .
qed

lemma sample_execute:
  "execute_operation sample_env execute_accs_1 [mut_acc (replicate 32 7)] hash_1 (run_world StSigned evs) =
     Inr (run_world StExecuted (evs @ [executed_ev]))"
proof -
  have "execute_operation_accounts sample_env execute_accs_1 hash_1 (run_world StSigned evs) =
      Inr (op_info_1 StSigned, 255)"
    by (simp add: execute_operation_accounts_def execute_accs_1_def run_simps run_world_def
        w_init_def gov_info_1_def op_info_1_def op_1_def)
  then show ?thesis
    by (simp add: execute_operation_def Let_def execute_infos_def op_info_1_def op_1_def acc_simps
        call_payload_def run_world_def execute_accs_1_def executed_ev_def run_simps)
qed

lemma reachable_init: "reachable sample_env w_init"
  by (rule reachable.call [OF reachable.genesis [of sample_env "()", folded w_empty_def], where
        c = "Initialize init_accs 5 (key 3) 6000 [replicate 20 1] [key 4]"])
    (simp_all add: sample_initialize)

lemma reachable_loaded: "reachable sample_env (run_world StInit [loaded_ev])"
  by (rule reachable.call [OF reachable_init, where c = "LoadOperation load_accs_1 op_1 hash_1"])
    (simp_all add: sample_load)

lemma reachable_signed: "reachable sample_env (run_world StSigned [loaded_ev, approved_ev])"
  by (rule reachable.call [OF reachable_loaded, where c = "SignOperation sign_accs_1 hash_1 [sig_1]"])
    (simp_all add: sample_sign)

lemma reachable_executed:
  "reachable sample_env (run_world StExecuted [loaded_ev, approved_ev, executed_ev])"
  by (rule reachable.call [OF reachable_signed, where
        c = "ExecuteOperation execute_accs_1 [mut_acc (replicate 32 7)] hash_1"])
    (simp_all add: sample_execute)

subsection \<open>The lifecycle\<close>

text \<open>C3: Every reachable state of the endpoint program refines the abstract pipeline: the statuses it
  stores, with the load, approve and execute events it has emitted, are a state the lifecycle
  machine reaches by emitting the same events.\<close>

theorem endpoint_refines_lifecycle:
  assumes "reachable env w" "cpi_ok env" "op_pda_inj env"
  shows "lreach (status_of env w) (lifecycle_events (events w))"
  by (rule reachable_lreach [OF assms])

theorem endpoint_refines_lifecycle_witness:
  "lreach (status_of sample_env (run_world StSigned [loaded_ev, approved_ev]))
     (lifecycle_events [loaded_ev, approved_ev])"
  using endpoint_refines_lifecycle [OF reachable_signed sample_cpi_ok sample_op_pda_inj]
  by (simp add: run_world_def)

text \<open>C1: The events about an operation follow its status: nothing before it is loaded, one load
  while it is \<^verbatim>\<open>Init\<close>, then only approvals, and at most one execution, which is the last event.
  So no operation is executed twice, and none without having been loaded and approved.\<close>

theorem operation_events_in_order:
  assumes "reachable env w" "cpi_ok env" "op_pda_inj env"
  shows "trace_ok (status_of env w h) (op_trace h (events w))
    \<and> count_list (op_trace h (events w)) E = (if status_of env w h = StExecuted then 1 else 0)"
  using lreach_trace [OF reachable_lreach [OF assms], of h]
    trace_ok_count_E [of "status_of env w h" "op_trace h (events w)"]
  by (simp add: op_trace_lifecycle)

theorem operation_events_in_order_witness:
  "count_list (op_trace hash_1 [loaded_ev, approved_ev, executed_ev]) E = 1"
  using operation_events_in_order [OF reachable_executed sample_cpi_ok sample_op_pda_inj, of hash_1]
  by (simp add: run_world_def status_of_def ops_def op_info_1_def)

text \<open>C4: In every reachable world an operation's account sits at the address derived from the hash
  of the very data it stores, the operation is for this chain and its protocol id has 32 bytes and
  is not zero, and each recorded signer is distinct and has produced a signature that recovers to
  it over that hash.\<close>

theorem operation_account_bound_to_hash:
  assumes "reachable env w" "cpi_ok env" "op_pda_inj env" "accounts w k = Some (AOp x)"
  shows "\<exists>h b. env_find_pda env [ROOT, str ''OP'', h] (env_photon_id env) = Some (k, b)
    \<and> op_hash_with_message (env_keccak env) (oi_op_data x) = Inr h
    \<and> od_dest_chain_id (oi_op_data x) = SOLANA_CHAIN_ID (env_network env)
    \<and> length (od_protocol_id (oi_op_data x)) = 32 \<and> od_protocol_id (oi_op_data x) \<noteq> replicate 32 0
    \<and> distinct (signers_of x)
    \<and> (\<forall>s \<in> set (signers_of x). \<exists>sig. ecrecover (env_keccak env) (env_recover env) h sig = Inr s)"
  using reachable_op_inv [OF assms(1-3), of k x] assms(4) by (auto simp: ops_Some op_inv_def)

theorem operation_account_bound_to_hash_witness:
  "\<exists>h. op_hash_with_message (pad 32) op_1 = Inr h"
proof -
  have "accounts (run_world StSigned [loaded_ev, approved_ev]) (op_key hash_1) =
      Some (AOp (op_info_1 StSigned))"
    by (simp add: run_world_def)
  from operation_account_bound_to_hash [OF reachable_signed sample_cpi_ok sample_op_pda_inj this]
  show ?thesis by (auto simp: op_info_1_def)
qed

text \<open>C2: Approval needs consensus. When a call of \<^verbatim>\<open>sign_operation\<close> takes an operation from \<^verbatim>\<open>Init\<close>
  to \<^verbatim>\<open>Signed\<close>, the distinct recorded signers reach the protocol's target rate of its registered
  transmitters, each signer recorded by this call is a registered transmitter whose signature over
  the operation hash was passed in, and the caller is an executor of the protocol.\<close>

theorem approval_needs_consensus:
  assumes "reachable env w" "cpi_ok env" "op_pda_inj env"
    and s: "sign_operation env a h sigs w = Inr (w', b)"
    and x: "accounts w (ai_key (sg_op_info a)) = Some (AOp x)" "oi_status x = StInit"
    and x': "accounts w' (ai_key (sg_op_info a)) = Some (AOp x')" "oi_status x' = StSigned"
  shows "\<exists>kp p. accounts w kp = Some (AProtocol p)
    \<and> (\<exists>bp. env_find_pda env [ROOT, str ''PROTOCOL'', od_protocol_id (oi_op_data x)]
         (env_photon_id env) = Some (kp, bp))
    \<and> ai_is_signer (sg_executor a) \<and> ai_key (sg_executor a) \<in> set (pi_executors p)
    \<and> distinct (signers_of x') \<and> oi_op_data x' = oi_op_data x
    \<and> unat (pi_consensus_target_rate p) \<le>
        length (signers_of x') * 10000 div length (transmitters_of p)
    \<and> (\<forall>s \<in> set (signers_of x') - set (signers_of x). s \<in> set (transmitters_of p)
        \<and> (\<exists>sig \<in> set sigs. ecrecover (env_keccak env) (env_recover env) h sig = Inr s))"
  using s
proof (rule sign_operation_effect)
  fix y p
  assume acc: "sign_operation_accounts env a h w = Inr (y, p)"
    and r: "(unat (pi_consensus_target_rate p) \<le>
            consensus_rate (length (signers_of y)) (length (transmitters_of p)) \<and> w' = w \<and> b)
       \<or> (consensus_rate (length (signers_of y)) (length (transmitters_of p)) <
            unat (pi_consensus_target_rate p)
          \<and> signs env w h (ai_key (sg_op_info a)) (ai_key (sg_executor a)) y p sigs w')"
  from acc x(1) have y: "y = x" by (simp add: sign_operation_accounts_effect)
  from r x x' have "consensus_rate (length (signers_of x)) (length (transmitters_of p)) <
        unat (pi_consensus_target_rate p)"
      "signs env w h (ai_key (sg_op_info a)) (ai_key (sg_executor a)) x p sigs w'"
    unfolding y by auto
  from signs_account [OF this(2,1)] obtain z new where z:
    "accounts w' = (accounts w)(ai_key (sg_op_info a) \<mapsto> AOp z)"
    "signers_of z = signers_of x @ new" "set new \<subseteq> set (transmitters_of p)"
    "distinct (signers_of x) \<longrightarrow> distinct (signers_of z)"
    "\<forall>s \<in> set new. \<exists>sig \<in> set sigs. ecrecover (env_keccak env) (env_recover env) h sig = Inr s"
    "oi_op_data z = oi_op_data x"
    "(oi_status z = StSigned \<and> events w' = events w @ [ProposalApproved h (ai_key (sg_executor a))]
        \<and> unat (pi_consensus_target_rate p) \<le>
            consensus_rate (length (signers_of z)) (length (transmitters_of p)))
     \<or> (oi_status z = oi_status x \<and> events w' = events w
        \<and> consensus_rate (length (signers_of z)) (length (transmitters_of p)) <
            unat (pi_consensus_target_rate p))"
    by metis
  have "z = x'" using z(1) x'(1) by simp
  moreover have "distinct (signers_of x)"
    using reachable_op_inv [OF assms(1-3)] x(1) by (auto simp: ops_Some op_inv_def)
  moreover from z(7) x(2) x'(2) calculation(1) have
    "unat (pi_consensus_target_rate p) \<le> consensus_rate (length (signers_of x')) (length (transmitters_of p))"
    by auto
  ultimately show ?thesis
    using acc z(2-6) y unfolding sign_operation_accounts_effect consensus_rate_def RATE_DECIMALS_def
    by (intro exI [of _ "ai_key (sg_protocol_info a)"] exI [of _ p]) auto
qed

theorem approval_needs_consensus_witness:
  "distinct (signers_of (op_info_1 StSigned))"
proof -
  have k: "ai_key (sg_op_info sign_accs_1) = op_key hash_1"
    by (simp add: sign_accs_1_def acc_simps)
  have i: "accounts (run_world StInit [loaded_ev]) (op_key hash_1) = Some (AOp (op_info_1 StInit))"
    and s: "accounts (run_world StSigned ([loaded_ev] @ [approved_ev])) (op_key hash_1) =
      Some (AOp (op_info_1 StSigned))"
    by (simp_all add: run_world_def)
  show ?thesis
    using approval_needs_consensus [OF reachable_loaded sample_cpi_ok sample_op_pda_inj sample_sign,
        unfolded k, OF i _ s]
    by (auto simp: op_info_1_def)
qed

text \<open>Enough signatures take a loaded operation to \<^verbatim>\<open>Signed\<close>; everything else of it is kept.\<close>

lemma sign_operation_completes:
  assumes acc: "sign_operation_accounts env a h w = Inr (x, p)"
    and t: "transmitters_of p \<noteq> []" and d: "distinct (signers_of x)"
    and before: "consensus_rate (length (signers_of x)) (length (transmitters_of p)) <
      unat (pi_consensus_target_rate p)"
    and ts: "mapE (ecrecover (env_keccak env) (env_recover env) h) sigs = Inr ts"
    and reach: "unat (pi_consensus_target_rate p) \<le>
      consensus_rate (card (set (signers_of x) \<union> (set ts \<inter> set (transmitters_of p))))
        (length (transmitters_of p))"
    and cap: "card (set (signers_of x) \<union> (set ts \<inter> set (transmitters_of p))) \<le> 16"
  shows "\<exists>signers. sign_operation env a h sigs w =
    Inr (store (sg_op_info a) (AOp (x\<lparr>oi_unique_signers := signers, oi_status := StSigned\<rparr>))
           (emit (ProposalApproved h (ai_key (sg_executor a))) w), True)"
proof -
  from sign_loop_complete [OF ts d before] obtain u r where
    "sign_loop env (transmitters_of p) (pi_consensus_target_rate p) h sigs (signers_of x) = Inr (u, r)"
    and r by (elim exE conjE) (use reach in simp)
  then have
    l: "sign_loop env (transmitters_of p) (pi_consensus_target_rate p) h sigs (signers_of x) = Inr (u, True)"
    by simp
  from sign_loop_sound [OF l before] obtain new where u: "u = signers_of x @ new"
      "set new \<subseteq> set (transmitters_of p)" "distinct u"
      "\<forall>s \<in> set new. \<exists>sig \<in> set sigs. ecrecover (env_keccak env) (env_recover env) h sig = Inr s"
    using d by blast
  have "s \<in> set ts" if "s \<in> set new" for s
  proof -
    from u(4) that obtain sig where "sig \<in> set sigs"
        "ecrecover (env_keccak env) (env_recover env) h sig = Inr s" by blast
    then show ?thesis
      using ts by (auto simp: mapE_eq_Inr list_all2_conv_all_nth in_set_conv_nth)
  qed
  then have "set u \<subseteq> set (signers_of x) \<union> (set ts \<inter> set (transmitters_of p))"
    using u(1,2) by auto
  then have "card (set u) \<le> 16"
    using cap card_mono [OF _ \<open>set u \<subseteq> _\<close>] by simp
  then have "length u \<le> 16" using u(3) by (simp add: distinct_card)
  then show ?thesis
    using t before unfolding sign_operation_eq [OF acc] sign_body_def l by auto
qed

text \<open>C9: Signing is complete. If every signature passed in recovers to some address, and the
  operation's recorded signers together with the registered transmitters among those addresses
  reach the target rate (and did not before) with at most 16 signers, then the call succeeds,
  reports consensus, and the operation is \<^verbatim>\<open>Signed\<close>.\<close>

theorem signing_completes:
  assumes acc: "sign_operation_accounts env a h w = Inr (x, p)"
    and t: "transmitters_of p \<noteq> []" and d: "distinct (signers_of x)"
    and before: "consensus_rate (length (signers_of x)) (length (transmitters_of p)) <
      unat (pi_consensus_target_rate p)"
    and ts: "mapE (ecrecover (env_keccak env) (env_recover env) h) sigs = Inr ts"
    and reach: "unat (pi_consensus_target_rate p) \<le>
      consensus_rate (card (set (signers_of x) \<union> (set ts \<inter> set (transmitters_of p))))
        (length (transmitters_of p))"
    and cap: "card (set (signers_of x) \<union> (set ts \<inter> set (transmitters_of p))) \<le> 16"
  shows "\<exists>w' x'. sign_operation env a h sigs w = Inr (w', True)
    \<and> accounts w' (ai_key (sg_op_info a)) = Some (AOp x') \<and> oi_status x' = StSigned
    \<and> events w' = events w @ [ProposalApproved h (ai_key (sg_executor a))]"
  using sign_operation_completes [OF assms] by auto

theorem signing_completes_witness:
  "\<exists>w'. sign_operation sample_env sign_accs_1 hash_1 [sig_1] (run_world StInit []) = Inr (w', True)"
proof -
  have r: "mapE (ecrecover (env_keccak sample_env) (env_recover sample_env) hash_1) [sig_1] =
      Inr [replicate 20 1]"
    by (simp add: sample_env_def sample_recover)
  have s: "signers_of (op_info_1 StInit) = []" by (simp add: signers_of_def op_info_1_def)
  show ?thesis
    using signing_completes [OF sample_sign_accounts [of StInit "[]"], OF _ _ _ _ r] 
    by (auto simp: s transmitters_1 consensus_rate_def RATE_DECIMALS_def rate_1)
qed

text \<open>C14: The account has room for 16 signers. A protocol whose target rate cannot be met by 16 of its
  transmitters (the roster accepts 19) can never have an operation approved by \<^verbatim>\<open>sign_operation\<close>:
  no call on an operation that has not met the target reports consensus or emits an approval; with
  a seventeenth signer the call panics.\<close>

theorem sixteen_signers_at_most:
  assumes acc: "sign_operation_accounts env a h w = Inr (x, p)"
    and before: "consensus_rate (length (signers_of x)) (length (transmitters_of p)) <
      unat (pi_consensus_target_rate p)"
    and big: "consensus_rate 16 (length (transmitters_of p)) < unat (pi_consensus_target_rate p)"
  shows "case sign_operation env a h sigs w of
      Inr (w', reached) \<Rightarrow> \<not> reached \<and> events w' = events w
        \<and> (\<exists>x'. accounts w' (ai_key (sg_op_info a)) = Some (AOp x') \<and> oi_status x' = oi_status x)
    | Inl e \<Rightarrow> True"
proof (cases "sign_loop env (transmitters_of p) (pi_consensus_target_rate p) h sigs (signers_of x)")
  case (Inl e)
  with before show ?thesis unfolding sign_operation_eq [OF acc] sign_body_def by simp
next
  case (Inr ur)
  obtain u r where ur: "ur = (u, r)" by (cases ur)
  have "\<not> r" if "length u \<le> 16"
  proof -
    have "consensus_rate (length u) (length (transmitters_of p)) < unat (pi_consensus_target_rate p)"
      using rate_mono [OF that] big le_less_trans by blast
    then show ?thesis using sign_loop_sound [OF Inr [unfolded ur] before] by auto
  qed
  with Inr ur before show ?thesis
    unfolding sign_operation_eq [OF acc] sign_body_def by simp
qed

theorem sixteen_signers_at_most_witness:
  "case sign_operation sample_env sign_accs_1 hash_1 [sig_1]
      ((run_world StInit [])\<lparr>accounts := (accounts (run_world StInit []))(gov_key \<mapsto>
        AProtocol (gov_info_1\<lparr>pi_transmitters := List.map (replicate 20)
          [1, 2, 3, 4, 5, 6, 7, 8, 9, 10, 11, 12, 13, 14, 15, 16, 17, 18, 19, 0], pi_consensus_target_rate := 9000\<rparr>))\<rparr>) of
     Inr (w', reached) \<Rightarrow> \<not> reached | Inl e \<Rightarrow> True"
proof -
  let ?p = "gov_info_1\<lparr>pi_transmitters := List.map (replicate 20)
          [1, 2, 3, 4, 5, 6, 7, 8, 9, 10, 11, 12, 13, 14, 15, 16, 17, 18, 19, 0], pi_consensus_target_rate := 9000\<rparr>"
  let ?w = "(run_world StInit [])\<lparr>accounts := (accounts (run_world StInit []))(gov_key \<mapsto> AProtocol ?p)\<rparr>"
  have a: "sign_operation_accounts sample_env sign_accs_1 hash_1 ?w = Inr (op_info_1 StInit, ?p)"
    by (simp add: sign_operation_accounts_def sign_accs_1_def run_simps run_world_def w_init_def
        gov_info_1_def op_info_1_def op_1_def)
  have s: "signers_of (op_info_1 StInit) = []" by (simp add: signers_of_def op_info_1_def)
  have t: "length (transmitters_of ?p) = 19"
    by (simp add: transmitters_of_def eth_default_def)
  show ?thesis
    using sixteen_signers_at_most [OF a, where sigs = "[sig_1]"] unfolding s t
    by (auto simp: consensus_rate_def RATE_DECIMALS_def split: sum.splits)
qed

text \<open>An operation can get stuck. If the signers recorded for an operation already meet the target
  while its status is still \<^verbatim>\<open>Init\<close> (the target rate or the roster was lowered between two calls),
  \<^verbatim>\<open>sign_operation\<close> reports consensus but changes nothing, whatever the signatures; and on that
  unchanged world no call of \<^verbatim>\<open>execute_operation\<close> on the account succeeds.\<close>

theorem met_target_stays_init:
  assumes acc: "sign_operation_accounts env a h w = Inr (x, p)" and i: "oi_status x = StInit"
    and t: "transmitters_of p \<noteq> []"
    and met: "unat (pi_consensus_target_rate p) \<le>
      consensus_rate (length (signers_of x)) (length (transmitters_of p))"
  shows "sign_operation env a h sigs w = Inr (w, True)
    \<and> (ai_key (ec_op_info b) = ai_key (sg_op_info a) \<longrightarrow>
        (\<forall>w'. execute_operation env b remaining h w \<noteq> Inr w'))"
proof
  show "sign_operation env a h sigs w = Inr (w, True)"
    using t met by (simp add: sign_operation_eq [OF acc])
  show "ai_key (ec_op_info b) = ai_key (sg_op_info a) \<longrightarrow>
      (\<forall>w'. execute_operation env b remaining h w \<noteq> Inr w')"
    using acc i by (auto simp: sign_operation_accounts_effect execute_operation_accounts_effect
        dest!: execute_operation_effect)
qed

theorem met_target_stays_init_witness:
  "sign_operation sample_env sign_accs_1 hash_1 [] ((run_world StInit [])\<lparr>accounts :=
      (accounts (run_world StInit []))(op_key hash_1 \<mapsto> AOp ((op_info_1 StSigned)\<lparr>oi_status := StInit\<rparr>))\<rparr>) =
   Inr ((run_world StInit [])\<lparr>accounts :=
      (accounts (run_world StInit []))(op_key hash_1 \<mapsto> AOp ((op_info_1 StSigned)\<lparr>oi_status := StInit\<rparr>))\<rparr>,
     True)"
proof -
  let ?x = "(op_info_1 StSigned)\<lparr>oi_status := StInit\<rparr>"
  let ?w = "(run_world StInit [])\<lparr>accounts :=
      (accounts (run_world StInit []))(op_key hash_1 \<mapsto> AOp ?x)\<rparr>"
  have a: "sign_operation_accounts sample_env sign_accs_1 hash_1 ?w = Inr (?x, gov_info_1)"
    by (simp add: sign_operation_accounts_def sign_accs_1_def run_simps run_world_def w_init_def
        gov_info_1_def op_info_1_def op_1_def)
  have "signers_of ?x = [replicate 20 1]"
    by (simp add: signers_of_def op_info_1_def eth_default_def)
  then show ?thesis
    using met_target_stays_init [OF a, THEN conjunct1]
    by (simp add: transmitters_1 consensus_rate_def RATE_DECIMALS_def rate_1)
qed

subsection \<open>Operation data\<close>

text \<open>C5: No call of the program replaces the data of an operation, removes a recorded signer, takes
  a status back, or deletes the account: along every call the account keeps its data, the signer
  list only grows at its end, and the status only moves up the pipeline.\<close>

theorem operation_account_monotone:
  assumes "cpi_ok env" "exec_call env c w = Inr w'" "accounts w k = Some (AOp x)"
  shows "\<exists>x'. accounts w' k = Some (AOp x') \<and> oi_op_data x' = oi_op_data x
    \<and> prefix (signers_of x) (signers_of x') \<and> oi_status x \<le> oi_status x'"
  using call_op_step [OF assms(1,2)]
proof cases
  case quiet
  with assms(3) show ?thesis by (auto simp: quiet_def fun_eq_iff ops_Some [symmetric])
next
  case (load d h k' e)
  then have "k \<noteq> k'" using assms(3) by (auto simp: loads_def)
  with load assms(3) show ?thesis by (auto simp: loads_def)
next
  case (sign k' y h b kp bp p e sigs)
  from signs_account [OF sign(7,6)] obtain x' new where s:
    "accounts w' = (accounts w)(k' \<mapsto> AOp x')" "signers_of x' = signers_of y @ new"
    "oi_op_data x' = oi_op_data y" "oi_status x' = StSigned \<or> oi_status x' = oi_status y"
    by metis
  show ?thesis
  proof (cases "k = k'")
    case True
    with sign(1) assms(3) have "y = x" by simp
    with s sign(2) True show ?thesis by auto
  qed (use s assms(3) in auto)
next
  case (exec k' y w1 h b e)
  from exec(3) assms(3) have k: "ops w1 k = Some x" by (simp add: quiet_def ops_Some)
  show ?thesis
  proof (cases "k = k'")
    case True
    with exec(1) assms(3) have "y = x" by simp
    with exec(5) True show ?thesis by (auto simp: signers_of_def)
  next
    case False
    with exec(5) k show ?thesis by (auto simp: ops_Some)
  qed
qed

theorem operation_account_monotone_witness:
  "\<exists>x'. accounts (run_world StExecuted [executed_ev]) (op_key hash_1) = Some (AOp x')
    \<and> oi_op_data x' = op_1 \<and> StSigned \<le> oi_status x'"
proof -
  have "accounts (run_world StSigned []) (op_key hash_1) = Some (AOp (op_info_1 StSigned))"
    by (simp add: run_world_def)
  moreover have "exec_call sample_env (ExecuteOperation execute_accs_1 [mut_acc (replicate 32 7)] hash_1)
      (run_world StSigned []) = Inr (run_world StExecuted [executed_ev])"
    by (simp add: sample_execute)
  ultimately show ?thesis
    using operation_account_monotone [OF sample_cpi_ok] by (fastforce simp: op_info_1_def)
qed

text \<open>\<^verbatim>\<open>load_operation\<close> succeeds only for a signing executor of the operation's protocol, with a
  cached hash that is the hash of the data, for this chain, to the protocol's registered address,
  with a non-zero 32-byte protocol id, and on an address that held no account; it then stores the
  data with status \<^verbatim>\<open>Init\<close> and no signers, changes no other account, and emits one event.\<close>

theorem load_operation_correct:
  assumes "load_operation env a d h w = Inr w'"
  shows "ai_is_signer (lo_executor a)
    \<and> (\<exists>p kp bp. accounts w kp = Some (AProtocol p)
        \<and> env_find_pda env [ROOT, str ''PROTOCOL'', od_protocol_id d] (env_photon_id env) = Some (kp, bp)
        \<and> ai_key (lo_executor a) \<in> set (pi_executors p)
        \<and> pi_protocol_address p = od_protocol_addr d)
    \<and> op_hash_with_message (env_keccak env) d = Inr h
    \<and> od_dest_chain_id d = SOLANA_CHAIN_ID (env_network env)
    \<and> od_protocol_id d \<noteq> replicate 32 0 \<and> length (od_protocol_id d) = 32
    \<and> accounts w (ai_key (lo_op_info a)) = None
    \<and> accounts w' = (accounts w)(ai_key (lo_op_info a) \<mapsto>
        AOp \<lparr>oi_status = StInit, oi_unique_signers = replicate 16 eth_default, oi_op_data = d\<rparr>)
    \<and> events w' = events w @ [ProposalLoaded h (ai_key (lo_executor a))]"
  using load_operation_effect [OF assms] unfolding loads_def by blast

theorem load_operation_correct_witness:
  "op_hash_with_message (env_keccak sample_env) op_1 = Inr hash_1"
  using load_operation_correct [OF sample_load] by blast

text \<open>The hash does not separate \<^verbatim>\<open>params\<close> from \<^verbatim>\<open>reserved\<close>: moving bytes from the end of one to the
  front of the other leaves the hash, the account address and so the transmitters' signatures
  unchanged, and \<^verbatim>\<open>load_operation\<close> accepts either version, although the parameters that will be
  executed differ.\<close>

theorem load_accepts_shifted_params:
  assumes l: "load_operation env a d h w = Inr w'"
    and s: "od_params d' @ od_reserved d' = od_params d @ od_reserved d"
      "d' = d\<lparr>od_params := od_params d', od_reserved := od_reserved d'\<rparr>"
    and space: "\<And>n. env_create_account env (ai_key (lo_executor a)) (ai_key (lo_op_info a)) n (foreign w)
      \<noteq> None"
  shows "\<exists>w2. load_operation env a d' h w = Inr w2
    \<and> accounts w2 (ai_key (lo_op_info a)) = Some (AOp \<lparr>oi_status = StInit,
        oi_unique_signers = replicate 16 eth_default, oi_op_data = d'\<rparr>)"
proof -
  have e: "op_data_evm d' = op_data_evm d"
    using s by (cases d; cases d') (simp add: op_data_evm_def)
  then have hash: "op_hash_with_message (env_keccak env) d' = op_hash_with_message (env_keccak env) d"
    by (simp add: op_hash_with_message_def op_hash_def)
  have f: "od_dest_chain_id d' = od_dest_chain_id d" "od_protocol_addr d' = od_protocol_addr d"
      "od_protocol_id d' = od_protocol_id d"
    by (subst s(2); simp)+
  have space': "\<exists>v. env_create_account env (ai_key (lo_executor a)) (ai_key (lo_op_info a)) n
      (foreign w) = Some v" for n
    using space [of n] by simp
  from l obtain w1 p x where acc: "load_operation_accounts env a d h w = Inr (w1, p, x)"
    by (auto simp: load_operation_def result_simps)
  from acc obtain v where acc': "load_operation_accounts env a d' h w =
      Inr (store (lo_op_info a) (AOp op_info_zeroed) (w\<lparr>foreign := v\<rparr>), p, op_info_zeroed)"
    using space' [of "OpInfo_len (env_borsh_op env) d'"] unfolding load_operation_accounts_def f
    by (auto simp: init_account_def result_simps)
  from l acc have "pi_protocol_address p = od_protocol_addr d"
    "op_hash_with_message (env_keccak env) d = Inr h"
    "od_dest_chain_id d = SOLANA_CHAIN_ID (env_network env)"
    "od_protocol_id d \<noteq> replicate 32 0" "length (od_protocol_id d) = 32"
    by (auto simp: load_operation_def result_simps)
  then have "load_operation env a d' h w = Inr (store (lo_op_info a)
      (AOp (op_info_zeroed\<lparr>oi_op_data := d', oi_status := StInit\<rparr>))
      (emit (ProposalLoaded h (ai_key (lo_executor a)))
        (store (lo_op_info a) (AOp op_info_zeroed) (w\<lparr>foreign := v\<rparr>))))"
    unfolding load_operation_def acc' using hash f by simp
  then show ?thesis by (simp add: op_info_zeroed_def)
qed

theorem load_accepts_shifted_params_witness:
  "\<exists>w2. load_operation sample_env load_accs_1 (op_1\<lparr>od_params := [], od_reserved := replicate 32 5\<rparr>)
     hash_1 w_init = Inr w2"
  using load_accepts_shifted_params [OF sample_load,
      of "op_1\<lparr>od_params := [], od_reserved := replicate 32 5\<rparr>"]
  by (auto simp: op_1_def op_data_zeroed_def)

subsection \<open>Cross-program calls\<close>

text \<open>C8: \<^verbatim>\<open>execute_operation\<close> runs only a \<^verbatim>\<open>Signed\<close> operation for a signing executor of its protocol,
  and makes exactly one cross-program call: to the operation's own protocol address (which must be
  the first extra account), signed as the protocol's call authority, with the discriminator and
  payload of the operation's selector and parameters. Only if that call succeeds is the operation
  marked \<^verbatim>\<open>Executed\<close>, with its data and signers unchanged.\<close>

theorem execute_operation_correct:
  assumes "execute_operation env a remaining h w = Inr w'"
  shows "\<exists>x bump p kp meth payload first rest w1.
      accounts w (ai_key (ec_op_info a)) = Some (AOp x) \<and> oi_status x = StSigned
    \<and> (\<exists>b. env_find_pda env [ROOT, str ''OP'', h] (env_photon_id env) = Some (ai_key (ec_op_info a), b))
    \<and> (\<exists>b. env_find_pda env [ROOT, str ''PROTOCOL'', od_protocol_id (oi_op_data x)] (env_photon_id env)
         = Some (kp, b))
    \<and> accounts w kp = Some (AProtocol p)
    \<and> ai_is_signer (ec_executor a) \<and> ai_key (ec_executor a) \<in> set (pi_executors p)
    \<and> remaining = first # rest \<and> ai_key first = od_protocol_addr (oi_op_data x)
    \<and> (meth, payload) =
        (case od_function_selector (oi_op_data x) of
           ByCode s \<Rightarrow> (str ''receive_photon_msg'', env_borsh_msg_sel env
             \<lparr>pms_op_hash = h, pms_selector = s, pms_params = od_params (oi_op_data x)\<rparr>)
         | ByName n \<Rightarrow> (n, env_borsh_msg env \<lparr>pm_params = od_params (oi_op_data x)\<rparr>)
         | Dummy \<Rightarrow> ([], []))
    \<and> env_invoke_signed env
        \<lparr>ix_program_id = od_protocol_addr (oi_op_data x),
         ix_data = sighash (env_sha256 env) (str ''global'') meth @ payload,
         ix_accounts = List.map meta_of (filter (\<lambda>i. ai_key i \<noteq> od_protocol_addr (oi_op_data x))
           ([first, ec_executor a, (ec_call_authority a)\<lparr>ai_is_signer := True\<rparr>, ec_op_info a] @ rest))\<rparr>
        ([first, ec_executor a, (ec_call_authority a)\<lparr>ai_is_signer := True\<rparr>, ec_op_info a] @ rest)
        [ROOT, str ''CALL_AUTHORITY'', od_protocol_id (oi_op_data x), [bump]] w = Inr w1
    \<and> accounts w' = (accounts w1)(ai_key (ec_op_info a) \<mapsto> AOp (x\<lparr>oi_status := StExecuted\<rparr>))
    \<and> events w' = events w1 @ [ProposalExecuted h (ai_key (ec_executor a))]"
proof -
  from execute_operation_effect [OF assms] obtain x bump infos meth payload w1 where
    acc: "execute_operation_accounts env a h w = Inr (x, bump)"
    and i: "execute_infos a (od_protocol_addr (oi_op_data x)) remaining = Inr infos"
    and c: "call_payload env h (oi_op_data x) = Inr (meth, payload)"
    and r: "env_invoke_signed env
        \<lparr>ix_program_id = od_protocol_addr (oi_op_data x),
         ix_data = sighash (env_sha256 env) (str ''global'') meth @ payload,
         ix_accounts =
           List.map meta_of (filter (\<lambda>i. ai_key i \<noteq> od_protocol_addr (oi_op_data x)) infos)\<rparr>
        infos [ROOT, str ''CALL_AUTHORITY'', od_protocol_id (oi_op_data x), [bump]] w = Inr w1"
      "accounts w' = (accounts w1)(ai_key (ec_op_info a) \<mapsto> AOp (x\<lparr>oi_status := StExecuted\<rparr>))"
      "events w' = events w1 @ [ProposalExecuted h (ai_key (ec_executor a))]"
    by blast
  from i obtain first rest where f: "remaining = first # rest"
      "ai_key first = od_protocol_addr (oi_op_data x)"
      "infos = [first, ec_executor a, (ec_call_authority a)\<lparr>ai_is_signer := True\<rparr>, ec_op_info a] @ rest"
    by (auto simp: execute_infos_def result_simps split: list.splits)
  have m: "(meth, payload) =
        (case od_function_selector (oi_op_data x) of
           ByCode s \<Rightarrow> (str ''receive_photon_msg'', env_borsh_msg_sel env
             \<lparr>pms_op_hash = h, pms_selector = s, pms_params = od_params (oi_op_data x)\<rparr>)
         | ByName n \<Rightarrow> (n, env_borsh_msg env \<lparr>pm_params = od_params (oi_op_data x)\<rparr>)
         | Dummy \<Rightarrow> ([], []))"
    using c by (auto simp: call_payload_def split: function_selector.splits)
  show ?thesis
    using acc r m f(1,2) unfolding execute_operation_accounts_effect f(3) by blast
qed

theorem execute_operation_correct_witness:
  "ai_key (mut_acc (replicate 32 7)) = od_protocol_addr op_1"
  using execute_operation_correct [OF sample_execute [of "[]"]]
  by (auto simp: run_world_def execute_accs_1_def acc_simps op_info_1_def)

text \<open>The call authority, the parameters and the code, each exchanged.\<close>

lemma receive_with:
  assumes "receive_photon_msg env a h code ps w = Inr w'" "ai_is_signer ca"
  obtains w2 x c t where
    "receive_photon_msg_accounts env (a\<lparr>rp_call_authority := ca\<rparr>) h w = Inr (w2, x, c, t)"
    "\<And>code' ps'. receive_photon_msg env (a\<lparr>rp_call_authority := ca\<rparr>) h code' ps' w =
       bindE (handle_gov_operation env c t code' (oi_op_data x)) (\<lambda>(c', t', evs).
         Inr (store (rp_target_protocol_info a) (AProtocol t') (store (rp_config a) (AConfig c') (fold emit evs w2))))"
    "receive_photon_msg env (a\<lparr>rp_call_authority := ca\<rparr>) h code ps w = Inr w'"
proof -
  from assms(1) obtain w2 x c t where acc: "receive_photon_msg_accounts env a h w = Inr (w2, x, c, t)"
    unfolding receive_photon_msg_def by (cases "receive_photon_msg_accounts env a h w") auto
  then have ca: "receive_photon_msg_accounts env (a\<lparr>rp_call_authority := ca\<rparr>) h w = Inr (w2, x, c, t)"
    using assms(2) receive_photon_msg_accounts_effect [OF acc]
    by (simp add: receive_photon_msg_accounts_def check_signer_def)
  have "od_protocol_id (oi_op_data x) = gov_protocol_id \<and> od_protocol_addr (oi_op_data x) = env_photon_id env"
    using assms(1) acc by (auto simp: receive_photon_msg_def result_simps Let_def)
  moreover from this assms(1) acc ca have "receive_photon_msg env (a\<lparr>rp_call_authority := ca\<rparr>) h code ps w = Inr w'"
    by (simp add: receive_photon_msg_def Let_def)
  ultimately show thesis using ca by (intro that [OF ca]) (simp_all add: receive_photon_msg_def Let_def)
qed

lemma current_unique: "current w k z a \<Longrightarrow> current w k z b \<Longrightarrow> a = b"
  by (auto simp: current_def)

text \<open>C13: The documentation of \<^verbatim>\<open>receive_photon_msg\<close> says it is invoked by the photon layer under a call
  authority verified there, with the code of the operation's selector. The handler tests neither. Once a
  call succeeds, it also succeeds with any account that signs in place of the call authority and with any
  \<^verbatim>\<open>params\<close>; and for every other \<^verbatim>\<open>code\<close>, whatever selector the transmitters signed, the outcome is that of
  the governance operation with this code on the data of the operation: it fails when that fails, and
  otherwise its target record and config are stored. The operation stays \<^verbatim>\<open>Signed\<close>, so an executor of the
  governance protocol can call again.\<close>

theorem receive_photon_msg_unbound:
  assumes r: "receive_photon_msg env a h code ps w = Inr w'" and ca: "ai_is_signer ca"
  shows "receive_photon_msg env (a\<lparr>rp_call_authority := ca\<rparr>) h code ps' w = Inr w'
    \<and> (\<exists>x c t. accounts w (ai_key (rp_op_info a)) = Some (AOp x) \<and> oi_status x = StSigned
        \<and> current w (ai_key (rp_config a)) (AConfig config_default) (AConfig c)
        \<and> current w (ai_key (rp_target_protocol_info a)) (AProtocol protocol_info_default) (AProtocol t)
        \<and> (\<forall>code'. case handle_gov_operation env c t code' (oi_op_data x) of
             Inl e \<Rightarrow> receive_photon_msg env (a\<lparr>rp_call_authority := ca\<rparr>) h code' ps' w = Inl e
           | Inr (c', t', evs) \<Rightarrow>
               (\<exists>w''. receive_photon_msg env (a\<lparr>rp_call_authority := ca\<rparr>) h code' ps' w = Inr w''
                  \<and> accounts w'' = (accounts w)(ai_key (rp_config a) \<mapsto> AConfig c',
                      ai_key (rp_target_protocol_info a) \<mapsto> AProtocol t')
                  \<and> accounts w'' (ai_key (rp_op_info a)) = Some (AOp x) \<and> events w'' = events w @ evs)))"
proof -
  let ?a = "a\<lparr>rp_call_authority := ca\<rparr>"
  obtain w2 x c t where
    acc: "receive_photon_msg_accounts env ?a h w = Inr (w2, x, c, t)"
    and any: "\<And>code' ps'. receive_photon_msg env ?a h code' ps' w =
       bindE (handle_gov_operation env c t code' (oi_op_data x)) (\<lambda>(c', t', evs).
         Inr (store (rp_target_protocol_info a) (AProtocol t') (store (rp_config a) (AConfig c') (fold emit evs w2))))"
    and same: "receive_photon_msg env ?a h code ps w = Inr w'"
    by (rule receive_with [OF r ca]) (rule that)
  have "receive_photon_msg env ?a h code ps' w = Inr w'" using any [of code ps'] any [of code ps] same by simp
  moreover obtain b where op: "env_find_pda env [ROOT, str ''OP'', h] (env_photon_id env) = Some (ai_key (rp_op_info a), b)"
      "accounts w (ai_key (rp_op_info a)) = Some (AOp x)" "oi_status x = StSigned"
    using receive_photon_msg_accounts_effect [OF acc] by auto
  moreover have cur: "current w (ai_key (rp_config a)) (AConfig config_default) (AConfig c)"
      "current w (ai_key (rp_target_protocol_info a)) (AProtocol protocol_info_default) (AProtocol t)"
    and ne: "ai_key (rp_target_protocol_info a) \<noteq> ai_key (rp_config a)"
    and w2: "accounts w2 = (accounts w)(ai_key (rp_config a) \<mapsto> AConfig c,
      ai_key (rp_target_protocol_info a) \<mapsto> AProtocol t)" "events w2 = events w"
    using receive_photon_msg_accounts_current [OF acc] by simp_all
  moreover have "case handle_gov_operation env c t code' (oi_op_data x) of
      Inl e \<Rightarrow> receive_photon_msg env ?a h code' ps' w = Inl e
    | Inr (c', t', evs) \<Rightarrow>
        (\<exists>w''. receive_photon_msg env ?a h code' ps' w = Inr w''
           \<and> accounts w'' = (accounts w)(ai_key (rp_config a) \<mapsto> AConfig c',
               ai_key (rp_target_protocol_info a) \<mapsto> AProtocol t')
           \<and> accounts w'' (ai_key (rp_op_info a)) = Some (AOp x) \<and> events w'' = events w @ evs)" for code'
  proof -
    have "ai_key (rp_op_info a) \<noteq> ai_key (rp_config a)" "ai_key (rp_op_info a) \<noteq> ai_key (rp_target_protocol_info a)"
      using op(2) cur by (auto simp: current_def)
    then show ?thesis using ne w2 op(2) by (auto simp: any fun_upd_twist split: sum.split)
  qed
  ultimately show ?thesis by blast
qed

definition receive_accs_1 :: receive_accs where
  "receive_accs_1 = \<lparr>rp_executor = signer_acc (key 4), rp_call_authority = signer_acc authority_key,
     rp_op_info = mut_acc (op_key hash_1), rp_config = mut_acc config_key,
     rp_gov_info = mut_acc gov_key,
     rp_target_protocol_info = mut_acc (ROOT @ str ''PROTOCOL'' @ replicate 32 5),
     rp_system_program = mut_acc (key 9)\<rparr>"

lemma target_key_neq [simp]:
  "ROOT @ str ''PROTOCOL'' @ replicate 32 5 \<noteq> gov_key"
  "ROOT @ str ''PROTOCOL'' @ replicate 32 5 \<noteq> config_key"
  "op_key h \<noteq> ROOT @ str ''PROTOCOL'' @ replicate 32 5"
  "ROOT @ str ''PROTOCOL'' @ replicate 32 5 \<noteq> op_key h"
proof -
  show "ROOT @ str ''PROTOCOL'' @ replicate 32 5 \<noteq> gov_key"
  proof
    assume "ROOT @ str ''PROTOCOL'' @ replicate 32 5 = gov_key"
    then have "take 1 (replicate 32 5 :: bytes) = take 1 gov_protocol_id"
      by (simp add: gov_key_def del: seeds_simps)
    then show False by (simp add: gov_protocol_id_def GOV_PROTOCOL_ID_def str_def)
  qed
qed (simp_all add: config_key_def op_key_def str_def del: seeds_simps)

lemma sample_target:
  "target_protocol (env_abi_decode sample_env) (ByCode (gov_selector AddExecutor)) (replicate 32 5) =
     Inr (replicate 32 5)"
proof -
  have "gov_try_from (selector_u32 (gov_selector AddExecutor)) = Inr AddExecutor"
    using selector_u32_code [of AddExecutor "[]"] by (simp only: gov_try_from_iff append_Nil2)
  then show ?thesis
    by (simp add: target_protocol_def target_protocol_by_code_def U32_SIZE_def pad_def)
qed

lemma receive_keys:
  "ai_key (rp_op_info receive_accs_1) = op_key hash_1" "ai_key (rp_config receive_accs_1) = config_key"
  "ai_key (rp_target_protocol_info receive_accs_1) = ROOT @ str ''PROTOCOL'' @ replicate 32 5"
  by (simp_all add: receive_accs_1_def acc_simps)

lemma sample_receive_accounts:
  "receive_photon_msg_accounts sample_env receive_accs_1 hash_1 (run_world StSigned evs) =
     Inr ((run_world StSigned evs)\<lparr>accounts := (accounts (run_world StSigned evs))
       (ROOT @ str ''PROTOCOL'' @ replicate 32 5 \<mapsto> AProtocol protocol_info_default)\<rparr>,
       op_info_1 StSigned, config_1, protocol_info_default)"
  by (simp add: receive_photon_msg_accounts_def receive_accs_1_def run_simps run_world_def w_init_def
      op_info_1_def op_1_def sample_target [simplified] gov_info_1_def key_def)

lemma sample_receive:
  "\<exists>w'. receive_photon_msg sample_env receive_accs_1 hash_1 (gov_selector AddExecutor) ps
       (run_world StSigned evs) = Inr w'
     \<and> accounts w' (ROOT @ str ''PROTOCOL'' @ replicate 32 5) =
       Some (AProtocol (protocol_info_default\<lparr>pi_executors := replicate 32 5 # replicate 19 pubkey_default\<rparr>))"
proof -
  have "handle_gov_operation sample_env config_1 protocol_info_default (gov_selector AddExecutor) op_1 =
     Inr (config_1, protocol_info_default\<lparr>pi_executors := replicate 32 5 # replicate 19 pubkey_default\<rparr>, [])"
    by (simp add: handle_gov_no_tail gov_dispatch_def add_executor_def pubkey_default_def
      executors_of_def protocol_info_default_def MAX_EXECUTORS_def set_executors_eq op_1_def)
  with sample_receive_accounts [of evs] show ?thesis
    by (simp add: receive_photon_msg_def op_info_1_def op_1_def Let_def receive_keys)
qed

text \<open>The registration of a protocol proposes a message, under the first nonce.\<close>

lemma sample_register:
  "\<exists>w' pe. receive_photon_msg sample_env receive_accs_1 hash_1 (gov_selector AddAllowedProtocol) ps
       (run_world StSigned evs) = Inr w' \<and> events w' = evs @ [ProposeEvent pe]"
proof -
  have "\<exists>p pe c. handle_gov_operation sample_env config_1 protocol_info_default (gov_selector AddAllowedProtocol) op_1 =
     Inr (c, p, [ProposeEvent pe])"
    by (simp add: handle_gov_no_tail gov_dispatch_def add_allowed_protocol_def idx_def as_u64_def
        check_consensus_target_rate_def RATE_DECIMALS_def propose_handle_add_allowed_protocol_def config_1_def
        checked_add_def array_simps protocol_info_default_def)
  with sample_receive_accounts [of evs] show ?thesis
    by (auto simp: receive_photon_msg_def op_info_1_def op_1_def Let_def run_world_def)
qed

text \<open>The transmitters signed \<^verbatim>\<open>AddExecutor\<close>; with the code of another operation the call changes the target rate.\<close>

theorem receive_photon_msg_unbound_witness:
  "od_function_selector op_1 = ByCode (gov_selector AddExecutor)
   \<and> (\<exists>w'' t'. receive_photon_msg sample_env (receive_accs_1\<lparr>rp_call_authority := signer_acc (key 4)\<rparr>) hash_1
       (gov_selector SetConsensusTargetRate) [] (run_world StSigned []) = Inr w''
     \<and> accounts w'' (ROOT @ str ''PROTOCOL'' @ replicate 32 5) = Some (AProtocol t')
     \<and> pi_consensus_target_rate t' = 6000 \<and> executors_of t' = [])"
proof -
  obtain w' where r: "receive_photon_msg sample_env receive_accs_1 hash_1 (gov_selector AddExecutor) []
      (run_world StSigned []) = Inr w'"
    using sample_receive by blast
  have "ai_is_signer (signer_acc (key 4))" by (simp add: acc_simps)
  note unbound = receive_photon_msg_unbound [OF r this, of "[]"]
  from unbound [unfolded receive_keys, THEN conjunct2] obtain x c t where
    x: "accounts (run_world StSigned []) (op_key hash_1) = Some (AOp x)"
    and t: "current (run_world StSigned []) (ROOT @ str ''PROTOCOL'' @ replicate 32 5)
        (AProtocol protocol_info_default) (AProtocol t)"
    and any: "\<forall>code'. case handle_gov_operation sample_env c t code' (oi_op_data x) of
        Inl e \<Rightarrow> receive_photon_msg sample_env (receive_accs_1\<lparr>rp_call_authority := signer_acc (key 4)\<rparr>) hash_1
          code' [] (run_world StSigned []) = Inl e
      | Inr (c', t', evs) \<Rightarrow>
          (\<exists>w''. receive_photon_msg sample_env (receive_accs_1\<lparr>rp_call_authority := signer_acc (key 4)\<rparr>) hash_1
             code' [] (run_world StSigned []) = Inr w''
           \<and> accounts w'' = (accounts (run_world StSigned []))(config_key \<mapsto> AConfig c',
               ROOT @ str ''PROTOCOL'' @ replicate 32 5 \<mapsto> AProtocol t')
           \<and> accounts w'' (op_key hash_1) = Some (AOp x) \<and> events w'' = events (run_world StSigned []) @ evs)"
    by (elim exE conjE)
  have "accounts (run_world StSigned []) (ROOT @ str ''PROTOCOL'' @ replicate 32 5) = None"
    by (simp add: run_world_def w_init_def)
  with t have "t = protocol_info_default" by (auto simp: current_def)
  moreover have "x = op_info_1 StSigned" using x by (simp add: run_world_def)
  ultimately have "handle_gov_operation sample_env c t (gov_selector SetConsensusTargetRate) (oi_op_data x) =
      Inr (c, protocol_info_default\<lparr>pi_consensus_target_rate := 6000\<rparr>, [])"
    by (simp add: handle_gov_no_tail gov_dispatch_def set_consensus_target_rate_def idx_def as_u64_def
        check_consensus_target_rate_def RATE_DECIMALS_def)
  with spec [OF any, of "gov_selector SetConsensusTargetRate"] show ?thesis
    by (auto simp: op_1_def executors_of_def protocol_info_default_def)
qed

subsection \<open>Proposals, protocol records and roles\<close>

text \<open>C7: Proposal nonces are consecutive. In every reachable world the proposals emitted so far carry
  the nonces 0, 1, 2, ... in order, up to but excluding the nonce in the config account: no nonce
  is skipped, repeated or wrapped around, whoever proposes (a protocol or governance).\<close>

theorem proposal_nonces_consecutive:
  assumes "reachable env w" "cpi_ok env"
  shows "List.map (\<lambda>p. unat (pe_nonce p)) (proposals (events w)) = [0 ..< config_nonce env w]"
  by (rule reachable_nonces [OF assms])

theorem proposal_nonces_consecutive_witness:
  "\<exists>w. reachable sample_env w \<and> length (proposals (events w)) = 1
     \<and> List.map (\<lambda>p. unat (pe_nonce p)) (proposals (events w)) = [0 ..< config_nonce sample_env w]"
proof -
  obtain w' pe where r: "receive_photon_msg sample_env receive_accs_1 hash_1 (gov_selector AddAllowedProtocol) []
      (run_world StSigned [loaded_ev, approved_ev]) = Inr w'"
    and ev: "events w' = [loaded_ev, approved_ev] @ [ProposeEvent pe]"
    using sample_register by blast
  have reach: "reachable sample_env w'"
    by (rule reachable.call [OF reachable_signed, where
          c = "ReceivePhotonMsg receive_accs_1 hash_1 (gov_selector AddAllowedProtocol) []"]) (simp_all add: r)
  from ev have "length (proposals (events w')) = 1" by (simp add: loaded_ev_def approved_ev_def)
  with reach proposal_nonces_consecutive [OF reach sample_cpi_ok] show ?thesis by blast
qed

text \<open>\<^verbatim>\<open>propose\<close> succeeds only for a signing proposer of the protocol and a selector that encodes;
  it emits exactly one proposal with the caller's data under the config's nonce, adds one to that
  nonce, and changes nothing else.\<close>

theorem propose_correct:
  assumes "propose env a pid dst addr sel ps w = Inr w'"
  shows "\<exists>c p sb. ai_is_signer (pp_proposer a)
    \<and> accounts w (ai_key (pp_protocol_info a)) = Some (AProtocol p)
    \<and> ai_key (pp_proposer a) \<in> set (pi_proposers p) \<and> to_bytes sel = Inr sb
    \<and> accounts w (ai_key (pp_config a)) = Some (AConfig c)
    \<and> accounts w' = (accounts w)(ai_key (pp_config a) \<mapsto> AConfig (c\<lparr>conf_nonce := conf_nonce c + 1\<rparr>))
    \<and> unat (conf_nonce c + 1) = unat (conf_nonce c) + 1
    \<and> events w' = events w @ [ProposeEvent \<lparr>pe_protocol_id = pid, pe_nonce = conf_nonce c,
        pe_dst_chain_id = dst, pe_protocol_address = addr, pe_function_selector = sb,
        pe_params = ps\<rparr>]"
  using propose_effect [OF assms] unat_inc by blast

definition propose_accs_1 :: propose_accs where
  "propose_accs_1 = \<lparr>pp_proposer = signer_acc (key 6), pp_config = mut_acc config_key,
     pp_protocol_info = mut_acc gov_key\<rparr>"

definition w_proposer :: "unit world" where
  "w_proposer = w_init\<lparr>accounts := (accounts w_init)(gov_key \<mapsto>
     AProtocol (gov_info_1\<lparr>pi_proposers := key 6 # replicate 19 pubkey_default\<rparr>))\<rparr>"

lemma sample_propose:
  "\<exists>w'. propose sample_env propose_accs_1 gov_protocol_id 1 [] (ByCode [1]) [] w_proposer = Inr w'"
  by (simp add: propose_def propose_accounts_def propose_accs_1_def run_simps w_proposer_def
      w_init_def checked_add_def config_1_def)

theorem propose_correct_witness:
  "\<exists>w'. propose sample_env propose_accs_1 gov_protocol_id 1 [] (ByCode [1]) [] w_proposer = Inr w'
    \<and> length (events w') = 1"
proof -
  obtain w' where w: "propose sample_env propose_accs_1 gov_protocol_id 1 [] (ByCode [1]) [] w_proposer
      = Inr w'" using sample_propose by blast
  from propose_correct [OF w] have "length (events w') = 1" by (auto simp: w_proposer_def w_init_def)
  with w show ?thesis by blast
qed

text \<open>C15: In every reachable world the protocol records are clean. The arrays have their 20 slots with
  entries of the right width; the proposers are different keys without a gap, none the default key, with
  default keys behind them; and so are the executors of every protocol but governance, whose target rate is
  at most 100 percent, and positive once the protocol is registered. (\<^verbatim>\<open>initialize\<close> stores the executors and the
  rate of the governance protocol unchecked.)\<close>

theorem reachable_protocols_well_formed:
  assumes "reachable env w" "cpi_ok env" "env_typed env" "accounts w k = Some (AProtocol p)"
  shows "protocol_wf p \<and> roster_clean (pi_proposers p)
    \<and> ((\<exists>b. env_find_pda env [ROOT, str ''PROTOCOL'', gov_protocol_id] (env_photon_id env) = Some (k, b))
       \<or> roster_clean (pi_executors p) \<and> unat (pi_consensus_target_rate p) \<le> RATE_DECIMALS
          \<and> (pi_is_init p \<longrightarrow> 0 < unat (pi_consensus_target_rate p)))"
  using widths.reachable_holds [OF assms(1,2,4)] clean.reachable_holds [OF assms(1,2,4)] assms(3)
  by (simp add: record_clean_def rate_in_range_def)

theorem reachable_protocols_well_formed_witness:
  "\<exists>w p. reachable sample_env w \<and> accounts w (ROOT @ str ''PROTOCOL'' @ replicate 32 5) = Some (AProtocol p)
     \<and> executors_of p = [replicate 32 5] \<and> roster_clean (pi_executors p)"
proof -
  obtain w' where r: "receive_photon_msg sample_env receive_accs_1 hash_1 (gov_selector AddExecutor) []
      (run_world StSigned [loaded_ev, approved_ev]) = Inr w'"
    and p: "accounts w' (ROOT @ str ''PROTOCOL'' @ replicate 32 5) =
      Some (AProtocol (protocol_info_default\<lparr>pi_executors := replicate 32 5 # replicate 19 pubkey_default\<rparr>))"
    using sample_receive by blast
  have reach: "reachable sample_env w'"
    by (rule reachable.call [OF reachable_signed, where
          c = "ReceivePhotonMsg receive_accs_1 hash_1 (gov_selector AddExecutor) []"]) (simp_all add: r)
  have "\<nexists>b. env_find_pda sample_env [ROOT, str ''PROTOCOL'', gov_protocol_id] (env_photon_id sample_env) =
      Some (ROOT @ str ''PROTOCOL'' @ replicate 32 5, b)"
    using target_key_neq(1) [symmetric] by simp
  with reachable_protocols_well_formed [OF reach sample_cpi_ok sample_env_typed p]
  have "roster_clean (pi_executors (protocol_info_default\<lparr>pi_executors := replicate 32 5 # replicate 19 pubkey_default\<rparr>))"
    by metis
  with reach p show ?thesis
    by (intro exI [of _ w'] exI [of _ "protocol_info_default\<lparr>pi_executors := replicate 32 5 # replicate 19 pubkey_default\<rparr>"])
       (simp add: executors_of_def pubkey_default_def)
qed

lemma current_kept:
  "current w k z a \<Longrightarrow> accounts w k = Some b \<Longrightarrow> a = b"
  by (simp add: current_def)

lemma op_calls_keep:
  assumes "exec_call env c w = Inr w'" "accounts w k = Some a" "\<forall>x. a \<noteq> AOp x"
    and "(\<exists>b d h. c = LoadOperation b d h) \<or> (\<exists>b h sigs. c = SignOperation b h sigs)"
  shows "accounts w' k = Some a"
  using assms(4)
proof (elim disjE exE)
  fix b d h
  assume "c = LoadOperation b d h"
  with assms(1-3) show ?thesis by (auto simp: loads_def dest!: load_operation_effect)
next
  fix b h sigs
  assume "c = SignOperation b h sigs"
  with assms(1) obtain r where "sign_operation env b h sigs w = Inr (w', r)"
    by (auto simp: result_simps)
  then show ?thesis
    by (rule sign_operation_effect)
      (use assms(2,3) in \<open>auto simp: signs_def sign_operation_accounts_effect\<close>)
qed

lemma execute_keeps:
  assumes "execute_operation env b rem h w = Inr w'" "cpi_ok env"
    and k: "accounts w k = Some a" "\<forall>x. a \<noteq> AOp x"
  shows "accounts w' k = Some a
    \<or> (\<exists>h' code y kt kc w1. receives env w h' code y kt kc w1 \<and> accounts w' k = accounts w1 k)"
proof -
  from execute_operation_effect [OF assms(1)] obtain x bump ix infos seeds w1 where
    x: "execute_operation_accounts env b h w = Inr (x, bump)"
    and r: "env_invoke_signed env ix infos seeds w = Inr w1"
    and w': "accounts w' = (accounts w1)(ai_key (ec_op_info b) \<mapsto> AOp (x\<lparr>oi_status := StExecuted\<rparr>))"
    by blast
  have "k \<noteq> ai_key (ec_op_info b)"
    using x k by (auto simp: execute_operation_accounts_effect)
  with w' have "accounts w' k = accounts w1 k" by simp
  with assms(2) r k(1) show ?thesis
    unfolding cpi_ok_def by (metis receive_photon_msg_effect)
qed

lemma receives_other:
  assumes "receives env w h code x kt kc w'" "accounts w k = Some (AProtocol p)"
    "accounts w' k \<noteq> Some (AProtocol p)"
  shows "\<exists>ko. accounts w ko = Some (AOp x) \<and> oi_status x = StSigned
    \<and> od_protocol_id (oi_op_data x) = GOV_PROTOCOL_ID
    \<and> od_protocol_addr (oi_op_data x) = env_photon_id env"
  using assms(1) unfolding receives_def gov_protocol_id_def by blast

lemma initialize_other:
  assumes c: "initialize env a chain master rate ts es w = Inr w'"
    and k: "accounts w k = Some (AProtocol p)" and ch: "accounts w' k \<noteq> Some (AProtocol p)"
  shows "ai_is_signer (in_admin a)
    \<and> (\<exists>cfg b. env_find_pda env [ROOT, str ''PROTOCOL'', gov_protocol_id] (env_photon_id env) = Some (k, b)
      \<and> current w (ai_key (in_config a)) (AConfig config_default) (AConfig cfg)
      \<and> (ai_key (in_admin a) = env_deployer env \<or> ai_key (in_admin a) = conf_admin cfg))"
  using c
proof (rule initialize_effect)
  fix q p1 p2 cfg b b'
  assume a: "ai_is_signer (in_admin a)"
    "env_find_pda env [ROOT, str ''PROTOCOL'', gov_protocol_id] (env_photon_id env) =
     Some (ai_key (in_protocol_info a), b)"
    "current w (ai_key (in_config a)) (AConfig config_default) (AConfig cfg)"
    "ai_key (in_admin a) = conf_admin cfg \<or> ai_key (in_admin a) = env_deployer env"
    and w': "accounts w' = (accounts w)(ai_key (in_protocol_info a) \<mapsto> AProtocol p2,
     ai_key (in_config a) \<mapsto> AConfig (cfg\<lparr>conf_admin := ai_key (in_admin a),
       conf_eob_chain_id := chain, conf_eob_master := master\<rparr>))"
  have "k \<noteq> ai_key (in_config a)" using a(3) k by (auto simp: current_def)
  with w' k ch have "k = ai_key (in_protocol_info a)" by (auto split: if_splits)
  with a show ?thesis by blast
qed

text \<open>C6: Who may change a protocol's record: a call that changes or removes an existing record is
  either \<^verbatim>\<open>initialize\<close>, signed by the deployer or by the admin stored in the config, and then the record is the governance
  protocol's; or it acts on an operation of the governance protocol, addressed to this program,
  that is \<^verbatim>\<open>Signed\<close>, directly or through \<^verbatim>\<open>execute_operation\<close>.\<close>

theorem protocol_changes_authorised:
  assumes cpi: "cpi_ok env" and c: "exec_call env c w = Inr w'"
    and k: "accounts w k = Some (AProtocol p)" and ch: "accounts w' k \<noteq> Some (AProtocol p)"
  shows "(\<exists>a chain master rate ts es cfg b. c = Initialize a chain master rate ts es
        \<and> ai_is_signer (in_admin a)
        \<and> env_find_pda env [ROOT, str ''PROTOCOL'', gov_protocol_id] (env_photon_id env) = Some (k, b)
        \<and> current w (ai_key (in_config a)) (AConfig config_default) (AConfig cfg)
        \<and> (ai_key (in_admin a) = env_deployer env \<or> ai_key (in_admin a) = conf_admin cfg))
    \<or> (\<exists>ko x. accounts w ko = Some (AOp x) \<and> oi_status x = StSigned
        \<and> od_protocol_id (oi_op_data x) = GOV_PROTOCOL_ID
        \<and> od_protocol_addr (oi_op_data x) = env_photon_id env
        \<and> ((\<exists>a h code ps. c = ReceivePhotonMsg a h code ps) \<or> (\<exists>a rem h. c = ExecuteOperation a rem h)))"
proof (cases c)
  case (Initialize a chain master rate ts es)
  with c have "initialize env a chain master rate ts es w = Inr w'" by simp
  from initialize_other [OF this k ch] Initialize show ?thesis by blast
next
  case (LoadOperation a d h)
  with op_calls_keep [OF c k] ch show ?thesis by simp
next
  case (SignOperation a h sigs)
  with op_calls_keep [OF c k] ch show ?thesis by simp
next
  case (ExecuteOperation a rem h)
  with c have "execute_operation env a rem h w = Inr w'" by simp
  from execute_keeps [OF this cpi k] ch obtain h' code y kt kc w1 where
    "receives env w h' code y kt kc w1" "accounts w1 k \<noteq> Some (AProtocol p)" by auto
  from receives_other [OF this(1) k this(2)] ExecuteOperation show ?thesis by blast
next
  case (Propose a pid dst addr sel ps)
  with c k ch show ?thesis by (auto dest!: propose_effect split: if_splits)
next
  case (ReceivePhotonMsg a h code ps)
  with c obtain y kt kc where "receives env w h code y kt kc w'"
    using receive_photon_msg_effect by fastforce
  from receives_other [OF this k ch] ReceivePhotonMsg show ?thesis by blast
next
  case (SetAdmin a admin)
  with c k ch show ?thesis by (auto dest!: set_admin_effect split: if_splits)
qed

definition w_reset :: "unit world" where
  "w_reset = w_init\<lparr>accounts := (accounts w_init)(gov_key \<mapsto> AProtocol protocol_info_default)\<rparr>"

theorem protocol_changes_authorised_witness:
  "\<exists>cfg. current w_reset config_key (AConfig config_default) (AConfig cfg)
     \<and> (key 8 = env_deployer sample_env \<or> key 8 = conf_admin cfg)"
proof -
  obtain w' where i: "initialize sample_env init_accs 5 (key 3) 6000 [replicate 20 1] [key 4] w_reset = Inr w'"
      and g: "accounts w' gov_key = Some (AProtocol gov_info_1)"
    by (simp add: initialize_def initialize_accounts_def init_accs_def run_simps w_reset_def
      w_init_def Let_def set_transmitters_eq set_executors_eq protocol_info_default_def
      gov_info_1_def config_1_def key_def)
  have g': "accounts w_reset gov_key = Some (AProtocol protocol_info_default)"
      "accounts w' gov_key \<noteq> Some (AProtocol protocol_info_default)"
    by (simp_all add: g gov_info_1_def protocol_info_default_def w_reset_def)
  have k: "ai_key (in_config init_accs) = config_key" "ai_key (in_admin init_accs) = key 8"
    by (simp_all add: init_accs_def acc_simps)
  have c: "exec_call sample_env (Initialize init_accs 5 (key 3) 6000 [replicate 20 1] [key 4]) w_reset
      = Inr w'" using i by simp
  from protocol_changes_authorised [OF sample_cpi_ok c g'] show ?thesis by (auto simp only: k call.simps)
qed

lemma receives_config:
  assumes "receives env w h code x kt kc w1" and k: "accounts w k = Some (AConfig cfg)"
  shows "\<exists>cfg'. accounts w1 k = Some (AConfig cfg') \<and> conf_admin cfg' = conf_admin cfg"
proof -
  from assms(1) obtain c0 c1 t t' evs where r:
    "current w kc (AConfig config_default) (AConfig c0)" "kt \<noteq> kc"
    "current w kt (AProtocol protocol_info_default) (AProtocol t)"
    "handle_gov_operation env c0 t code (oi_op_data x) = Inr (c1, t', evs)"
    "accounts w1 = (accounts w)(kc \<mapsto> AConfig c1, kt \<mapsto> AProtocol t')"
    unfolding receives_def by blast
  have "k \<noteq> kt" using current_kept [OF r(3)] k by auto
  moreover have "k = kc \<Longrightarrow> c0 = cfg" using current_kept [OF r(1)] k by auto
  moreover have "conf_admin c1 = conf_admin c0" using handle_gov_effect [OF r(4)] by auto
  ultimately show ?thesis using r(5) k by (cases "k = kc") auto
qed

text \<open>C12: The stored admin changes only by \<^verbatim>\<open>set_admin\<close>, which only the deployer may sign, or by
  \<^verbatim>\<open>initialize\<close>, which only the deployer or the current admin may sign and which makes its signer the
  admin; a config account never disappears.\<close>

theorem admin_changes_authorised:
  assumes cpi: "cpi_ok env" and c: "exec_call env c w = Inr w'"
    and k: "accounts w k = Some (AConfig cfg)"
  shows "\<exists>cfg'. accounts w' k = Some (AConfig cfg') \<and>
    (conf_admin cfg' = conf_admin cfg
     \<or> (\<exists>a admin. c = SetAdmin a admin \<and> ai_is_signer (sa_deployer a)
          \<and> ai_key (sa_deployer a) = env_deployer env \<and> conf_admin cfg' = admin)
     \<or> (\<exists>a chain master rate ts es. c = Initialize a chain master rate ts es
          \<and> ai_is_signer (in_admin a) \<and> conf_admin cfg' = ai_key (in_admin a)
          \<and> (ai_key (in_admin a) = env_deployer env \<or> ai_key (in_admin a) = conf_admin cfg)))"
proof (cases c)
  case (Initialize a chain master rate ts es)
  with c have "initialize env a chain master rate ts es w = Inr w'" by simp
  then show ?thesis
  proof (rule initialize_effect)
    fix q p1 p2 c0 b b'
    assume a: "ai_is_signer (in_admin a)"
      "current w (ai_key (in_config a)) (AConfig config_default) (AConfig c0)"
      "current w (ai_key (in_protocol_info a)) (AProtocol protocol_info_default) (AProtocol q)"
      "ai_key (in_admin a) = conf_admin c0 \<or> ai_key (in_admin a) = env_deployer env"
      and w': "accounts w' = (accounts w)(ai_key (in_protocol_info a) \<mapsto> AProtocol p2,
       ai_key (in_config a) \<mapsto> AConfig (c0\<lparr>conf_admin := ai_key (in_admin a),
         conf_eob_chain_id := chain, conf_eob_master := master\<rparr>))"
    have "k \<noteq> ai_key (in_protocol_info a)" using current_kept [OF a(3)] k by auto
    moreover have "k = ai_key (in_config a) \<Longrightarrow> c0 = cfg" using current_kept [OF a(2)] k by auto
    ultimately show ?thesis using a(1,4) w' k Initialize by (cases "k = ai_key (in_config a)") auto
  qed
next
  case (LoadOperation a d h)
  with op_calls_keep [OF c k] show ?thesis by simp
next
  case (SignOperation a h sigs)
  with op_calls_keep [OF c k] show ?thesis by simp
next
  case (ExecuteOperation a rem h)
  with c have "execute_operation env a rem h w = Inr w'" by simp
  from execute_keeps [OF this cpi k] show ?thesis by (auto dest: receives_config [OF _ k])
next
  case (Propose a pid dst addr sel ps)
  with c k show ?thesis by (auto dest!: propose_effect)
next
  case (ReceivePhotonMsg a h code ps)
  with c show ?thesis by (auto dest!: receive_photon_msg_effect dest: receives_config [OF _ k])
next
  case (SetAdmin a admin)
  with c k show ?thesis by (auto dest!: set_admin_effect)
qed

theorem admin_changes_authorised_witness:
  "\<exists>cfg'. accounts (run_world StInit [loaded_ev]) config_key = Some (AConfig cfg') \<and> conf_admin cfg' = key 8"
proof -
  have "accounts w_init config_key = Some (AConfig config_1)" by (simp add: w_init_def)
  from admin_changes_authorised [OF sample_cpi_ok _ this, where
      c = "LoadOperation load_accs_1 op_1 hash_1" and w' = "run_world StInit [loaded_ev]"]
  show ?thesis by (auto simp: sample_load config_1_def)
qed

end
