(* ===== verification/Transmitter_Data.thy ===== *)
theory Transmitter_Data
  imports Endpoint_Props
begin

section \<open>Messages of the off-chain transmitter\<close>

text \<open>
  \<^verbatim>\<open>transmitter-common/src/data.rs\<close>: the operation record the listener, watcher and executor exchange,
  its hash, its conversion into the on-chain record, and the field encodings of its JSON form
  (\<^verbatim>\<open>serde\<close> itself, which lays the fields out, is not modelled). The selector is a plain byte
  string here, with its type and length bytes, where the program has a structured one: the main
  result is when the two sides hash the same operation alike.
\<close>

subsection \<open>Records\<close>

definition default_meta :: bytes where
  "default_meta = replicate 31 0 @ [1]"

record t_operation_data =
  td_protocol_id :: bytes
  td_meta :: bytes
  td_src_chain_id :: u128
  td_src_block_number :: u64
  td_src_op_tx_id :: bytes
  td_nonce :: u64
  td_dest_chain_id :: u128
  td_protocol_addr :: bytes
  td_function_selector :: bytes
  td_params :: bytes
  td_reserved :: bytes

record t_signature =
  ts_v :: u8
  ts_r :: bytes
  ts_s :: bytes

definition signature_into :: "t_signature \<Rightarrow> transmitter_signature" where
  "signature_into s = \<lparr>sig_v = ts_v s, sig_r = ts_r s, sig_s = ts_s s\<rparr>"

record signed_operation =
  so_operation_data :: t_operation_data
  so_signatures :: "t_signature list"
  so_eob_block_number :: u64

record t_propose =
  tp_need_check :: bool
  tp_latest_block_id :: string
  tp_operation_data :: t_operation_data

record t_proposal_executed =
  tx_need_check :: bool
  tx_last_watched_block :: string
  tx_op_hash :: bytes
  tx_executor :: bytes

datatype transmitter_msg_impl =
    MsgPropose t_propose
  | MsgProposalExecuted t_proposal_executed
  | MsgSignedOperation signed_operation

datatype transmitter_msg_versioned = V1 transmitter_msg_impl

record transmitter_msg =
  tm_need_check :: "bool option"
  tm_msg :: transmitter_msg_versioned

definition transmitter_msg_new :: "transmitter_msg_impl \<Rightarrow> bool \<Rightarrow> transmitter_msg" where
  "transmitter_msg_new m need_check = \<lparr>tm_need_check = Some need_check, tm_msg = V1 m\<rparr>"

subsection \<open>Hash and conversion\<close>

definition t_op_data_evm :: "t_operation_data \<Rightarrow> bytes" where
  "t_op_data_evm d =
     td_protocol_id d
     @ td_meta d
     @ u128_to_bytes32 (td_src_chain_id d)
     @ u64_to_bytes32 (td_src_block_number d)
     @ td_src_op_tx_id d
     @ u64_to_bytes32 (td_nonce d)
     @ u128_to_bytes32 (td_dest_chain_id d)
     @ td_protocol_addr d
     @ td_function_selector d
     @ td_params d
     @ td_reserved d"

definition t_op_hash :: "(bytes \<Rightarrow> bytes) \<Rightarrow> t_operation_data \<Rightarrow> bytes" where
  "t_op_hash kec d = kec (t_op_data_evm d)"

definition t_op_hash_with_message :: "(bytes \<Rightarrow> bytes) \<Rightarrow> t_operation_data \<Rightarrow> err + bytes" where
  "t_op_hash_with_message kec d =
     bindE (hash_with_message kec (t_op_hash kec d)) (\<lambda>h.
       if length h < 32 then Inl (Panic IndexOutOfBounds) else Inr (take 32 h))"

text \<open>\<^verbatim>\<open>TryFrom<OperationData>\<close>: a protocol address that is not a 32-byte key is the error itself.\<close>

definition operation_try_from :: "t_operation_data \<Rightarrow> conv_error + operation_data" where
  "operation_try_from v =
     bindE (if length (td_protocol_addr v) = 32 then Inr (td_protocol_addr v)
            else Inl (ConvErr (td_protocol_addr v))) (\<lambda>addr.
     bindE (selector_try_from (td_function_selector v)) (\<lambda>sel.
     Inr \<lparr>od_protocol_id = td_protocol_id v, od_meta = td_meta v,
          od_src_chain_id = td_src_chain_id v, od_src_block_number = td_src_block_number v,
          od_src_op_tx_id = td_src_op_tx_id v, od_nonce = td_nonce v,
          od_dest_chain_id = td_dest_chain_id v, od_protocol_addr = addr,
          od_function_selector = sel, od_params = td_params v, od_reserved = td_reserved v\<rparr>))"

subsection \<open>Field encodings\<close>

definition u128_serialize :: "u128 \<Rightarrow> bytes" where
  "u128_serialize n = be_bytes 16 (unat n)"

definition u128_deserialize :: "bytes \<Rightarrow> u128 option" where
  "u128_deserialize bs = (if length bs = 16 then Some (word_of_nat (of_be_bytes bs)) else None)"

definition tx_id_serialize :: "bytes \<Rightarrow> string + bytes list" where
  "tx_id_serialize tx_id =
     (case chunks 32 tx_id of
        [] \<Rightarrow> Inl ''bad tx_id''
      | first # rest \<Rightarrow>
          (case rest of [] \<Rightarrow> Inl ''bad tx_id'' | second # _ \<Rightarrow> Inr [first, second]))"

definition tx_id_deserialize :: "bytes list \<Rightarrow> bytes option" where
  "tx_id_deserialize cs = (if list_all (\<lambda>c. length c = 32) cs then Some (concat cs) else None)"

definition protocol_id_serialize :: "bytes \<Rightarrow> bytes" where
  "protocol_id_serialize pid = pid"

definition protocol_id_deserialize :: "bytes \<Rightarrow> bytes option" where
  "protocol_id_deserialize bs = (if length bs = 32 then Some bs else None)"

subsection \<open>Codec laws\<close>

lemma tx_id_serialize_eq:
  "tx_id_serialize t =
     (if length t \<le> 32 then Inl ''bad tx_id'' else Inr [take 32 t, take 32 (drop 32 t)])"
proof (cases "length t \<le> 32")
  case True
  show ?thesis
  proof (cases "t = []")
    case False
    with True chunks_le [of t 32] show ?thesis by (simp add: tx_id_serialize_def)
  qed (simp add: tx_id_serialize_def chunks.simps)
next
  case False
  then have t: "t \<noteq> []" "drop 32 t \<noteq> []" by auto
  have "chunks 32 t = take 32 t # take 32 (drop 32 t) # chunks 32 (drop 32 (drop 32 t))"
    using t by (subst chunks.simps, subst chunks.simps) simp
  with False show ?thesis by (simp add: tx_id_serialize_def)
qed

definition tx_id_enc :: "bytes \<Rightarrow> bytes list" where
  "tx_id_enc t = (case tx_id_serialize t of Inr cs \<Rightarrow> cs | Inl _ \<Rightarrow> [])"

interpretation tx_codec: codec tx_id_enc tx_id_deserialize "\<lambda>t. length t = 64"
proof
  fix t :: bytes
  assume l: "length t = 64"
  then have "take 32 t @ take 32 (drop 32 t) = t"
    using append_take_drop_id [of 32 t] by simp
  with l show "tx_id_deserialize (tx_id_enc t) = Some t"
    by (simp add: tx_id_enc_def tx_id_serialize_eq tx_id_deserialize_def)
qed

interpretation u128_codec: total_codec u128_serialize u128_deserialize "\<lambda>_. True"
proof
  fix n :: u128
  have "unat n < 256 ^ 16" using unsigned_less [of n, where ?'a = nat] by simp
  then show "u128_deserialize (u128_serialize n) = Some n"
    by (simp add: u128_serialize_def u128_deserialize_def of_be_be_bytes)
next
  fix bs :: bytes and n :: u128
  assume "u128_deserialize bs = Some n"
  then have l: "length bs = 16" and n: "n = word_of_nat (of_be_bytes bs)"
    by (auto simp: u128_deserialize_def split: if_splits)
  have "of_be_bytes bs < 256 ^ 16" using of_be_bytes_bound [of bs] l by simp
  then have "unat n = of_be_bytes bs" by (simp add: n unat_of_nat)
  with l be_of_be_bytes [of bs] show "True \<and> u128_serialize n = bs"
    by (simp add: u128_serialize_def)
qed

interpretation pid_codec: total_codec protocol_id_serialize protocol_id_deserialize "\<lambda>p. length p = 32"
  by unfold_locales
    (auto simp: protocol_id_serialize_def protocol_id_deserialize_def split: if_splits)

text \<open>The fields of an operation as they cross the message queue, each through its own codec.\<close>

definition wire_fields :: "t_operation_data \<Rightarrow> string + t_operation_data \<times> bytes \<times> bytes \<times> bytes list \<times> bytes" where
  "wire_fields d =
     bindE (tx_id_serialize (td_src_op_tx_id d)) (\<lambda>tx.
     Inr (d, protocol_id_serialize (td_protocol_id d), u128_serialize (td_src_chain_id d), tx,
          u128_serialize (td_dest_chain_id d)))"

definition from_wire ::
    "t_operation_data \<times> bytes \<times> bytes \<times> bytes list \<times> bytes \<Rightarrow> t_operation_data option" where
  "from_wire = (\<lambda>(d, pid, src, tx, dst).
     (case (protocol_id_deserialize pid, u128_deserialize src, tx_id_deserialize tx, u128_deserialize dst) of
        (Some p, Some s, Some t, Some e) \<Rightarrow>
          Some (d\<lparr>td_protocol_id := p, td_src_chain_id := s, td_src_op_tx_id := t, td_dest_chain_id := e\<rparr>)
      | _ \<Rightarrow> None))"

subsection \<open>Properties\<close>

lemma operation_queue_roundtrip:
  assumes "length (td_protocol_id d) = 32" "length (td_src_op_tx_id d) = 64"
  shows "\<exists>m. wire_fields d = Inr m \<and> from_wire m = Some d"
proof -
  obtain tx where
    "tx_id_serialize (td_src_op_tx_id d) = Inr tx" "tx_id_deserialize tx = Some (td_src_op_tx_id d)"
    using assms(2) tx_codec.dec_enc [of "td_src_op_tx_id d"] by (auto simp: tx_id_serialize_eq tx_id_enc_def)
  then show ?thesis
    using pid_codec.dec_enc [OF assms(1)] u128_codec.dec_enc
    by (simp add: wire_fields_def from_wire_def)
qed

text \<open>C16: An operation survives the message queue unchanged exactly when its source transaction id has
  64 bytes (as a Solana signature has): a shorter id cannot be sent (up to 32 bytes) or not be
  read back (33 to 63 bytes), and of a longer id only the first 64 bytes arrive.\<close>

theorem operation_survives_queue:
  assumes "length (td_protocol_id d) = 32"
  shows "(\<exists>m. wire_fields d = Inr m \<and> from_wire m = Some d) \<longleftrightarrow> length (td_src_op_tx_id d) = 64"
proof
  assume "length (td_src_op_tx_id d) = 64"
  then show "\<exists>m. wire_fields d = Inr m \<and> from_wire m = Some d" by (rule operation_queue_roundtrip [OF assms])
next
  assume "\<exists>m. wire_fields d = Inr m \<and> from_wire m = Some d"
  then obtain tx t where "tx_id_serialize (td_src_op_tx_id d) = Inr tx"
      "tx_id_deserialize tx = Some t" "td_src_op_tx_id d = t"
    using pid_codec.dec_enc [OF assms] u128_codec.dec_enc
    by (auto simp: wire_fields_def from_wire_def result_simps split: option.splits)
      (metis t_operation_data.select_convs t_operation_data.surjective
        t_operation_data.update_convs(5))
  then have l: "32 < length t" "length (take 32 (drop 32 t)) = 32"
      "take 32 t @ take 32 (drop 32 t) = t"
    by (auto simp: tx_id_serialize_eq tx_id_deserialize_def split: if_splits)
  from l(1,2) arg_cong [OF l(3), of length] have "length t = 64" by simp
  with \<open>td_src_op_tx_id d = t\<close> show "length (td_src_op_tx_id d) = 64" by simp
qed

definition t_op_1 :: t_operation_data where
  "t_op_1 = \<lparr>td_protocol_id = replicate 32 1, td_meta = default_meta, td_src_chain_id = 5,
     td_src_block_number = 6, td_src_op_tx_id = replicate 64 2, td_nonce = 3, td_dest_chain_id = 7,
     td_protocol_addr = replicate 32 4, td_function_selector = [1, 1, 97], td_params = [],
     td_reserved = []\<rparr>"

theorem operation_survives_queue_witness: "\<exists>m. wire_fields t_op_1 = Inr m \<and> from_wire m = Some t_op_1"
  using operation_survives_queue [of t_op_1] by (simp add: t_op_1_def)

lemma conversion_preimage:
  assumes "operation_try_from v = Inr d"
  shows "op_data_evm d = Inr (t_op_data_evm v) \<longleftrightarrow>
    td_function_selector v ! 1 = word_of_nat (length (td_function_selector v) - 2)"
proof -
  from assms obtain sel where s: "selector_try_from (td_function_selector v) = Inr sel"
    and d: "d = \<lparr>od_protocol_id = td_protocol_id v, od_meta = td_meta v,
          od_src_chain_id = td_src_chain_id v, od_src_block_number = td_src_block_number v,
          od_src_op_tx_id = td_src_op_tx_id v, od_nonce = td_nonce v,
          od_dest_chain_id = td_dest_chain_id v, od_protocol_addr = td_protocol_addr v,
          od_function_selector = sel, od_params = td_params v, od_reserved = td_reserved v\<rparr>"
    by (auto simp: operation_try_from_def result_simps split: if_splits)
  from s obtain tag len_byte body where f: "td_function_selector v = tag # len_byte # body"
      "sel = (if tag = 0 then ByCode body else ByName body)" "tag = 0 \<or> tag = 1"
    by (auto simp: selector_try_from_def split: list.splits if_splits)
  then have "selector_evm sel = Inr ([tag, word_of_nat (length body)] @ body)" by auto
  then show ?thesis
    unfolding op_data_evm_def t_op_data_evm_def d f(1) by auto
qed

text \<open>Off-chain and on-chain hash the same bytes for an operation the executor converts exactly when
  the length byte of its selector is the true length: the conversion ignores that byte and the
  program recomputes it. With a wrong length byte \<^verbatim>\<open>load_operation\<close> would be called with a cached
  hash the program does not compute.\<close>

theorem conversion_keeps_preimage:
  assumes "operation_try_from v = Inr d"
  shows "op_data_evm d = Inr (t_op_data_evm v) \<longleftrightarrow>
    td_function_selector v ! 1 = word_of_nat (length (td_function_selector v) - 2)"
  by (rule conversion_preimage [OF assms])

theorem conversion_keeps_preimage_witness:
  "case operation_try_from t_op_1 of Inr d \<Rightarrow> op_data_evm d = Inr (t_op_data_evm t_op_1) | Inl e \<Rightarrow> False"
proof -
  have "utf8_valid [97]" by (rule utf8_valid_ascii) simp
  then obtain d where d: "operation_try_from t_op_1 = Inr d"
    by (simp add: operation_try_from_def t_op_1_def selector_try_from_def)
  with conversion_keeps_preimage [OF d] show ?thesis by (simp add: t_op_1_def)
qed

end
