(* ===== verification/Log_Processors.thy ===== *)
theory Log_Processors
  imports Parse_Logs Transmitter_Data
begin

section \<open>From log lines to messages\<close>

text \<open>
  \<^verbatim>\<open>transmitter-module/src/common/solana_logs/event_processor.rs\<close> and the two processors that implement
  its trait: the listener turns proposals of the allowed protocols into \<^verbatim>\<open>Propose\<close> messages, the watcher
  turns executions into \<^verbatim>\<open>ProposalExecuted\<close> messages. Each writes to an unbounded channel whose
  receiver may be gone. The text form of a transaction signature is a parameter.
\<close>

subsection \<open>Channels\<close>

record 'm channel =
  ch_open :: bool
  ch_queue :: "'m list"

text \<open>\<^verbatim>\<open>UnboundedSender::send\<close>; an error means that the receiver was dropped.\<close>

definition send :: "'m \<Rightarrow> 'm channel \<Rightarrow> unit + 'm channel" where
  "send m c = (if ch_open c then Inr (c\<lparr>ch_queue := ch_queue c @ [m]\<rparr>) else Inl ())"

text \<open>The processors log a failed send and go on.\<close>

definition send_or_log :: "'m \<Rightarrow> 'm channel \<Rightarrow> 'm channel" where
  "send_or_log m c = (case send m c of Inl e \<Rightarrow> c | Inr c' \<Rightarrow> c')"

lemma send_or_log_open [simp]: "ch_open c \<Longrightarrow> send_or_log m c = c\<lparr>ch_queue := ch_queue c @ [m]\<rparr>"
  and send_or_log_closed [simp]: "\<not> ch_open c \<Longrightarrow> send_or_log m c = c"
  by (simp_all add: send_or_log_def send_def)

subsection \<open>The trait\<close>

record logs_bunch =
  lb_need_check :: bool
  lb_tx_signature :: string
  lb_logs :: "string list"
  lb_slot :: u64

type_synonym ('e, 'm) handler = "'e \<Rightarrow> string \<Rightarrow> u64 \<Rightarrow> bool \<Rightarrow> 'm channel \<Rightarrow> panic + 'm channel"

fun each_event :: "('e, 'm) handler \<Rightarrow> logs_bunch \<Rightarrow> 'e list \<Rightarrow> 'm channel \<Rightarrow> panic + 'm channel" where
  "each_event on_event b [] c = Inr c"
| "each_event on_event b (e # es) c =
     bindE (on_event e (lb_tx_signature b) (lb_slot b) (lb_need_check b) c) (each_event on_event b es)"

text \<open>\<^verbatim>\<open>on_logs\<close>: lines that do not parse are logged and skipped as a whole.\<close>

definition on_logs ::
    "'e log_env \<Rightarrow> string \<Rightarrow> ('e, 'm) handler \<Rightarrow> logs_bunch \<Rightarrow> 'm channel \<Rightarrow> panic + 'm channel" where
  "on_logs env photon on_event b c =
     (case parse_logs env (lb_logs b) photon of
        Inl (ParseErr e) \<Rightarrow> Inr c
      | Inl (ParsePanic p) \<Rightarrow> Inl p
      | Inr evs \<Rightarrow> each_event on_event b evs c)"

text \<open>The body of \<^verbatim>\<open>execute\<close>: the bunches in the order of the channel.\<close>

fun execute_bunches ::
    "'e log_env \<Rightarrow> string \<Rightarrow> ('e, 'm) handler \<Rightarrow> logs_bunch list \<Rightarrow> 'm channel \<Rightarrow> panic + 'm channel" where
  "execute_bunches env photon on_event [] c = Inr c"
| "execute_bunches env photon on_event (b # bs) c =
     bindE (on_logs env photon on_event b c) (execute_bunches env photon on_event bs)"

subsection \<open>Listener\<close>

record sig_env =
  sg_from_str :: "string \<Rightarrow> bytes option"
  sg_to_string :: "bytes \<Rightarrow> string"

definition allowed_protocol :: "bytes \<Rightarrow> bytes" where
  "allowed_protocol p = (let n = min (length p) 32 in take n p @ replicate (32 - n) 0)"

record proposal_event_processor =
  pep_allowed_protocols :: "bytes list"

definition proposal_event_processor_new :: "bytes list \<Rightarrow> proposal_event_processor" where
  "proposal_event_processor_new ps = \<lparr>pep_allowed_protocols = List.map allowed_protocol ps\<rparr>"

definition propose_of :: "network \<Rightarrow> sig_env \<Rightarrow> propose_event \<Rightarrow> bytes \<Rightarrow> u64 \<Rightarrow> bool \<Rightarrow> t_propose" where
  "propose_of net sg event sig slot need_check =
     \<lparr>tp_need_check = need_check, tp_latest_block_id = sg_to_string sg sig,
      tp_operation_data =
        \<lparr>td_protocol_id = pe_protocol_id event, td_meta = default_meta,
         td_src_chain_id = SOLANA_CHAIN_ID net, td_src_block_number = slot,
         td_src_op_tx_id = sig, td_nonce = pe_nonce event, td_dest_chain_id = pe_dst_chain_id event,
         td_protocol_addr = pe_protocol_address event, td_function_selector = pe_function_selector event,
         td_params = pe_params event, td_reserved = []\<rparr>\<rparr>"

definition on_propose_event ::
    "network \<Rightarrow> sig_env \<Rightarrow> proposal_event_processor \<Rightarrow> (propose_event, t_propose) handler" where
  "on_propose_event net sg self event sig slot need_check c =
     (if pe_protocol_id event \<notin> set (pep_allowed_protocols self) then Inr c
      else if length (pe_protocol_id event) \<noteq> 32 then Inr c
      else
        (case sg_from_str sg sig of
           None \<Rightarrow> Inr c
         | Some s \<Rightarrow> Inr (send_or_log (propose_of net sg event s slot need_check) c)))"

subsection \<open>Watcher\<close>

record executed_event =
  xv_op_hash :: bytes
  xv_executor :: bytes

definition on_executed_event :: "(executed_event, t_proposal_executed) handler" where
  "on_executed_event event sig slot need_check c =
     (if length (xv_op_hash event) \<noteq> 32 then Inl ExpectFailed
      else Inr (send_or_log
        \<lparr>tx_need_check = need_check, tx_last_watched_block = sig, tx_op_hash = xv_op_hash event,
         tx_executor = xv_executor event\<rparr> c))"

subsection \<open>What a processor sends\<close>

text \<open>
  The contract of \<^verbatim>\<open>on_event\<close>: on the events it \<open>accepts\<close> it sends the messages \<open>msgs\<close>, and it touches a
  channel in no other way. Then the default methods of the trait send the messages of all events, in
  order.
\<close>

definition appended :: "'m list \<Rightarrow> 'm channel \<Rightarrow> 'm channel" where
  "appended ms c = (if ch_open c then c\<lparr>ch_queue := ch_queue c @ ms\<rparr> else c)"

lemma appended_simps [simp]:
  "appended [] c = c" "appended ms (appended ns c) = appended (ns @ ms) c"
  by (simp_all add: appended_def)

lemma send_or_log_appended: "send_or_log m c = appended [m] c"
  by (simp add: appended_def)

locale event_processor =
  fixes on_event :: "('e, 'm) handler"
    and accepts :: "'e \<Rightarrow> bool"
    and msgs :: "'e \<Rightarrow> string \<Rightarrow> u64 \<Rightarrow> bool \<Rightarrow> 'm list"
  assumes on_event_sends: "accepts e \<Longrightarrow> on_event e sig slot need_check c = Inr (appended (msgs e sig slot need_check) c)"
begin

definition bunch_msgs :: "logs_bunch \<Rightarrow> 'e list \<Rightarrow> 'm list" where
  "bunch_msgs b es = concat (List.map (\<lambda>e. msgs e (lb_tx_signature b) (lb_slot b) (lb_need_check b)) es)"

lemma each_event_sends:
  "list_all accepts es \<Longrightarrow> each_event on_event b es c = Inr (appended (bunch_msgs b es) c)"
  by (induction es arbitrary: c) (simp_all add: on_event_sends bunch_msgs_def)

lemma on_logs_sends:
  assumes "parse_logs env (lb_logs b) photon = Inr es" "list_all accepts es"
  shows "on_logs env photon on_event b c = Inr (appended (bunch_msgs b es) c)"
  using assms by (simp add: on_logs_def each_event_sends)

lemma on_logs_skips:
  assumes "parse_logs env (lb_logs b) photon = Inl (ParseErr e)"
  shows "on_logs env photon on_event b c = Inr c"
  using assms by (simp add: on_logs_def)

definition parsed :: "'e log_env \<Rightarrow> string \<Rightarrow> logs_bunch \<Rightarrow> 'e list" where
  "parsed env photon b = (case parse_logs env (lb_logs b) photon of Inr es \<Rightarrow> es | Inl _ \<Rightarrow> [])"

lemma execute_sends:
  assumes "\<And>b p. b \<in> set bs \<Longrightarrow> parse_logs env (lb_logs b) photon \<noteq> Inl (ParsePanic p)"
    and "\<And>b. b \<in> set bs \<Longrightarrow> list_all accepts (parsed env photon b)"
  shows "execute_bunches env photon on_event bs c =
           Inr (appended (concat (List.map (\<lambda>b. bunch_msgs b (parsed env photon b)) bs)) c)"
  using assms
proof (induction bs arbitrary: c)
  case (Cons b bs)
  have "on_logs env photon on_event b c = Inr (appended (bunch_msgs b (parsed env photon b)) c)"
  proof (cases "parse_logs env (lb_logs b) photon")
    case (Inl f)
    with Cons.prems(1) [of b] obtain e where "parse_logs env (lb_logs b) photon = Inl (ParseErr e)"
      by (cases f) auto
    then show ?thesis by (simp add: on_logs_skips parsed_def bunch_msgs_def)
  next
    case (Inr es)
    with Cons.prems(2) [of b] show ?thesis by (simp add: on_logs_sends parsed_def)
  qed
  with Cons show ?case by simp
qed simp

end

definition propose_msgs ::
    "network \<Rightarrow> sig_env \<Rightarrow> proposal_event_processor \<Rightarrow> propose_event \<Rightarrow> string \<Rightarrow> u64 \<Rightarrow> bool \<Rightarrow> t_propose list" where
  "propose_msgs net sg self event sig slot need_check =
     (if pe_protocol_id event \<in> set (pep_allowed_protocols self) \<and> length (pe_protocol_id event) = 32 then
        (case sg_from_str sg sig of None \<Rightarrow> [] | Some s \<Rightarrow> [propose_of net sg event s slot need_check])
      else [])"

definition executed_msgs :: "executed_event \<Rightarrow> string \<Rightarrow> u64 \<Rightarrow> bool \<Rightarrow> t_proposal_executed list" where
  "executed_msgs event sig slot need_check =
     [\<lparr>tx_need_check = need_check, tx_last_watched_block = sig, tx_op_hash = xv_op_hash event,
       tx_executor = xv_executor event\<rparr>]"

interpretation proposals: event_processor "on_propose_event net sg self" "\<lambda>_. True" "propose_msgs net sg self"
  for net sg self
  by unfold_locales
     (simp add: on_propose_event_def propose_msgs_def send_or_log_appended split: option.split)

interpretation executions: event_processor on_executed_event "\<lambda>e. length (xv_op_hash e) = 32" executed_msgs
  by unfold_locales (simp add: on_executed_event_def executed_msgs_def send_or_log_appended)

subsection \<open>From the endpoint to the queue\<close>

text \<open>The padded names have 32 bytes, so the length test of \<^verbatim>\<open>on_event\<close> never rejects.\<close>

lemma length_allowed_protocol [simp]: "length (allowed_protocol p) = 32"
  by (simp add: allowed_protocol_def Let_def)

lemma propose_msgs_new:
  "propose_msgs net sg (proposal_event_processor_new ps) event sig slot need_check =
     (if pe_protocol_id event \<in> allowed_protocol ` set ps then
        (case sg_from_str sg sig of None \<Rightarrow> [] | Some s \<Rightarrow> [propose_of net sg event s slot need_check])
      else [])"
  by (auto simp: propose_msgs_def proposal_event_processor_new_def)

text \<open>
  What \<^verbatim>\<open>emit!\<close> writes: the discriminator and the Borsh form of the event, in base64. \<open>codec_ok\<close> is the
  round trip of the two libraries; the text starts with the fixed discriminator (\<^verbatim>\<open>8vb9LnW1kqU\<close> for a
  proposal) and not with \<open>invoke\<close>.
\<close>

record 'e emit_env =
  em_base64 :: "bytes \<Rightarrow> string"
  em_serialize :: "'e \<Rightarrow> bytes"

definition emitted_line :: "'e log_env \<Rightarrow> 'e emit_env \<Rightarrow> 'e \<Rightarrow> string" where
  "emitted_line env em e = ''Program data: '' @ em_base64 em (le_discriminator env @ em_serialize em e)"

definition codec_ok :: "'e log_env \<Rightarrow> 'e emit_env \<Rightarrow> 'e \<Rightarrow> bool" where
  "codec_ok env em e \<longleftrightarrow>
     length (le_discriminator env) = 8
     \<and> (let bs = le_discriminator env @ em_serialize em e in
          le_base64 env (em_base64 em bs) = Some bs \<and> CHR '' '' \<notin> set (em_base64 em bs)
          \<and> take 6 (em_base64 em bs) \<noteq> ''invoke'')
     \<and> le_deserialize env (em_serialize em e) = Some e"

lemma emitted_line_event:
  assumes "codec_ok env em e"
  shows "line_effect env this this (emitted_line env em e) = Inr (Some e, False)"
  using assms
  by (simp add: line_effect_def codec_ok_def Let_def emitted_line_def handle_program_log_def log_payload_def
      strip_prefix_def)

lemma emitted_line_no_invoke:
  assumes "codec_ok env em e"
  shows "invoke_capture (emitted_line env em e) = None"
proof -
  let ?s = "em_base64 em (le_discriminator env @ em_serialize em e)"
  have "before_last '' invoke'' ?s = None"
    using assms by (intro no_invoke_without_space) (simp add: codec_ok_def Let_def)
  moreover have "take 6 ?s \<noteq> ''invoke''"
    using assms by (simp add: codec_ok_def Let_def)
  moreover have "invoke_capture (''Program data: '' @ s) = None"
    if "before_last '' invoke'' s = None" "take 6 s \<noteq> ''invoke''" for s
    using that by (simp add: invoke_capture_def strip_prefix_def numeral_eq_Suc)
  ultimately show ?thesis by (simp add: emitted_line_def)
qed

lemma emitted_line_harmless:
  assumes "codec_ok env em e"
  shows "harmless env this this (emitted_line env em e)"
    and "line_events env this this (emitted_line env em e) = [e]"
  using emitted_line_event [OF assms] emitted_line_no_invoke [OF assms]
  by (simp_all add: harmless_def line_events_def)

text \<open>
  A transaction in which the endpoint is called, directly or through a proposing program, and emits
  events: each item is a message of the caller that is harmless, or one call of the endpoint.
\<close>

definition endpoint_call :: "'e log_env \<Rightarrow> 'e emit_env \<Rightarrow> string \<Rightarrow> string \<Rightarrow> 'e list \<Rightarrow> log_item" where
  "endpoint_call env em photon depth es = Invocation photon depth (List.map (\<lambda>e. Line (emitted_line env em e)) es)"

lemma endpoint_call_events:
  assumes "\<forall>e \<in> set es. codec_ok env em e"
  shows "tree_events env photon p (endpoint_call env em photon depth es) = es"
  using assms by (induction es) (simp_all add: endpoint_call_def emitted_line_harmless)

lemma endpoint_call_ok:
  assumes "\<forall>e \<in> set es. codec_ok env em e" "name_ok photon" "depth_ok depth"
  shows "tree_ok env photon p (endpoint_call env em photon depth es)"
  using assms by (auto simp: endpoint_call_def list_all_iff emitted_line_harmless)

text \<open>
  What else the log of such a transaction holds: other invocations at the top level (\<open>sr_before\<close>, \<open>sr_after\<close>), the
  messages and calls of the caller around its call of the endpoint (\<open>sr_first\<close>, \<open>sr_last\<close>), and those of the
  endpoint around its event (\<open>sr_enter\<close>, \<open>sr_leave\<close>), such as the name of the instruction and the compute units
  that the runtime logs. They are \<open>silent\<close>: harmless, and no event of the endpoint.
\<close>

record surroundings =
  sr_before :: "log_item list"
  sr_first :: "log_item list"
  sr_enter :: "log_item list"
  sr_leave :: "log_item list"
  sr_last :: "log_item list"
  sr_after :: "log_item list"

definition no_surroundings :: surroundings where
  "no_surroundings =
     \<lparr>sr_before = [], sr_first = [], sr_enter = [], sr_leave = [], sr_last = [], sr_after = []\<rparr>"

definition silent :: "'e log_env \<Rightarrow> string \<Rightarrow> string \<Rightarrow> log_item \<Rightarrow> bool" where
  "silent env this cur i \<longleftrightarrow> tree_ok env this cur i \<and> tree_events env this cur i = []"

fun is_invocation :: "log_item \<Rightarrow> bool" where
  "is_invocation (Invocation p d items) = True"
| "is_invocation (Line l) = False"

definition surroundings_ok :: "'e log_env \<Rightarrow> string \<Rightarrow> string \<Rightarrow> surroundings \<Rightarrow> bool" where
  "surroundings_ok env photon caller sr \<longleftrightarrow>
     list_all (\<lambda>r. is_invocation r \<and> silent env photon [] r) (sr_before sr @ sr_after sr) \<and>
     list_all (silent env photon caller) (sr_first sr @ sr_last sr) \<and>
     list_all (silent env photon photon) (sr_enter sr @ sr_leave sr)"

definition call_roots ::
    "'e log_env \<Rightarrow> 'e emit_env \<Rightarrow> string \<Rightarrow> string \<Rightarrow> surroundings \<Rightarrow> 'e \<Rightarrow> log_item list" where
  "call_roots env em photon caller sr e =
     sr_before sr @
     [Invocation caller ''1''
        (sr_first sr @
         [Invocation photon ''2'' (sr_enter sr @ [Line (emitted_line env em e)] @ sr_leave sr)] @
         sr_last sr)] @
     sr_after sr"

definition call_log ::
    "'e log_env \<Rightarrow> 'e emit_env \<Rightarrow> string \<Rightarrow> string \<Rightarrow> surroundings \<Rightarrow> 'e \<Rightarrow> string list" where
  "call_log env em photon caller sr e = concat (List.map render (call_roots env em photon caller sr e))"

lemma is_invocation_iff: "is_invocation r \<longleftrightarrow> (\<exists>p d items. r = Invocation p d items)"
  by (cases r) auto

lemma silent_events: "list_all (silent env photon cur) is \<Longrightarrow> concat (List.map (tree_events env photon cur) is) = []"
  by (induction "is") (simp_all add: silent_def)

lemma silent_ok: "list_all (silent env photon cur) is \<Longrightarrow> list_all (tree_ok env photon cur) is"
  by (induction "is") (simp_all add: silent_def)

lemma silent_roots:
  assumes "list_all (\<lambda>r. is_invocation r \<and> silent env photon [] r) rs"
  shows "\<forall>r \<in> set rs. \<exists>p d items. r = Invocation p d items \<and> tree_ok env photon p r"
    and "concat (List.map (tree_events env photon []) rs) = []"
  using assms by (fastforce simp: list_all_iff is_invocation_iff silent_def)+

lemma depth_ok_samples: "depth_ok ''1''" "depth_ok ''2''"
  by (simp_all add: depth_ok_def newline_def)

lemma call_roots_parse:
  assumes "codec_ok env em e" "name_ok photon" "name_ok caller" "surroundings_ok env photon caller sr"
  shows "\<forall>r \<in> set (call_roots env em photon caller sr e). \<exists>p d items. r = Invocation p d items \<and> tree_ok env photon p r"
    and "concat (List.map (tree_events env photon []) (call_roots env em photon caller sr e)) = [e]"
proof -
  note sr = assms(4) [unfolded surroundings_ok_def list_all_append]
  note line = emitted_line_harmless [OF assms(1), of photon]
  have "tree_ok env photon caller (Invocation caller ''1''
      (sr_first sr @ [Invocation photon ''2'' (sr_enter sr @ [Line (emitted_line env em e)] @ sr_leave sr)] @ sr_last sr))"
    using sr line(1) assms(2,3) by (simp add: silent_ok depth_ok_samples)
  then show "\<forall>r \<in> set (call_roots env em photon caller sr e). \<exists>p d items. r = Invocation p d items \<and> tree_ok env photon p r"
    using silent_roots(1) [of env photon "sr_before sr"] silent_roots(1) [of env photon "sr_after sr"] sr
    by (auto simp: call_roots_def simp del: tree_ok.simps)
  show "concat (List.map (tree_events env photon []) (call_roots env em photon caller sr e)) = [e]"
    using sr line(2) by (simp add: call_roots_def silent_roots(2) silent_events)
qed

lemma listener_on_trees:
  assumes "name_ok photon"
    and "\<forall>r \<in> set roots. \<exists>p d items. r = Invocation p d items \<and> tree_ok env photon p r"
    and "lb_logs b = concat (List.map render roots)" "sg_from_str sg (lb_tx_signature b) = Some s"
  shows "on_logs env photon (on_propose_event net sg (proposal_event_processor_new ps)) b c =
           Inr (appended
             (List.map (\<lambda>e. propose_of net sg e s (lb_slot b) (lb_need_check b))
               (filter (\<lambda>e. pe_protocol_id e \<in> allowed_protocol ` set ps)
                 (concat (List.map (tree_events env photon []) roots)))) c)"
proof -
  have "proposals.bunch_msgs net sg (proposal_event_processor_new ps) b es =
      List.map (\<lambda>e. propose_of net sg e s (lb_slot b) (lb_need_check b))
        (filter (\<lambda>e. pe_protocol_id e \<in> allowed_protocol ` set ps) es)" for es
    unfolding proposals.bunch_msgs_def by (induction es) (simp_all add: propose_msgs_new assms(4))
  then show ?thesis
    using parse_logs_roots [OF assms(1,2)] assms(3)
    by (simp add: proposals.on_logs_sends list_all_iff)
qed

text \<open>The listener sends exactly the proposals of the allowed protocols. For a transaction whose log is
  that of invocation trees with harmless messages, \<^verbatim>\<open>on_logs\<close> appends to the channel one \<^verbatim>\<open>Propose\<close> message
  per event that the endpoint itself logged with the (padded) id of an allowed protocol, in order and
  with the transaction's signature and slot, and nothing else.\<close>

theorem listener_sends_proposals:
  assumes "name_ok photon"
    and "\<forall>r \<in> set roots. \<exists>p d items. r = Invocation p d items \<and> tree_ok env photon p r"
    and "lb_logs b = concat (List.map render roots)" "sg_from_str sg (lb_tx_signature b) = Some s"
  shows "on_logs env photon (on_propose_event net sg (proposal_event_processor_new ps)) b c =
           Inr (appended
             (List.map (\<lambda>e. propose_of net sg e s (lb_slot b) (lb_need_check b))
               (filter (\<lambda>e. pe_protocol_id e \<in> allowed_protocol ` set ps)
                 (concat (List.map (tree_events env photon []) roots)))) c)"
  by (rule listener_on_trees [OF assms])

text \<open>A proposal made on chain reaches the queue. When \<^verbatim>\<open>propose\<close> succeeds for a protocol that the
  listener allows, in a transaction where a program calls the endpoint, whatever else the transaction logs that
  is silent, the listener sends exactly one message for it: its operation has the nonce the endpoint assigned, the destination, address, selector
  bytes and parameters of the call, and this chain as its source.\<close>

theorem proposal_reaches_queue:
  assumes "propose env a pid dst addr sel prms w = Inr w'"
    and "events w' = events w @ [ProposeEvent e]" "pid \<in> allowed_protocol ` set ps"
    and "codec_ok lenv em e" "name_ok photon" "name_ok caller" "surroundings_ok lenv photon caller sr"
    and "lb_logs b = call_log lenv em photon caller sr e"
    and "sg_from_str sg (lb_tx_signature b) = Some s"
  shows "\<exists>conf bs m. accounts w (ai_key (pp_config a)) = Some (AConfig conf) \<and> to_bytes sel = Inr bs
    \<and> on_logs lenv photon (on_propose_event (env_network env) sg (proposal_event_processor_new ps)) b c =
        Inr (appended [m] c)
    \<and> tp_operation_data m =
        \<lparr>td_protocol_id = pid, td_meta = default_meta, td_src_chain_id = SOLANA_CHAIN_ID (env_network env),
         td_src_block_number = lb_slot b, td_src_op_tx_id = s, td_nonce = conf_nonce conf,
         td_dest_chain_id = dst, td_protocol_addr = addr, td_function_selector = bs, td_params = prms,
         td_reserved = []\<rparr>"
proof -
  obtain conf bs where conf: "accounts w (ai_key (pp_config a)) = Some (AConfig conf)" "to_bytes sel = Inr bs"
      "e = \<lparr>pe_protocol_id = pid, pe_nonce = conf_nonce conf, pe_dst_chain_id = dst, pe_protocol_address = addr,
            pe_function_selector = bs, pe_params = prms\<rparr>"
    using propose_effect [OF assms(1)] assms(2) by auto
  have "on_logs lenv photon (on_propose_event (env_network env) sg (proposal_event_processor_new ps)) b c =
      Inr (appended [propose_of (env_network env) sg e s (lb_slot b) (lb_need_check b)] c)"
    using listener_on_trees [OF assms(5) call_roots_parse(1) [OF assms(4-7)] _ assms(9)]
      call_roots_parse(2) [OF assms(4-7)] assms(3,8)
    by (simp add: call_log_def conf(3))
  with conf show ?thesis by (auto simp: propose_of_def)
qed

definition sample_proposal :: propose_event where
  "sample_proposal = \<lparr>pe_protocol_id = gov_protocol_id, pe_nonce = 0, pe_dst_chain_id = 1, pe_protocol_address = [],
     pe_function_selector = [0, 1, 1], pe_params = []\<rparr>"

definition sample_proposal_env :: "propose_event log_env" where
  "sample_proposal_env =
     \<lparr>le_base64 = (\<lambda>s. if s = ''8vb9'' then Some [1, 2, 3, 4, 5, 6, 7, 8] else None),
      le_discriminator = [1, 2, 3, 4, 5, 6, 7, 8], le_deserialize = (\<lambda>_. Some sample_proposal)\<rparr>"

definition sample_emit :: "propose_event emit_env" where
  "sample_emit = \<lparr>em_base64 = (\<lambda>_. ''8vb9''), em_serialize = (\<lambda>_. [])\<rparr>"

definition sample_sigs :: sig_env where
  "sample_sigs = \<lparr>sg_from_str = (\<lambda>s. Some (replicate 64 7)), sg_to_string = (\<lambda>_. ''sig'')\<rparr>"

definition sample_bunch :: logs_bunch where
  "sample_bunch =
     \<lparr>lb_need_check = True, lb_tx_signature = ''sig'',
      lb_logs = [''Program One invoke [1]'', ''Program Photon invoke [2]'', ''Program data: 8vb9'',
        ''Program Photon success'', ''Program One success''],
      lb_slot = 5\<rparr>"

lemma sample_codec: "codec_ok sample_proposal_env sample_emit sample_proposal"
  by (simp add: codec_ok_def sample_proposal_env_def sample_emit_def Let_def)

abbreviation sample_root :: log_item where
  "sample_root \<equiv>
     Invocation ''One'' ''1'' [endpoint_call sample_proposal_env sample_emit ''Photon'' ''2'' [sample_proposal]]"

lemma sample_bunch_logs: "lb_logs sample_bunch = concat (List.map render [sample_root])"
  by (simp add: sample_bunch_def endpoint_call_def emitted_line_def sample_emit_def sample_proposal_env_def
      invoke_line_def success_line_def)

lemma sample_bunch_sig: "sg_from_str sample_sigs (lb_tx_signature sample_bunch) = Some (replicate 64 7)"
  by (simp add: sample_sigs_def)

lemma sample_names: "name_ok ''Photon''" "name_ok ''One''" "depth_ok ''1''" "depth_ok ''2''"
  by (simp_all add: name_ok_def depth_ok_def newline_def)

lemma sample_roots:
  "\<forall>r \<in> set [sample_root]. \<exists>p d items. r = Invocation p d items \<and> tree_ok sample_proposal_env ''Photon'' p r"
  using endpoint_call_ok [of "[sample_proposal]" sample_proposal_env sample_emit] sample_codec sample_names by simp

lemma sample_root_events: "concat (List.map (tree_events sample_proposal_env ''Photon'' []) [sample_root]) = [sample_proposal]"
  using endpoint_call_events [of "[sample_proposal]"] sample_codec by simp

lemma gov_allowed: "gov_protocol_id \<in> allowed_protocol ` set [gov_protocol_id]"
  by (simp add: allowed_protocol_def Let_def)

lemma listener_sends_proposals_witness:
  "on_logs sample_proposal_env ''Photon''
     (on_propose_event Devnet sample_sigs (proposal_event_processor_new [gov_protocol_id])) sample_bunch
     \<lparr>ch_open = True, ch_queue = []\<rparr> =
   Inr \<lparr>ch_open = True, ch_queue = [propose_of Devnet sample_sigs sample_proposal (replicate 64 7) 5 True]\<rparr>"
  unfolding listener_sends_proposals [OF sample_names(1) sample_roots sample_bunch_logs sample_bunch_sig]
    sample_root_events
  using gov_allowed by (simp add: appended_def sample_proposal_def sample_bunch_def)

lemma proposal_reaches_queue_witness:
  "\<exists>m. on_logs sample_proposal_env ''Photon''
     (on_propose_event Devnet sample_sigs (proposal_event_processor_new [gov_protocol_id])) sample_bunch
     \<lparr>ch_open = True, ch_queue = []\<rparr> = Inr \<lparr>ch_open = True, ch_queue = [m]\<rparr>
     \<and> td_dest_chain_id (tp_operation_data m) = 1"
proof -
  obtain w' where w: "propose sample_env propose_accs_1 gov_protocol_id 1 [] (ByCode [1]) [] w_proposer = Inr w'"
    using sample_propose by blast
  have ev: "events w' = events w_proposer @ [ProposeEvent sample_proposal]"
    using propose_effect [OF w]
    by (auto simp: sample_proposal_def w_proposer_def w_init_def config_1_def propose_accs_1_def)
  have logs: "lb_logs sample_bunch = call_log sample_proposal_env sample_emit ''Photon'' ''One'' no_surroundings sample_proposal"
    using sample_bunch_logs by (simp add: call_log_def call_roots_def no_surroundings_def endpoint_call_def)
  have "surroundings_ok sample_proposal_env ''Photon'' ''One'' no_surroundings"
    by (simp add: surroundings_ok_def no_surroundings_def)
  from proposal_reaches_queue [OF w ev gov_allowed sample_codec sample_names(1,2) this logs sample_bunch_sig,
      where c = "\<lparr>ch_open = True, ch_queue = []\<rparr>"]
  show ?thesis by (auto simp: appended_def)
qed

end
