(* ===== verification/Retro_Reader.thy ===== *)
theory Retro_Reader
  imports Log_Processors
begin

section \<open>Reading the chain\<close>

text \<open>
  \<^verbatim>\<open>transmitter-module/src/common/solana_logs/solana_retro_reader.rs\<close>: the reader asks for the signatures
  of the endpoint's transactions page by page, newest first, down to the last one it has delivered,
  fetches each transaction, and sends the logs of the successful ones in the order of the chain. The
  answers of the node (through the retry loop of the pool, which returns the first success) are fields of
  \<open>retro_env\<close>; the \<open>k\<close>-th request for signatures sees the chain at that time. The paging loop may run
  forever, so it is a partial function; the outer loop never ends and is modelled round by round.
\<close>

subsection \<open>The node's answers\<close>

record sig_request =
  sr_before :: "bytes option"
  sr_until :: "bytes option"
  sr_limit :: "nat option"

record tx_meta =
  tm_err :: bool
  tm_log_messages :: "string list option"

record retro_tx =
  rt_slot :: u64
  rt_meta :: "tx_meta option"

record retro_env =
  re_sigs :: sig_env
  re_signatures :: "nat \<Rightarrow> sig_request \<Rightarrow> string list"
  re_transaction :: "bytes \<Rightarrow> retro_tx"

definition get_signatures_chunk :: "retro_env \<Rightarrow> nat \<Rightarrow> bytes option \<Rightarrow> bytes option \<Rightarrow> string list" where
  "get_signatures_chunk env k until_sig before =
     re_signatures env k \<lparr>sr_before = before, sr_until = until_sig, sr_limit = None\<rparr>"

subsection \<open>One transaction\<close>

text \<open>The successful transaction's log, if it has one.\<close>

definition tx_logs :: "retro_tx \<Rightarrow> string list option" where
  "tx_logs t =
     (case rt_meta t of
        None \<Rightarrow> None
      | Some m \<Rightarrow> if tm_err m then None else tm_log_messages m)"

definition process_signature ::
    "retro_env \<Rightarrow> bool \<Rightarrow> string \<Rightarrow> bytes option \<times> logs_bunch list \<Rightarrow> bytes option \<times> logs_bunch list" where
  "process_signature env need_check signature s =
     (case sg_from_str (re_sigs env) signature of
        None \<Rightarrow> s
      | Some sig \<Rightarrow>
          (let t = re_transaction env sig in
           case tx_logs t of
             None \<Rightarrow> (Some sig, snd s)
           | Some logs \<Rightarrow>
               if logs = [] then (Some sig, snd s)
               else (Some sig,
                     \<lparr>lb_need_check = need_check, lb_tx_signature = signature, lb_logs = logs, lb_slot = rt_slot t\<rparr>
                     # snd s)))"

fun process_signatures ::
    "retro_env \<Rightarrow> bool \<Rightarrow> string list \<Rightarrow> bytes option \<times> logs_bunch list \<Rightarrow> bytes option \<times> logs_bunch list" where
  "process_signatures env need_check [] s = s"
| "process_signatures env need_check (x # xs) s =
     process_signatures env need_check xs (process_signature env need_check x s)"

subsection \<open>One round\<close>

text \<open>
  The inner loop. The second component of its result is the number of requests made; \<open>next_until\<close> is set from
  the newest signature, whose \<^verbatim>\<open>unwrap\<close> panics on text that is no signature.
\<close>

partial_function (option) page_loop ::
    "retro_env \<Rightarrow> bytes option \<Rightarrow> bool \<Rightarrow> nat \<Rightarrow> bytes option \<Rightarrow> bytes option \<Rightarrow> logs_bunch list
     \<Rightarrow> (panic + logs_bunch list \<times> nat) option" where
  "page_loop env until_sig need_check k next_until before bunches =
     (case get_signatures_chunk env k until_sig before of
        [] \<Rightarrow> Some (Inr (bunches, Suc k))
      | newest # older \<Rightarrow>
          (case (if next_until = None then sg_from_str (re_sigs env) newest else next_until) of
             None \<Rightarrow> Some (Inl ExpectFailed)
           | Some nu \<Rightarrow>
               page_loop env until_sig need_check (Suc k) (Some nu)
                 (fst (process_signatures env need_check (newest # older) (before, bunches)))
                 (snd (process_signatures env need_check (newest # older) (before, bunches)))))"

record reader =
  rd_tx_read_from :: "bytes option"
  rd_until :: "bytes option"
  rd_next_until :: "bytes option"

text \<open>\<^verbatim>\<open>(until, need_check) = ...\<close> at the head of the outer loop.\<close>

definition next_window :: "reader \<Rightarrow> bytes option \<times> bool" where
  "next_window r =
     (if rd_tx_read_from r \<noteq> None then (rd_tx_read_from r, True)
      else if rd_next_until r \<noteq> None then (rd_next_until r, False)
      else (rd_until r, False))"

definition bunch_signature :: "retro_env \<Rightarrow> logs_bunch list \<Rightarrow> panic + bytes option" where
  "bunch_signature env bunches =
     (if bunches = [] then Inr None
      else map_sum id Some (ok_or (sg_from_str (re_sigs env) (lb_tx_signature (List.last bunches))) ExpectFailed))"

definition read_round :: "retro_env \<Rightarrow> nat \<Rightarrow> reader \<Rightarrow> (panic + reader \<times> logs_bunch list \<times> nat) option" where
  "read_round env k r =
     map_option (\<lambda>res. bindE res (\<lambda>(bunches, k').
       bindE (bunch_signature env bunches) (\<lambda>nu.
       Inr (\<lparr>rd_tx_read_from = None, rd_until = fst (next_window r), rd_next_until = nu\<rparr>, bunches, k'))))
     (page_loop env (fst (next_window r)) (snd (next_window r)) k None None [])"

text \<open>The first \<open>n\<close> rounds of the outer loop, with everything they send.\<close>

fun read_rounds :: "retro_env \<Rightarrow> nat \<Rightarrow> nat \<Rightarrow> reader \<Rightarrow> (panic + reader \<times> logs_bunch list \<times> nat) option" where
  "read_rounds env 0 k r = Some (Inr (r, [], k))"
| "read_rounds env (Suc n) k r =
     (case read_round env k r of
        None \<Rightarrow> None
      | Some (Inl p) \<Rightarrow> Some (Inl p)
      | Some (Inr (r', bs, k')) \<Rightarrow>
          map_option (\<lambda>res. bindE res (\<lambda>(r'', bs', k''). Inr (r'', bs @ bs', k''))) (read_rounds env n k' r'))"

subsection \<open>Start\<close>

text \<open>
  \<^verbatim>\<open>get_last_processed_block\<close>: the answers of the database client to the three calls, and the document as
  a map from its keys.
\<close>

datatype bson = BsonString string | BsonOther

record mongo_answers =
  mg_options :: "unit option"
  mg_client :: "unit option"
  mg_find_one :: "(string \<Rightarrow> bson option) option option"

definition get_last_processed_block :: "mongo_answers \<Rightarrow> string \<Rightarrow> event_listener_error + string option" where
  "get_last_processed_block a last_block =
     bindE (ok_or (mg_options a) Mongodb) (\<lambda>_.
     bindE (ok_or (mg_client a) Mongodb) (\<lambda>_.
     bindE (ok_or (mg_find_one a) Mongodb) (\<lambda>found.
     (case found of
        None \<Rightarrow> Inr None
      | Some d \<Rightarrow> (case d last_block of Some (BsonString tx_signature) \<Rightarrow> Inr (Some tx_signature) | _ \<Rightarrow> Inr None)))))"

text \<open>The configured signature if it is not empty, else the one in the database, where errors count as
  none.\<close>

definition get_tx_read_from :: "string option \<Rightarrow> event_listener_error + string option \<Rightarrow> string option" where
  "get_tx_read_from configured stored =
     (case configured of
        Some s \<Rightarrow> if s \<noteq> [] then Some s else (case stored of Inr (Some t) \<Rightarrow> Some t | _ \<Rightarrow> None)
      | None \<Rightarrow> (case stored of Inr (Some t) \<Rightarrow> Some t | _ \<Rightarrow> None))"

text \<open>The part of \<^verbatim>\<open>read_events_backward\<close> before the loop; \<open>Inr None\<close> is its early \<^verbatim>\<open>return Ok(())\<close>.\<close>

definition reader_start ::
    "sig_env \<Rightarrow> event_listener_error + unit \<Rightarrow> string option \<Rightarrow> mongo_answers \<Rightarrow> string
     \<Rightarrow> event_listener_error + reader option" where
  "reader_start sg pool configured mongo last_block =
     (case get_tx_read_from configured (get_last_processed_block mongo last_block) of
        None \<Rightarrow> Inr None
      | Some s \<Rightarrow>
          bindE pool (\<lambda>_.
          bindE (ok_or (sg_from_str sg s) SolanaClient) (\<lambda>sig.
          Inr (Some \<lparr>rd_tx_read_from = Some sig, rd_until = None, rd_next_until = None\<rparr>))))"

subsection \<open>What the node documents\<close>

text \<open>
  The transactions of the endpoint at the \<open>k\<close>-th request are \<open>hist k\<close>, oldest first. The chain only grows,
  a signature occurs once, and \<^verbatim>\<open>getSignaturesForAddress\<close> returns the newest signatures after \<open>until\<close> and
  before \<open>before\<close>, newest first, up to its default limit.
\<close>

definition newer :: "bytes \<Rightarrow> bytes list \<Rightarrow> bytes list" where
  "newer u h = tl (dropWhile (\<lambda>s. s \<noteq> u) h)"

definition window :: "bytes \<Rightarrow> bytes option \<Rightarrow> bytes list \<Rightarrow> bytes list" where
  "window u before h =
     newer u (case before of None \<Rightarrow> h | Some b \<Rightarrow> takeWhile (\<lambda>s. s \<noteq> b) h)"

definition serves :: "retro_env \<Rightarrow> (nat \<Rightarrow> bytes list) \<Rightarrow> nat \<Rightarrow> bool" where
  "serves env hist lim \<longleftrightarrow>
     0 < lim
     \<and> (\<forall>s. sg_from_str (re_sigs env) (sg_to_string (re_sigs env) s) = Some s)
     \<and> (\<forall>k. distinct (hist k) \<and> prefix (hist k) (hist (Suc k)))
     \<and> (\<forall>k u before. u \<in> set (hist k) \<longrightarrow>
          (\<forall>b. before = Some b \<longrightarrow> b \<in> set (newer u (hist k))) \<longrightarrow>
          re_signatures env k \<lparr>sr_before = before, sr_until = Some u, sr_limit = None\<rparr> =
            List.map (sg_to_string (re_sigs env)) (take lim (rev (window u before (hist k)))))"

text \<open>What the reader has to deliver for a stretch of the chain.\<close>

definition has_logs :: "retro_env \<Rightarrow> bytes \<Rightarrow> bool" where
  "has_logs env s \<longleftrightarrow> (case tx_logs (re_transaction env s) of None \<Rightarrow> False | Some logs \<Rightarrow> logs \<noteq> [])"

definition bunch_of :: "retro_env \<Rightarrow> bool \<Rightarrow> bytes \<Rightarrow> logs_bunch" where
  "bunch_of env need_check s =
     \<lparr>lb_need_check = need_check, lb_tx_signature = sg_to_string (re_sigs env) s,
      lb_logs = the (tx_logs (re_transaction env s)), lb_slot = rt_slot (re_transaction env s)\<rparr>"

definition bunches_of :: "retro_env \<Rightarrow> bool \<Rightarrow> bytes list \<Rightarrow> logs_bunch list" where
  "bunches_of env need_check ss = List.map (bunch_of env need_check) (filter (has_logs env) ss)"

subsection \<open>Stretches of the chain\<close>

lemma newer_at [simp]: "u \<notin> set p \<Longrightarrow> newer u (p @ u # t) = t"
  by (induction p) (auto simp: newer_def)

lemma chain_split:
  assumes "u \<in> set h" "distinct h"
  obtains p where "h = p @ u # newer u h" "u \<notin> set p" "u \<notin> set (newer u h)"
  using split_list_first [OF assms(1)] assms(2) by fastforce

lemma newer_extends:
  assumes "u \<in> set h" "distinct h"
  shows "newer u (h @ e) = newer u h @ e"
proof -
  obtain p where "h = p @ u # newer u h" "u \<notin> set p" using chain_split [OF assms] .
  then show ?thesis by (metis append.assoc append_Cons newer_at)
qed

lemma newer_newer:
  assumes "u \<in> set h" "distinct h" "v \<in> set (newer u h)"
  shows "newer v h = newer v (newer u h)"
proof -
  obtain p where p: "h = p @ u # newer u h" "u \<notin> set p" "u \<notin> set (newer u h)"
    using chain_split [OF assms(1,2)] .
  have "distinct (p @ u # newer u h)" using assms(2) p(1) by simp
  then have "v \<notin> set (p @ [u])" using assms(3) by auto
  then have "dropWhile (\<lambda>s. s \<noteq> v) ((p @ [u]) @ newer u h) = dropWhile (\<lambda>s. s \<noteq> v) (newer u h)"
    by (intro dropWhile_append2) auto
  then show ?thesis by (subst p(1)) (simp add: newer_def)
qed

lemma newer_subset: "set (newer u h) \<subseteq> set h"
  unfolding newer_def by (metis list.set_sel(2) set_dropWhileD subsetI tl_Nil)

lemma takeWhile_nth_distinct:
  assumes "distinct xs" "j < length xs"
  shows "takeWhile (\<lambda>s. s \<noteq> xs ! j) (xs @ e) = take j xs"
  using assms
proof (induction xs arbitrary: j)
  case (Cons x xs)
  then show ?case by (cases j) auto
qed simp

lemma window_before:
  assumes "u \<in> set h" "distinct h" "j < length (newer u h)"
  shows "window u (Some (newer u h ! j)) (h @ e) = take j (newer u h)"
proof -
  obtain p where p: "h = p @ u # newer u h" "u \<notin> set p" "u \<notin> set (newer u h)"
    using chain_split [OF assms(1,2)] .
  let ?s = "newer u h" and ?q = "p @ [u]"
  have d: "distinct (?q @ ?s)" using assms(2) p(1) by simp
  then have "?s ! j \<notin> set ?q" using assms(3) by (auto dest: nth_mem)
  then have "takeWhile (\<lambda>s. s \<noteq> ?s ! j) (?q @ ?s @ e) = ?q @ takeWhile (\<lambda>s. s \<noteq> ?s ! j) (?s @ e)"
    by (intro takeWhile_append2) auto
  also have "\<dots> = p @ u # take j ?s"
    using takeWhile_nth_distinct [of ?s j e] d assms(3) by simp
  finally have tw: "takeWhile (\<lambda>s. s \<noteq> ?s ! j) (?q @ ?s @ e) = p @ u # take j ?s" .
  have he: "h @ e = ?q @ ?s @ e" using p(1) by simp
  show ?thesis unfolding window_def option.case he tw using p(2) by simp
qed

lemma serves_chain:
  assumes "serves env hist lim" "k \<le> k'"
  obtains e where "hist k' = hist k @ e"
proof -
  have "prefix (hist k) (hist k')"
    using assms(2) by (rule inc_induct [of k k' "\<lambda>k. prefix (hist k) (hist k')"])
      (use assms(1) in \<open>auto simp: serves_def intro: prefix_order.trans\<close>)
  then show ?thesis using that by (auto simp: prefix_def)
qed

lemma bunches_of_append [simp]:
  "bunches_of env nc (s @ t) = bunches_of env nc s @ bunches_of env nc t" "bunches_of env nc [] = []"
  by (simp_all add: bunches_of_def)

subsection \<open>The paging loop\<close>

lemma process_signature_string:
  assumes "serves env hist lim"
  shows "process_signature env nc (sg_to_string (re_sigs env) s) (before, bs) =
           (Some s, bunches_of env nc [s] @ bs)"
  using assms
  by (auto simp: process_signature_def serves_def bunches_of_def bunch_of_def has_logs_def Let_def
      split: option.splits)

lemma process_signatures_strings:
  assumes "serves env hist lim" "ss \<noteq> []"
  shows "process_signatures env nc (List.map (sg_to_string (re_sigs env)) ss) (before, bs) =
           (Some (List.last ss), bunches_of env nc (rev ss) @ bs)"
  using assms(2)
proof (induction ss arbitrary: before bs)
  case (Cons s ss)
  then show ?case
    by (cases "ss = []") (simp_all add: process_signature_string [OF assms(1)])
qed simp

lemma page_step:
  assumes "serves env hist lim" "0 < j" "j \<le> length ss"
    and "get_signatures_chunk env k u before = List.map (sg_to_string (re_sigs env)) (take lim (rev (take j ss)))"
  shows "\<exists>nu'. page_loop env u nc k nu before bs =
    page_loop env u nc (Suc k) (Some nu') (Some (ss ! (j - lim))) (bunches_of env nc (drop (j - lim) (take j ss)) @ bs)"
proof -
  let ?t = "drop (j - lim) (take j ss)"
  have lim: "0 < lim" using assms(1) by (simp add: serves_def)
  have chunk: "take lim (rev (take j ss)) = rev ?t"
    using assms(3) by (simp add: take_rev)
  have ne: "rev ?t \<noteq> []" using assms(2,3) lim by simp
  have "List.last (rev ?t) = ss ! (j - lim)"
    using assms(2,3) lim ne by (simp add: last_rev hd_drop_conv_nth)
  then have proc: "process_signatures env nc (List.map (sg_to_string (re_sigs env)) (rev ?t)) (before, bs) =
      (Some (ss ! (j - lim)), bunches_of env nc ?t @ bs)"
    using process_signatures_strings [OF assms(1) ne] by simp
  obtain s rest where r: "rev ?t = s # rest" using ne by (cases "rev ?t") auto
  have "sg_from_str (re_sigs env) (sg_to_string (re_sigs env) s) = Some s"
    using assms(1) by (simp add: serves_def)
  then show ?thesis
    using assms(4) proc unfolding chunk r
    by (subst page_loop.simps) (cases nu, auto)
qed

lemma pages_before:
  assumes "serves env hist lim" "u \<in> set (hist k0)" "k0 \<le> k" "j < length (newer u (hist k0))"
  shows "\<exists>k' > k. page_loop env (Some u) nc k (Some nu) (Some (newer u (hist k0) ! j)) bs =
    Some (Inr (bunches_of env nc (take j (newer u (hist k0))) @ bs, k'))"
  using assms(3,4)
proof (induction j arbitrary: k nu bs rule: less_induct)
  case (less j)
  let ?s = "newer u (hist k0)"
  obtain e where e: "hist k = hist k0 @ e" using serves_chain [OF assms(1) less.prems(1)] .
  have d: "distinct (hist k0)" using assms(1) by (simp add: serves_def)
  have "?s ! j \<in> set (newer u (hist k))"
    using less.prems(2) newer_extends [OF assms(2) d, of e] e by (simp add: nth_append)
  then have chunk: "get_signatures_chunk env k (Some u) (Some (?s ! j)) =
      List.map (sg_to_string (re_sigs env)) (take lim (rev (take j ?s)))"
    using assms(1,2) window_before [OF assms(2) d less.prems(2), of e] e
    by (simp add: get_signatures_chunk_def serves_def)
  show ?case
  proof (cases "j = 0")
    case True
    then show ?thesis using chunk by (subst page_loop.simps) auto
  next
    case False
    have lim: "0 < lim" using assms(1) by (simp add: serves_def)
    from page_step [OF assms(1) _ _ chunk, of nc "Some nu" bs] False less.prems(2)
    obtain nu' where step: "page_loop env (Some u) nc k (Some nu) (Some (?s ! j)) bs =
        page_loop env (Some u) nc (Suc k) (Some nu') (Some (?s ! (j - lim)))
          (bunches_of env nc (drop (j - lim) (take j ?s)) @ bs)" by auto
    let ?bs = "bunches_of env nc (drop (j - lim) (take j ?s)) @ bs"
    have "j - lim < j" "k0 \<le> Suc k" "j - lim < length ?s" using False lim less.prems by simp_all
    then obtain k' where k': "k' > Suc k" "page_loop env (Some u) nc (Suc k) (Some nu') (Some (?s ! (j - lim))) ?bs =
        Some (Inr (bunches_of env nc (take (j - lim) ?s) @ ?bs, k'))"
      using less.IH [of "j - lim" "Suc k" nu' ?bs] by blast
    have "take (j - lim) ?s @ drop (j - lim) (take j ?s) = take j ?s"
      by (metis append_take_drop_id diff_le_self min.absorb1 take_take)
    then have "bunches_of env nc (take (j - lim) ?s) @ ?bs = bunches_of env nc (take j ?s) @ bs"
      by (metis append.assoc bunches_of_append(1))
    with k' step show ?thesis by (intro exI [of _ k']) simp
  qed
qed

lemma pages_all:
  assumes "serves env hist lim" "u \<in> set (hist k)"
  shows "\<exists>k' > k. page_loop env (Some u) nc k None None [] =
    Some (Inr (bunches_of env nc (newer u (hist k)), k'))"
proof (cases "newer u (hist k) = []")
  case True
  then have "get_signatures_chunk env k (Some u) None = []"
    using assms by (simp add: get_signatures_chunk_def serves_def window_def)
  with True show ?thesis by (subst page_loop.simps) auto
next
  case False
  let ?s = "newer u (hist k)" and ?j = "length (newer u (hist k)) - lim"
  have "get_signatures_chunk env k (Some u) None =
      List.map (sg_to_string (re_sigs env)) (take lim (rev (take (length ?s) ?s)))"
    using assms by (simp add: get_signatures_chunk_def serves_def window_def)
  from page_step [OF assms(1) _ _ this, of nc None "[]"] False
  obtain nu where step: "page_loop env (Some u) nc k None None [] =
      page_loop env (Some u) nc (Suc k) (Some nu) (Some (?s ! ?j)) (bunches_of env nc (drop ?j ?s))" by auto
  have "?j < length ?s" using False assms(1) by (simp add: serves_def)
  then obtain k' where "k' > Suc k" "page_loop env (Some u) nc (Suc k) (Some nu) (Some (?s ! ?j))
      (bunches_of env nc (drop ?j ?s)) = Some (Inr (bunches_of env nc (take ?j ?s) @ bunches_of env nc (drop ?j ?s), k'))"
    using pages_before [OF assms, of "Suc k" ?j nc nu "bunches_of env nc (drop ?j ?s)"] by auto
  with step show ?thesis by (metis Suc_lessD append_take_drop_id bunches_of_append(1))
qed

subsection \<open>Rounds\<close>

text \<open>Where the next round starts.\<close>

definition position :: "reader \<Rightarrow> bytes option" where
  "position r = fst (next_window r)"

definition payload :: "logs_bunch \<Rightarrow> string \<times> string list \<times> u64" where
  "payload b = (lb_tx_signature b, lb_logs b, lb_slot b)"

definition due :: "retro_env \<Rightarrow> bytes list \<Rightarrow> (string \<times> string list \<times> u64) list" where
  "due env ss = List.map (\<lambda>s. payload (bunch_of env True s)) (filter (has_logs env) ss)"

lemma payload_bunches [simp]: "List.map payload (bunches_of env nc ss) = due env ss"
  by (simp add: bunches_of_def due_def payload_def bunch_of_def)

lemma due_append [simp]: "due env (s @ t) = due env s @ due env t" "due env [] = []"
  by (simp_all add: due_def)

text \<open>The last delivered transaction, or the old position if there was none.\<close>

definition advance :: "retro_env \<Rightarrow> bytes \<Rightarrow> bytes list \<Rightarrow> bytes" where
  "advance env u ss = (if filter (has_logs env) ss = [] then u else List.last (filter (has_logs env) ss))"

lemma bunch_signature_bunches:
  assumes "serves env hist lim"
  shows "bunch_signature env (bunches_of env nc ss) =
           Inr (if filter (has_logs env) ss = [] then None else Some (List.last (filter (has_logs env) ss)))"
  using assms by (simp add: bunch_signature_def bunches_of_def last_map bunch_of_def serves_def)

lemma round_delivers:
  assumes "serves env hist lim" "position r = Some u" "u \<in> set (hist k)"
  shows "\<exists>r' k'. k < k'
    \<and> read_round env k r = Some (Inr (r', bunches_of env (rd_tx_read_from r \<noteq> None) (newer u (hist k)), k'))
    \<and> position r' = Some (advance env u (newer u (hist k))) \<and> rd_tx_read_from r' = None"
proof -
  obtain k' where k': "k < k'" "page_loop env (Some u) (rd_tx_read_from r \<noteq> None) k None None [] =
      Some (Inr (bunches_of env (rd_tx_read_from r \<noteq> None) (newer u (hist k)), k'))"
    using pages_all [OF assms(1,3)] by blast
  have "fst (next_window r) = Some u" "snd (next_window r) = (rd_tx_read_from r \<noteq> None)"
    using assms(2) by (auto simp: position_def next_window_def split: if_splits)
  with k' show ?thesis
    by (auto simp: read_round_def bunch_signature_bunches [OF assms(1)] position_def advance_def next_window_def)
qed

lemma due_advance:
  assumes "u \<in> set h" "distinct (h @ e)"
  shows "due env (newer u (h @ e)) = due env (newer u h) @ due env (newer (advance env u (newer u h)) (h @ e))"
    and "advance env u (newer u h) \<in> set h"
proof -
  let ?s = "newer u h"
  have d: "distinct h" using assms(2) by simp
  have "due env (newer u (h @ e)) = due env ?s @ due env (newer (advance env u ?s) (h @ e)) \<and> advance env u ?s \<in> set h"
  proof (cases "filter (has_logs env) ?s = []")
    case True
    then show ?thesis using assms(1) newer_extends [OF assms(1) d, of e] by (simp add: advance_def due_def)
  next
    case False
    define v where "v = List.last (filter (has_logs env) ?s)"
    have v: "v \<in> set ?s" using False last_in_set unfolding v_def by fastforce
    then have vh: "v \<in> set h" using newer_subset by blast
    have "distinct ?s" using d by (simp add: newer_def distinct_tl distinct_dropWhile)
    then obtain p where p: "?s = p @ v # newer v ?s" "v \<notin> set p" "v \<notin> set (newer v ?s)"
      using chain_split [OF v] by metis
    have "filter (has_logs env) (newer v ?s) = []"
    proof (rule ccontr)
      assume ne: "filter (has_logs env) (newer v ?s) \<noteq> []"
      have "filter (has_logs env) ?s = filter (has_logs env) (p @ [v]) @ filter (has_logs env) (newer v ?s)"
        by (subst p(1)) simp
      then have "v = List.last (filter (has_logs env) (newer v ?s))" using ne by (metis last_appendR v_def)
      then show False using last_in_set [OF ne] p(3) by auto
    qed
    then have "due env (newer v h) = []"
      using newer_newer [OF assms(1) d v] by (simp add: due_def)
    then show ?thesis
      using False vh newer_extends [OF assms(1) d, of e] newer_extends [OF vh d, of e]
      by (simp add: advance_def v_def)
  qed
  then show "due env (newer u (h @ e)) = due env ?s @ due env (newer (advance env u ?s) (h @ e))"
    and "advance env u ?s \<in> set h" by blast+
qed

lemma rounds_deliver:
  assumes "serves env hist lim" "position r = Some u" "u \<in> set (hist k)"
  shows "\<exists>r' bs k' kl. read_rounds env (Suc n) k r = Some (Inr (r', bs, k')) \<and> k + n \<le> kl \<and> kl < k'
    \<and> List.map payload bs = due env (newer u (hist kl))"
  using assms(2,3)
proof (induction n arbitrary: r u k)
  case 0
  from round_delivers [OF assms(1) 0] show ?case by (auto intro!: exI [of _ k])
next
  case (Suc n)
  let ?v = "advance env u (newer u (hist k))"
  obtain r' k' where r': "k < k'"
      "read_round env k r = Some (Inr (r', bunches_of env (rd_tx_read_from r \<noteq> None) (newer u (hist k)), k'))"
      "position r' = Some ?v"
    using round_delivers [OF assms(1) Suc.prems] by blast
  obtain e where e: "hist k' = hist k @ e" using serves_chain [OF assms(1), of k k'] r'(1) by auto
  have dist: "distinct (hist i)" for i using assms(1) by (simp add: serves_def)
  have v: "?v \<in> set (hist k)" by (rule due_advance(2) [OF Suc.prems(2), of "[]"]) (simp add: dist)
  with e have "?v \<in> set (hist k')" by simp
  from Suc.IH [OF r'(3) this] obtain r'' bs k'' kl where IH:
    "read_rounds env (Suc n) k' r' = Some (Inr (r'', bs, k''))" "k' + n \<le> kl" "kl < k''"
    "List.map payload bs = due env (newer ?v (hist kl))" by blast
  obtain e' where e': "hist kl = hist k @ e'" using serves_chain [OF assms(1), of k kl] r'(1) IH(2) by auto
  have "due env (newer u (hist kl)) = due env (newer u (hist k)) @ due env (newer ?v (hist kl))"
    using due_advance(1) [OF Suc.prems(2), of e'] dist [of kl] e' by simp
  with IH r' show ?case
    by (intro exI [of _ r''] exI [of _ "bunches_of env (rd_tx_read_from r \<noteq> None) (newer u (hist k)) @ bs"]
        exI [of _ k''] exI [of _ kl])
       (simp del: read_rounds.simps(2) add: read_rounds.simps(2) [of env "Suc n"])
qed

subsection \<open>Exactly once, in order\<close>

text \<open>The paging loop ends. For a node that answers as documented, and a lower bound that is on the chain,
  the loop of requests stops with an empty page, whatever the page limit and however the chain grows in
  between, and has collected the successful transactions with logs, each once and oldest first, that were
  on the chain at its first request.\<close>

theorem page_loop_terminates:
  assumes "serves env hist lim" "u \<in> set (hist k)"
  shows "\<exists>k' > k. page_loop env (Some u) need_check k None None [] =
    Some (Inr (bunches_of env need_check (newer u (hist k)), k'))"
  by (rule pages_all [OF assms])

text \<open>The reader delivers every transaction exactly once and in the order of the chain. After any number of
  rounds since it started at the transaction \<open>u\<close>, what it has sent are the successful transactions with
  logs after \<open>u\<close>, up to the end of the chain as it was at a request of the last round; no round fails or
  hangs, and the chain may grow between any two requests.\<close>

theorem reader_delivers_exactly_once:
  assumes "serves env hist lim" "u \<in> set (hist k)"
    and "reader_start (re_sigs env) (Inr ()) configured mongo last_block = Inr (Some r)" "rd_tx_read_from r = Some u"
  shows "\<exists>r' sent k' kl. read_rounds env (Suc n) k r = Some (Inr (r', sent, k')) \<and> k + n \<le> kl \<and> kl < k'
    \<and> List.map payload sent = due env (newer u (hist kl))"
  using assms(3,4) by (intro rounds_deliver [OF assms(1) _ assms(2)]) (simp add: position_def next_window_def)

definition sample_retro_sigs :: sig_env where
  "sample_retro_sigs =
     \<lparr>sg_from_str = (\<lambda>s. Some (List.map (\<lambda>c. word_of_nat (of_char c)) s)),
      sg_to_string = List.map (\<lambda>b. char_of (unat b))\<rparr>"

definition sample_hist :: "bytes list" where
  "sample_hist = [[1], [2], [3], [4]]"

definition sample_retro_env :: retro_env where
  "sample_retro_env =
     \<lparr>re_sigs = sample_retro_sigs,
      re_signatures = (\<lambda>k req. List.map (sg_to_string sample_retro_sigs)
        (take 2 (rev (window (the (sr_until req)) (sr_before req) sample_hist)))),
      re_transaction = (\<lambda>s. \<lparr>rt_slot = 9, rt_meta = Some \<lparr>tm_err = (s = [3]), tm_log_messages = Some [''l'']\<rparr>\<rparr>)\<rparr>"

lemma sample_serves: "serves sample_retro_env (\<lambda>_. sample_hist) 2"
proof -
  have "map ((\<lambda>c. word_of_nat (of_char c)) \<circ> (\<lambda>b :: u8. char_of (unat b))) s = s" for s :: bytes
  proof (rule map_idI)
    fix b :: u8 assume "b \<in> set s"
    have "unat b < 256" using unsigned_less [of b] by simp
    then show "((\<lambda>c. word_of_nat (of_char c)) \<circ> (\<lambda>b :: u8. char_of (unat b))) b = b"
      by (simp add: of_char_of)
  qed
  then show ?thesis
    by (simp add: serves_def sample_retro_env_def sample_retro_sigs_def sample_hist_def)
qed

lemma page_loop_terminates_witness:
  "\<exists>bs k'. page_loop sample_retro_env (Some [1]) True 0 None None [] = Some (Inr (bs, k')) \<and> length bs = 2"
  using page_loop_terminates [OF sample_serves, of "[1]" 0 True]
  by (auto simp: sample_hist_def newer_def bunches_of_def has_logs_def sample_retro_env_def tx_logs_def)

lemma reader_delivers_exactly_once_witness:
  "\<exists>r' sent k'. read_rounds sample_retro_env (Suc 2) 0 \<lparr>rd_tx_read_from = Some [1], rd_until = None, rd_next_until = None\<rparr> =
     Some (Inr (r', sent, k')) \<and> length sent = 2"
proof -
  have start: "reader_start (re_sigs sample_retro_env) (Inr ()) None
      \<lparr>mg_options = Some (), mg_client = Some (), mg_find_one = Some (Some [''k'' \<mapsto> BsonString [char_of (1 :: nat)]])\<rparr>
      ''k'' =
      Inr (Some \<lparr>rd_tx_read_from = Some [1], rd_until = None, rd_next_until = None\<rparr>)"
    by (simp add: reader_start_def get_tx_read_from_def get_last_processed_block_def sample_retro_env_def
        sample_retro_sigs_def)
  have "[1] \<in> set sample_hist" by (simp add: sample_hist_def)
  from reader_delivers_exactly_once [OF sample_serves this start, where k = 0 and n = 2] obtain r' sent k' where
    "read_rounds sample_retro_env (Suc 2) 0 \<lparr>rd_tx_read_from = Some [1], rd_until = None, rd_next_until = None\<rparr> =
       Some (Inr (r', sent, k'))"
    "List.map payload sent = due sample_retro_env (newer [1] sample_hist)"
    by (auto simp del: read_rounds.simps)
  moreover have "length (due sample_retro_env (newer [1] sample_hist)) = 2"
    by (simp add: sample_hist_def newer_def due_def has_logs_def sample_retro_env_def tx_logs_def)
  ultimately show ?thesis by (metis length_map)
qed

end
