(* ===== verification/Rabbitmq.thy ===== *)
theory Rabbitmq
  imports Transmitter_Data
begin

section \<open>Publishing to the queue\<close>

text \<open>
  \<^verbatim>\<open>transmitter-common/src/rabbitmq_client.rs\<close> (connecting with retries) and the two publishers
  \<^verbatim>\<open>listener_app/rabbitmq_publisher.rs\<close> and \<^verbatim>\<open>watcher_app/rabbitmq_publisher.rs\<close>, which are the same code
  over different messages. The calls of the \<^verbatim>\<open>amqprs\<close> library are parameters: their answers while
  connecting, and whether a publication succeeded. The publisher waits in a \<^verbatim>\<open>select!\<close>, which may take any
  branch that is ready, so it is a step relation; the closing of the connection is a step of the
  environment that can happen at any time.
\<close>

subsection \<open>Connecting\<close>

record reconnect_config =
  rc_attempts :: u64
  rc_timeout_ms :: u64

definition default_reconnect_timeout_ms :: u64 where "default_reconnect_timeout_ms = 500"
definition default_reconnect_attempts :: u64 where "default_reconnect_attempts = 20"

text \<open>The answers of the library to one attempt.\<close>

record ('e, 'c, 'h) attempt =
  at_open :: "'e + 'c"
  at_register_connection :: "'e + unit"
  at_open_channel :: "'e + 'h"
  at_confirm_select :: "'e + unit"
  at_register_channel :: "'e + unit"

definition connect :: "('e, 'c, 'h) attempt \<Rightarrow> 'e + 'c" where
  "connect a = bindE (at_open a) (\<lambda>c. bindE (at_register_connection a) (\<lambda>_. Inr c))"

definition open_channel :: "('e, 'c, 'h) attempt \<Rightarrow> 'e + 'h" where
  "open_channel a =
     bindE (at_open_channel a) (\<lambda>h.
     bindE (at_confirm_select a) (\<lambda>_.
     bindE (at_register_channel a) (\<lambda>_. Inr h)))"

definition reconnect :: "('e, 'c, 'h) attempt \<Rightarrow> 'e + 'c \<times> 'h" where
  "reconnect a = bindE (connect a) (\<lambda>c. bindE (open_channel a) (\<lambda>h. Inr (c, h)))"

datatype 'e connect_fault = ConnectErr 'e | ConnectPanic panic

text \<open>
  \<^verbatim>\<open>init_connection\<close>: the \<open>k\<close>-th attempt is answered by \<open>tries k\<close>. The counter is a \<^verbatim>\<open>usize\<close>, whose overflow
  panics. The result has the number of the next attempt.
\<close>

function init_loop ::
    "(nat \<Rightarrow> ('e, 'c, 'h) attempt) \<Rightarrow> reconnect_config \<Rightarrow> nat \<Rightarrow> u64 \<Rightarrow> 'e connect_fault + ('c \<times> 'h) \<times> nat" where
  "init_loop tries cfg k attemts =
     (case reconnect (tries k) of
        Inr conn \<Rightarrow> Inr (conn, Suc k)
      | Inl err \<Rightarrow>
          (case checked_add attemts 1 of
             None \<Rightarrow> Inl (ConnectPanic ArithmeticOverflow)
           | Some n \<Rightarrow>
               if n = rc_attempts cfg then Inl (ConnectErr err)
               else init_loop tries cfg (Suc k) n))"
  by pat_completeness auto
termination
  by (relation "measure (\<lambda>(tries, cfg, k, n). 2 ^ 64 - unat n)")
     (auto simp: checked_add_def unat_inc split: if_splits)

declare init_loop.simps [simp del]

definition init_connection ::
    "(nat \<Rightarrow> ('e, 'c, 'h) attempt) \<Rightarrow> reconnect_config \<Rightarrow> nat \<Rightarrow> 'e connect_fault + ('c \<times> 'h) \<times> nat" where
  "init_connection tries cfg k = init_loop tries cfg k 0"

subsection \<open>The publisher\<close>

text \<open>What is sent for a message of the listener and of the watcher.\<close>

definition propose_message :: "t_propose \<Rightarrow> transmitter_msg" where
  "propose_message p = transmitter_msg_new (MsgPropose p) (tp_need_check p)"

definition executed_message :: "t_proposal_executed \<Rightarrow> transmitter_msg" where
  "executed_message p = transmitter_msg_new (MsgProposalExecuted p) (tx_need_check p)"

datatype 'e stop = StopOk | StopErr 'e | StopPanic panic

text \<open>
  Where the task is: in \<^verbatim>\<open>init_connection\<close>, waiting in the \<^verbatim>\<open>select!\<close> (with the close notification received or
  not), awaiting \<^verbatim>\<open>basic_publish\<close> of a message, or returned. \<^verbatim>\<open>notify_waiters\<close> reaches only a task that has
  created its \<^verbatim>\<open>notified()\<close> future, that is, one in the \<^verbatim>\<open>select!\<close>.
\<close>

datatype ('m, 'e) phase = Connecting | Selecting bool | Publishing 'm | Stopped "'e stop"

record ('m, 'e) publisher =
  pb_queue :: "'m list"
  pb_senders :: bool
  pb_buffered :: "'m option"
  pb_connection :: "bool option"
  pb_phase :: "('m, 'e) phase"
  pb_received :: "'m list"
  pb_accepted :: "bytes list"

text \<open>
  \<open>pb_connection\<close> is the stored connection and whether it is still up; \<open>pb_received\<close> and \<open>pb_accepted\<close> record
  what came in and what the broker took.
\<close>

definition publisher_new :: "('m, 'e) publisher" where
  "publisher_new = \<lparr>pb_queue = [], pb_senders = True, pb_buffered = None, pb_connection = None,
     pb_phase = Connecting, pb_received = [], pb_accepted = []\<rparr>"

datatype 'm progress = Pending | Ready "'m option"

definition propose_to_progress :: "('m, 'e) publisher \<Rightarrow> 'm progress \<times> ('m, 'e) publisher" where
  "propose_to_progress s =
     (case pb_buffered s of
        Some m \<Rightarrow> (Ready (Some m), s\<lparr>pb_buffered := None\<rparr>)
      | None \<Rightarrow>
          (case pb_queue s of
             m # ms \<Rightarrow> (Ready (Some m), s\<lparr>pb_queue := ms\<rparr>)
           | [] \<Rightarrow> if pb_senders s then (Pending, s) else (Ready None, s)))"

text \<open>\<^verbatim>\<open>publish_propose\<close> up to \<^verbatim>\<open>basic_publish\<close>, and from its answer on.\<close>

definition publish_start ::
    "('m \<Rightarrow> transmitter_msg) \<Rightarrow> (transmitter_msg \<Rightarrow> bytes option) \<Rightarrow> 'm \<Rightarrow> ('m, 'e) publisher \<Rightarrow> ('m, 'e) publisher" where
  "publish_start wrap json m s =
     (case json (wrap m) of
        None \<Rightarrow> s\<lparr>pb_phase := Selecting False\<rparr>
      | Some j \<Rightarrow>
          if pb_connection s = None then s\<lparr>pb_phase := Stopped (StopPanic ExpectFailed)\<rparr>
          else s\<lparr>pb_phase := Publishing m\<rparr>)"

definition publish_end ::
    "('m \<Rightarrow> transmitter_msg) \<Rightarrow> (transmitter_msg \<Rightarrow> bytes option) \<Rightarrow> bool \<Rightarrow> 'm \<Rightarrow> ('m, 'e) publisher \<Rightarrow> ('m, 'e) publisher" where
  "publish_end wrap json ok m s =
     (if ok then s\<lparr>pb_phase := Selecting False,
                   pb_accepted := pb_accepted s @ (case json (wrap m) of None \<Rightarrow> [] | Some j \<Rightarrow> [j])\<rparr>
      else s\<lparr>pb_phase := Selecting False, pb_buffered := Some m\<rparr>)"

text \<open>\<^verbatim>\<open>close\<close> of the two callbacks.\<close>

definition on_close :: "('m, 'e) publisher \<Rightarrow> ('m, 'e) publisher" where
  "on_close s =
     (let s' = s\<lparr>pb_connection := map_option (\<lambda>_. False) (pb_connection s)\<rparr> in
      case pb_phase s of Selecting _ \<Rightarrow> s'\<lparr>pb_phase := Selecting True\<rparr> | _ \<Rightarrow> s')"

text \<open>
  All callbacks of \<^verbatim>\<open>ConnectionControl\<close> and \<^verbatim>\<open>ChannelControl\<close>; \<open>Some b\<close> is the answer to a request of the broker to
  change the flow. Apart from the closing they only log.
\<close>

datatype connection_event = ConnectionClose | ConnectionBlocked | ConnectionUnblocked

datatype channel_event =
    ChannelClose
  | ChannelCancel
  | ChannelFlow bool
  | PublishAck u64
  | PublishNack u64
  | PublishReturn bytes

fun on_connection_event :: "connection_event \<Rightarrow> ('m, 'e) publisher \<Rightarrow> ('m, 'e) publisher" where
  "on_connection_event ConnectionClose s = on_close s"
| "on_connection_event ConnectionBlocked s = s"
| "on_connection_event ConnectionUnblocked s = s"

fun on_channel_event :: "channel_event \<Rightarrow> ('m, 'e) publisher \<Rightarrow> bool option \<times> ('m, 'e) publisher" where
  "on_channel_event ChannelClose s = (None, on_close s)"
| "on_channel_event ChannelCancel s = (None, s)"
| "on_channel_event (ChannelFlow active) s = (Some True, s)"
| "on_channel_event (PublishAck tag) s = (None, s)"
| "on_channel_event (PublishNack tag) s = (None, s)"
| "on_channel_event (PublishReturn content) s = (None, s)"

inductive pub_step ::
    "('m \<Rightarrow> transmitter_msg) \<Rightarrow> (transmitter_msg \<Rightarrow> bytes option) \<Rightarrow> ('m, 'e) publisher \<Rightarrow> ('m, 'e) publisher \<Rightarrow> bool"
    for wrap json where
  arrive: "pb_senders s \<Longrightarrow>
     pub_step wrap json s (s\<lparr>pb_queue := pb_queue s @ [m], pb_received := pb_received s @ [m]\<rparr>)"
| hang_up: "pub_step wrap json s (s\<lparr>pb_senders := False\<rparr>)"
| closed: "pb_connection s = Some True \<Longrightarrow> pub_step wrap json s (on_close s)"
| connected: "pb_phase s = Connecting \<Longrightarrow>
     pub_step wrap json s (s\<lparr>pb_connection := Some True, pb_phase := Selecting False\<rparr>)"
| connect_failed: "pb_phase s = Connecting \<Longrightarrow> pub_step wrap json s (s\<lparr>pb_phase := Stopped (StopErr e)\<rparr>)"
| notified: "pb_phase s = Selecting True \<Longrightarrow> pub_step wrap json s (s\<lparr>pb_phase := Connecting\<rparr>)"
| taken: "pb_phase s = Selecting b \<Longrightarrow> propose_to_progress s = (Ready (Some m), s') \<Longrightarrow>
     pub_step wrap json s (publish_start wrap json m s')"
| finished: "pb_phase s = Selecting b \<Longrightarrow> propose_to_progress s = (Ready None, s') \<Longrightarrow>
     pub_step wrap json s (s'\<lparr>pb_phase := Stopped StopOk\<rparr>)"
| published: "pb_phase s = Publishing m \<Longrightarrow> ok \<longrightarrow> pb_connection s = Some True \<Longrightarrow>
     pub_step wrap json s (publish_end wrap json ok m s)"

text \<open>The two publishers.\<close>

definition listener_publish_step ::
    "(transmitter_msg \<Rightarrow> bytes option) \<Rightarrow> (t_propose, 'e) publisher \<Rightarrow> (t_propose, 'e) publisher \<Rightarrow> bool" where
  "listener_publish_step json = pub_step propose_message json"

definition watcher_publish_step ::
    "(transmitter_msg \<Rightarrow> bytes option) \<Rightarrow> (t_proposal_executed, 'e) publisher \<Rightarrow> (t_proposal_executed, 'e) publisher \<Rightarrow> bool" where
  "watcher_publish_step json = pub_step executed_message json"

inductive pub_reachable ::
    "('m \<Rightarrow> transmitter_msg) \<Rightarrow> (transmitter_msg \<Rightarrow> bytes option) \<Rightarrow> ('m, 'e) publisher \<Rightarrow> bool"
    for wrap json where
  start: "pub_reachable wrap json publisher_new"
| step: "pub_reachable wrap json s \<Longrightarrow> pub_step wrap json s s' \<Longrightarrow> pub_reachable wrap json s'"

subsection \<open>Connecting: a bounded number of attempts\<close>

definition attempt_fails :: "('e, 'c, 'h) attempt \<Rightarrow> bool" where
  "attempt_fails a \<longleftrightarrow> (\<exists>e. reconnect a = Inl e)"

lemma init_loop_success:
  assumes "reconnect (tries (k + i)) = Inr conn" "\<forall>j < i. attempt_fails (tries (k + j))"
    and "unat n + i < unat (rc_attempts cfg)"
  shows "init_loop tries cfg k n = Inr (conn, k + Suc i)"
  using assms
proof (induction i arbitrary: k n)
  case 0
  then show ?case by (simp add: init_loop.simps)
next
  case (Suc i)
  from Suc.prems(2) obtain e where e: "reconnect (tries k) = Inl e" by (auto simp: attempt_fails_def)
  have "unat (rc_attempts cfg) < 2 ^ 64" using unsigned_less [of "rc_attempts cfg"] by simp
  then have n: "unat (n + 1) = unat n + 1" "checked_add n 1 = Some (n + 1)"
    using Suc.prems(3) by (simp_all add: unat_inc checked_add_def)
  then have "n + 1 \<noteq> rc_attempts cfg" using Suc.prems(3) by auto
  moreover have "attempt_fails (tries (Suc k + j))" if "j < i" for j
    using Suc.prems(2) [rule_format, of "Suc j"] that by simp
  then have "init_loop tries cfg (Suc k) (n + 1) = Inr (conn, Suc k + Suc i)"
    using Suc.prems n by (intro Suc.IH) simp_all
  ultimately show ?case using e n by (subst init_loop.simps) simp
qed

lemma init_loop_failure:
  assumes "\<forall>j \<le> i. attempt_fails (tries (k + j))" "reconnect (tries (k + i)) = Inl err"
    and "unat n + Suc i = unat (rc_attempts cfg)"
  shows "init_loop tries cfg k n = Inl (ConnectErr err)"
  using assms
proof (induction i arbitrary: k n)
  have bound: "unat (rc_attempts cfg) < 2 ^ 64" using unsigned_less [of "rc_attempts cfg"] by simp
  case 0
  then have n: "unat (n + 1) = unat n + 1" "checked_add n 1 = Some (n + 1)"
    using bound by (simp_all add: unat_inc checked_add_def)
  then have "n + 1 = rc_attempts cfg" using 0 by (simp add: word_unat_eq_iff)
  with 0 n show ?case by (simp add: init_loop.simps)
next
  have bound: "unat (rc_attempts cfg) < 2 ^ 64" using unsigned_less [of "rc_attempts cfg"] by simp
  case (Suc i)
  from Suc.prems(1) obtain e where e: "reconnect (tries k) = Inl e" by (auto simp: attempt_fails_def)
  have n: "unat (n + 1) = unat n + 1" "checked_add n 1 = Some (n + 1)"
    using bound Suc.prems(3) by (simp_all add: unat_inc checked_add_def)
  then have "n + 1 \<noteq> rc_attempts cfg" using Suc.prems(3) by auto
  moreover have "attempt_fails (tries (Suc k + j))" if "j \<le> i" for j
    using Suc.prems(1) [rule_format, of "Suc j"] that by simp
  then have "init_loop tries cfg (Suc k) (n + 1) = Inl (ConnectErr err)"
    using Suc.prems n by (intro Suc.IH) simp_all
  ultimately show ?case using e n by (subst init_loop.simps) simp
qed

text \<open>C30: Connecting takes at most the configured number of attempts. With a positive limit,
  \<^verbatim>\<open>init_connection\<close> returns the connection of the first attempt that succeeds, and after the limit's
  last failed attempt it returns that attempt's error; it never panics.\<close>

theorem init_connection_bounded:
  assumes "0 < rc_attempts cfg"
  shows "(\<exists>i conn. i < unat (rc_attempts cfg) \<and> (\<forall>j < i. attempt_fails (tries (k + j)))
       \<and> reconnect (tries (k + i)) = Inr conn \<and> init_connection tries cfg k = Inr (conn, k + Suc i))
     \<or> (\<exists>err. (\<forall>j < unat (rc_attempts cfg). attempt_fails (tries (k + j)))
       \<and> reconnect (tries (k + (unat (rc_attempts cfg) - 1))) = Inl err
       \<and> init_connection tries cfg k = Inl (ConnectErr err))"
proof -
  let ?a = "unat (rc_attempts cfg)"
  have a: "0 < ?a" using assms by (simp add: word_less_nat_alt)
  show ?thesis
  proof (cases "\<forall>j < ?a. attempt_fails (tries (k + j))")
    case True
    with a have "attempt_fails (tries (k + (?a - 1)))" by (metis diff_less zero_less_one)
    then obtain err where err: "reconnect (tries (k + (?a - 1))) = Inl err" by (auto simp: attempt_fails_def)
    have "init_connection tries cfg k = Inl (ConnectErr err)"
      using True err a unfolding init_connection_def by (intro init_loop_failure [where i = "?a - 1"]) auto
    with True err show ?thesis by blast
  next
    case False
    define i where "i = (LEAST j. j < ?a \<and> \<not> attempt_fails (tries (k + j)))"
    from False have i: "i < ?a \<and> \<not> attempt_fails (tries (k + i))"
      unfolding i_def by (metis (mono_tags, lifting) LeastI_ex)
    have before: "\<forall>j < i. attempt_fails (tries (k + j))"
      using i not_less_Least unfolding i_def by (metis (mono_tags, lifting) order_less_trans)
    from i obtain conn where conn: "reconnect (tries (k + i)) = Inr conn"
      by (cases "reconnect (tries (k + i))") (auto simp: attempt_fails_def)
    have "init_connection tries cfg k = Inr (conn, k + Suc i)"
      using i unfolding init_connection_def by (intro init_loop_success [OF conn before]) simp
    with i before conn show ?thesis by blast
  qed
qed

definition sample_attempt :: "bool \<Rightarrow> (nat, nat, nat) attempt" where
  "sample_attempt ok =
     \<lparr>at_open = (if ok then Inr 1 else Inl 7), at_register_connection = Inr (), at_open_channel = Inr 2,
      at_confirm_select = Inr (), at_register_channel = Inr ()\<rparr>"

lemma init_connection_bounded_witness:
  "(\<exists>i conn. i < 3 \<and> init_connection (\<lambda>k. sample_attempt (k = 2)) \<lparr>rc_attempts = 3, rc_timeout_ms = 500\<rparr> 0 = Inr (conn, Suc i))"
proof -
  have "\<not> attempt_fails (sample_attempt True)"
    by (simp add: attempt_fails_def reconnect_def connect_def open_channel_def sample_attempt_def)
  then have "\<not> (\<forall>j < (3 :: nat). attempt_fails (sample_attempt (j = 2)))"
    by (auto intro!: exI [of _ 2])
  then show ?thesis
    using init_connection_bounded [of "\<lparr>rc_attempts = 3, rc_timeout_ms = 500\<rparr>" "\<lambda>k. sample_attempt (k = 2)" 0]
    by auto
qed

subsection \<open>Nothing is lost, repeated or reordered\<close>

definition encoded :: "('m \<Rightarrow> transmitter_msg) \<Rightarrow> (transmitter_msg \<Rightarrow> bytes option) \<Rightarrow> 'm list \<Rightarrow> bytes list" where
  "encoded wrap json ms = concat (List.map (\<lambda>m. case json (wrap m) of None \<Rightarrow> [] | Some j \<Rightarrow> [j]) ms)"

lemma encoded_simps [simp]:
  "encoded wrap json [] = []"
  "encoded wrap json (m # ms) = (case json (wrap m) of None \<Rightarrow> [] | Some j \<Rightarrow> [j]) @ encoded wrap json ms"
  "encoded wrap json (ms @ ns) = encoded wrap json ms @ encoded wrap json ns"
  by (simp_all add: encoded_def)

definition in_flight :: "('m, 'e) publisher \<Rightarrow> 'm list" where
  "in_flight s = (case pb_phase s of Publishing m \<Rightarrow> [m] | _ \<Rightarrow> [])"

definition pending :: "('m, 'e) publisher \<Rightarrow> 'm list" where
  "pending s = in_flight s @ (case pb_buffered s of None \<Rightarrow> [] | Some m \<Rightarrow> [m]) @ pb_queue s"

definition phase_ok :: "('m, 'e) publisher \<Rightarrow> bool" where
  "phase_ok s \<longleftrightarrow>
     (case pb_phase s of
        Connecting \<Rightarrow> True
      | Selecting b \<Rightarrow> pb_connection s \<noteq> None
      | Publishing m \<Rightarrow> pb_connection s \<noteq> None \<and> pb_buffered s = None
      | Stopped r \<Rightarrow> \<forall>p. r \<noteq> StopPanic p)"

definition pub_inv :: "('m \<Rightarrow> transmitter_msg) \<Rightarrow> (transmitter_msg \<Rightarrow> bytes option) \<Rightarrow> ('m, 'e) publisher \<Rightarrow> bool" where
  "pub_inv wrap json s \<longleftrightarrow>
     phase_ok s \<and> encoded wrap json (pb_received s) = pb_accepted s @ encoded wrap json (pending s)"

lemmas pub_defs = pub_inv_def phase_ok_def pending_def in_flight_def

text \<open>
  A message that the broker refuses is lost: the channel asks for confirmations (\<^verbatim>\<open>confirm_select\<close>), but once
  \<^verbatim>\<open>basic_publish\<close> has returned the message is no longer kept, and a refusal or a return that arrives later
  only gets logged.
\<close>

lemma refused_message_is_lost:
  assumes "pub_inv wrap json s" "pb_phase s = Publishing m" "ev = PublishNack tag \<or> ev = PublishReturn content"
  shows "pending s = m # pending (snd (on_channel_event ev (publish_end wrap json True m s)))"
  using assms by (auto simp: publish_end_def pub_defs)

lemma taken_keeps:
  assumes "pub_inv wrap json s" "pb_phase s = Selecting b" "propose_to_progress s = (Ready (Some m), s')"
  shows "pub_inv wrap json (publish_start wrap json m s')"
  using assms
  by (auto simp: propose_to_progress_def publish_start_def pub_defs split: option.splits list.splits if_splits)

lemma published_keeps:
  assumes "pub_inv wrap json s" "pb_phase s = Publishing m"
  shows "pub_inv wrap json (publish_end wrap json ok m s)"
  using assms by (auto simp: publish_end_def pub_defs)

lemma on_close_keeps: "pub_inv wrap json s \<Longrightarrow> pub_inv wrap json (on_close s)"
  by (cases "pb_phase s") (auto simp: on_close_def pub_defs Let_def)

lemma pub_step_keeps:
  assumes "pub_step wrap json s s'" "pub_inv wrap json s"
  shows "pub_inv wrap json s'"
  using assms
proof (cases rule: pub_step.cases)
  case (arrive m)
  then show ?thesis using assms(2) by (auto simp: pub_defs split: phase.splits)
next
  case hang_up
  then show ?thesis using assms(2) by (auto simp: pub_defs split: phase.splits)
next
  case (finished b t)
  then show ?thesis
    using assms(2) by (auto simp: propose_to_progress_def pub_defs split: option.splits list.splits if_splits)
next
  case closed
  then show ?thesis using on_close_keeps [OF assms(2)] by simp
next
  case (taken b m t)
  then show ?thesis using taken_keeps [OF assms(2)] by simp
next
  case (published m ok)
  then show ?thesis using published_keeps [OF assms(2)] by simp
qed (use assms(2) in \<open>auto simp: pub_defs\<close>)

lemma pub_reachable_inv: "pub_reachable wrap json s \<Longrightarrow> pub_inv wrap json s"
proof (induction rule: pub_reachable.induct)
  case start
  show ?case by (simp add: publisher_new_def pub_defs)
qed (rule pub_step_keeps)

text \<open>C31: A publisher loses, repeats and reorders nothing. At any time, the messages the broker accepted followed
  by the one being published, the one kept after a failed publication and those in the channel are exactly
  the messages received, in order (apart from messages that have no JSON form, which are dropped);
  and the publisher never panics for want of a connection.\<close>

theorem publisher_keeps_order:
  assumes "pub_reachable wrap json s"
  shows "encoded wrap json (pb_received s) = pb_accepted s @ encoded wrap json (pending s)
    \<and> (\<forall>p. pb_phase s \<noteq> Stopped (StopPanic p))"
  using pub_reachable_inv [OF assms] by (auto simp: pub_inv_def phase_ok_def)

definition sample_json :: "transmitter_msg \<Rightarrow> bytes option" where
  "sample_json m = Some [1]"

definition sample_executed :: t_proposal_executed where
  "sample_executed = \<lparr>tx_need_check = True, tx_last_watched_block = ''s'', tx_op_hash = replicate 32 0,
     tx_executor = replicate 32 1\<rparr>"

text \<open>One message arrives, is taken and is being published.\<close>

definition sample_publishing :: "(t_proposal_executed, nat) publisher" where
  "sample_publishing =
     \<lparr>pb_queue = [], pb_senders = True, pb_buffered = None, pb_connection = Some True,
      pb_phase = Publishing sample_executed, pb_received = [sample_executed], pb_accepted = []\<rparr>"

lemma sample_publishing_reachable: "pub_reachable executed_message sample_json sample_publishing"
proof -
  let ?w = executed_message and ?j = sample_json and ?m = sample_executed
  let ?s0 = "publisher_new :: (t_proposal_executed, nat) publisher"
  let ?s1 = "?s0\<lparr>pb_connection := Some True, pb_phase := Selecting False\<rparr>"
  let ?s2 = "?s1\<lparr>pb_queue := [?m], pb_received := [?m]\<rparr>"
  have "pub_step ?w ?j ?s0 ?s1" by (rule connected) (simp add: publisher_new_def)
  moreover have "pub_step ?w ?j ?s1 ?s2"
    using arrive [of ?s1 ?w ?j ?m] by (simp add: publisher_new_def)
  moreover have "pub_step ?w ?j ?s2 sample_publishing"
    using taken [of ?s2 False ?m "?s2\<lparr>pb_queue := []\<rparr>" ?w ?j]
    by (simp add: publisher_new_def propose_to_progress_def publish_start_def sample_json_def sample_publishing_def)
  ultimately show ?thesis by (meson pub_reachable.intros)
qed

lemma publisher_keeps_order_witness:
  "encoded executed_message sample_json [sample_executed] =
     [] @ encoded executed_message sample_json [sample_executed]"
  using publisher_keeps_order [OF sample_publishing_reachable] by (simp add: pending_def in_flight_def sample_publishing_def)

subsection \<open>A closing that is not noticed\<close>

definition unnoticed :: "('m, 'e) publisher \<Rightarrow> bool" where
  "unnoticed s \<longleftrightarrow>
     pb_connection s = Some False \<and> (\<forall>b. pb_phase s = Selecting b \<longrightarrow> \<not> b) \<and> pb_phase s \<noteq> Connecting"

lemma unnoticed_step:
  assumes "pub_step wrap json s s'" "unnoticed s"
  shows "unnoticed s' \<and> pb_accepted s' = pb_accepted s"
  using assms
  by (cases rule: pub_step.cases)
     (auto simp: unnoticed_def publish_start_def publish_end_def propose_to_progress_def
       split: option.splits list.splits if_splits)

text \<open>A connection that closes while a message is being published is never replaced. The close
  notification, which the library gives once per closing, only wakes a waiting publisher; after it was
  missed, whatever arrives, the publisher never connects again and the broker accepts nothing more: it
  retries the same message on the dead connection.\<close>

theorem missed_close_never_recovers:
  assumes "pub_reachable wrap json s" "pb_phase s = Publishing m" "pb_connection s = Some True"
    and "(pub_step wrap json)\<^sup>*\<^sup>* (on_close s) s'"
  shows "pb_connection s' = Some False \<and> pb_phase s' \<noteq> Connecting \<and> pb_accepted s' = pb_accepted s"
proof -
  have "unnoticed (on_close s)" "pb_accepted (on_close s) = pb_accepted s"
    using assms(2,3) by (simp_all add: unnoticed_def on_close_def Let_def)
  with assms(4) have "unnoticed s' \<and> pb_accepted s' = pb_accepted s"
    by (induction rule: rtranclp_induct) (use unnoticed_step in force)+
  then show ?thesis by (simp add: unnoticed_def)
qed

lemma missed_close_never_recovers_witness:
  "\<exists>s s' :: (t_proposal_executed, nat) publisher. pb_phase s = Publishing sample_executed
     \<and> (pub_step executed_message sample_json)\<^sup>*\<^sup>* (on_close s) s'
     \<and> pb_connection s' = Some False \<and> pb_buffered s' = Some sample_executed"
proof -
  let ?w = executed_message and ?j = sample_json and ?m = sample_executed
  let ?s = "sample_publishing"
  have "pub_step ?w ?j (on_close ?s) (publish_end ?w ?j False ?m (on_close ?s))"
    by (rule published) (simp_all add: on_close_def sample_publishing_def)
  then have run: "(pub_step ?w ?j)\<^sup>*\<^sup>* (on_close ?s) (publish_end ?w ?j False ?m (on_close ?s))" by blast
  have s: "pb_phase ?s = Publishing ?m" "pb_connection ?s = Some True" by (simp_all add: sample_publishing_def)
  have "pb_buffered (publish_end ?w ?j False ?m (on_close ?s)) = Some ?m" by (simp add: publish_end_def)
  with s run missed_close_never_recovers [OF sample_publishing_reachable s run] show ?thesis by blast
qed

end
