(* ===== verification/Event_Apps.thy ===== *)
theory Event_Apps
  imports Retro_Reader Rabbitmq
begin

section \<open>The listener and watcher applications\<close>

text \<open>
  \<^verbatim>\<open>transmitter-module/src/listener_app/app.rs\<close> and \<^verbatim>\<open>watcher_app/app.rs\<close>: one \<^verbatim>\<open>select!\<close> runs the reader, the
  event processor and the publisher, which are connected by two unbounded channels, until one of them
  returns. The two applications differ in the event handler and in the message only, so the step
  relation takes these as arguments. The reader sends the bunches of a round without waiting in between,
  so a round is one step; so is the handling of a bunch, which does not wait at all. The steps of the
  publisher are those of \<open>pub_step\<close> that are its own: the arrival of messages is the processor's doing,
  and the channels stay open as long as the application lives.
\<close>

datatype 'e app_stop =
    ReaderReturned "event_listener_error + unit"
  | PublisherReturned "'e stop"
  | AppPanic panic

record ('m, 'e) event_app =
  ea_reader :: reader
  ea_requests :: nat
  ea_logs :: "logs_bunch list"
  ea_publisher :: "('m, 'e) publisher"
  ea_stop :: "'e app_stop option"
  ea_sent :: "logs_bunch list"

text \<open>\<open>ea_sent\<close> records what the reader has sent.\<close>

definition event_app_new :: "reader \<Rightarrow> nat \<Rightarrow> ('m, 'e) event_app" where
  "event_app_new r k =
     \<lparr>ea_reader = r, ea_requests = k, ea_logs = [], ea_publisher = publisher_new, ea_stop = None, ea_sent = []\<rparr>"

text \<open>
  The application up to the first round of the reader: when the reader finds no position to read from, or
  fails, its branch of the \<^verbatim>\<open>select!\<close> is complete and the application ends.
\<close>

definition event_app_start ::
    "sig_env \<Rightarrow> event_listener_error + unit \<Rightarrow> string option \<Rightarrow> mongo_answers \<Rightarrow> string \<Rightarrow> nat
     \<Rightarrow> 'e app_stop + ('m, 'e) event_app" where
  "event_app_start sg pool configured mongo last_block k =
     (case reader_start sg pool configured mongo last_block of
        Inl e \<Rightarrow> Inl (ReaderReturned (Inl e))
      | Inr None \<Rightarrow> Inl (ReaderReturned (Inr ()))
      | Inr (Some r) \<Rightarrow> Inr (event_app_new r k))"

text \<open>The messages that one bunch adds to the channel of the publisher.\<close>

definition hand_over :: "'m channel \<Rightarrow> ('m, 'e) publisher \<Rightarrow> ('m, 'e) publisher" where
  "hand_over c p =
     p\<lparr>pb_queue := ch_queue c, pb_received := pb_received p @ drop (length (pb_queue p)) (ch_queue c)\<rparr>"

abbreviation queue_of :: "('m, 'e) publisher \<Rightarrow> 'm channel" where
  "queue_of p \<equiv> \<lparr>ch_open = True, ch_queue = pb_queue p\<rparr>"

inductive app_step ::
    "retro_env \<Rightarrow> 'ev log_env \<Rightarrow> string \<Rightarrow> ('ev, 'm) handler \<Rightarrow> ('m \<Rightarrow> transmitter_msg)
     \<Rightarrow> (transmitter_msg \<Rightarrow> bytes option) \<Rightarrow> ('m, 'e) event_app \<Rightarrow> ('m, 'e) event_app \<Rightarrow> bool"
    for env lenv photon on_event wrap json where
  round: "ea_stop s = None \<Longrightarrow> read_round env (ea_requests s) (ea_reader s) = Some (Inr (r, bs, k)) \<Longrightarrow>
     app_step env lenv photon on_event wrap json s
       (s\<lparr>ea_reader := r, ea_requests := k, ea_logs := ea_logs s @ bs, ea_sent := ea_sent s @ bs\<rparr>)"
| round_panic: "ea_stop s = None \<Longrightarrow> read_round env (ea_requests s) (ea_reader s) = Some (Inl p) \<Longrightarrow>
     app_step env lenv photon on_event wrap json s (s\<lparr>ea_stop := Some (AppPanic p)\<rparr>)"
| bunch: "ea_stop s = None \<Longrightarrow> ea_logs s = b # bs \<Longrightarrow>
     on_logs lenv photon on_event b (queue_of (ea_publisher s)) = Inr c \<Longrightarrow>
     app_step env lenv photon on_event wrap json s
       (s\<lparr>ea_logs := bs, ea_publisher := hand_over c (ea_publisher s)\<rparr>)"
| bunch_panic: "ea_stop s = None \<Longrightarrow> ea_logs s = b # bs \<Longrightarrow>
     on_logs lenv photon on_event b (queue_of (ea_publisher s)) = Inl p \<Longrightarrow>
     app_step env lenv photon on_event wrap json s (s\<lparr>ea_logs := bs, ea_stop := Some (AppPanic p)\<rparr>)"
| publisher: "ea_stop s = None \<Longrightarrow> pub_step wrap json (ea_publisher s) p \<Longrightarrow>
     pb_received p = pb_received (ea_publisher s) \<Longrightarrow> pb_senders p = pb_senders (ea_publisher s) \<Longrightarrow>
     app_step env lenv photon on_event wrap json s (s\<lparr>ea_publisher := p\<rparr>)"
| publisher_stop: "ea_stop s = None \<Longrightarrow> pb_phase (ea_publisher s) = Stopped r \<Longrightarrow>
     app_step env lenv photon on_event wrap json s (s\<lparr>ea_stop := Some (PublisherReturned r)\<rparr>)"

inductive_cases app_stepE: "app_step env lenv photon on_event wrap json s s'"

text \<open>The two applications.\<close>

definition listener_app_step ::
    "network \<Rightarrow> bytes list \<Rightarrow> retro_env \<Rightarrow> propose_event log_env \<Rightarrow> string \<Rightarrow> (transmitter_msg \<Rightarrow> bytes option)
     \<Rightarrow> (t_propose, 'e) event_app \<Rightarrow> (t_propose, 'e) event_app \<Rightarrow> bool" where
  "listener_app_step net allowed env lenv photon json =
     app_step env lenv photon (on_propose_event net (re_sigs env) (proposal_event_processor_new allowed))
       propose_message json"

definition watcher_app_step ::
    "retro_env \<Rightarrow> executed_event log_env \<Rightarrow> string \<Rightarrow> (transmitter_msg \<Rightarrow> bytes option)
     \<Rightarrow> (t_proposal_executed, 'e) event_app \<Rightarrow> (t_proposal_executed, 'e) event_app \<Rightarrow> bool" where
  "watcher_app_step env lenv photon json = app_step env lenv photon on_executed_event executed_message json"

subsection \<open>The handlers\<close>

text \<open>A handler that sends its messages or panics, whatever is in the channel.\<close>

locale total_processor = event_processor on_event accepts msgs
  for on_event :: "('e, 'm) handler" and accepts msgs +
  assumes rejects: "\<not> accepts e \<Longrightarrow> \<exists>p. on_event e sig slot need_check c = Inl p"
begin

lemma each_event_cases:
  assumes "each_event on_event b es c = Inr c'"
  shows "list_all accepts es"
  using assms
proof (induction es arbitrary: c)
  case (Cons e es)
  have "accepts e"
  proof (rule ccontr)
    assume "\<not> accepts e"
    from rejects [OF this] obtain p where "on_event e (lb_tx_signature b) (lb_slot b) (lb_need_check b) c = Inl p" ..
    with Cons.prems show False by simp
  qed
  with Cons show ?case by (auto simp: on_event_sends)
qed simp

lemma on_logs_cases:
  assumes "on_logs env photon on_event b c = Inr c'"
  shows "on_logs env photon on_event b d = Inr (appended (bunch_msgs b (parsed env photon b)) d)"
proof (cases "parse_logs env (lb_logs b) photon")
  case (Inl f)
  with assms obtain e where "f = ParseErr e" by (cases f) (auto simp: on_logs_def)
  with Inl show ?thesis by (simp add: on_logs_skips parsed_def bunch_msgs_def)
next
  case (Inr es)
  with assms each_event_cases have "list_all accepts es" by (auto simp: on_logs_def)
  with Inr show ?thesis by (simp add: on_logs_sends parsed_def)
qed

end

interpretation proposals: total_processor "on_propose_event net sg self" "\<lambda>_. True" "propose_msgs net sg self"
  for net sg self
  by unfold_locales simp

interpretation executions: total_processor on_executed_event "\<lambda>e. length (xv_op_hash e) = 32" executed_msgs
  by unfold_locales (simp add: on_executed_event_def)

subsection \<open>What an application has done\<close>

inductive app_reachable ::
    "retro_env \<Rightarrow> 'ev log_env \<Rightarrow> string \<Rightarrow> ('ev, 'm) handler \<Rightarrow> ('m \<Rightarrow> transmitter_msg)
     \<Rightarrow> (transmitter_msg \<Rightarrow> bytes option) \<Rightarrow> reader \<Rightarrow> nat \<Rightarrow> ('m, 'e) event_app \<Rightarrow> bool"
    for env lenv photon on_event wrap json r k where
  start: "app_reachable env lenv photon on_event wrap json r k (event_app_new r k)"
| step: "app_reachable env lenv photon on_event wrap json r k s \<Longrightarrow>
     app_step env lenv photon on_event wrap json s s' \<Longrightarrow>
     app_reachable env lenv photon on_event wrap json r k s'"

lemma read_rounds_snoc:
  assumes "read_rounds env n k r = Some (Inr (r1, bs1, k1))" "read_round env k1 r1 = Some (Inr (r2, bs2, k2))"
  shows "read_rounds env (Suc n) k r = Some (Inr (r2, bs1 @ bs2, k2))"
  using assms(1)
proof (induction n arbitrary: k r bs1)
  case 0
  with assms(2) show ?case by simp
next
  case (Suc n)
  from Suc.prems obtain r' bs k' bs' where first: "read_round env k r = Some (Inr (r', bs, k'))"
    and rest: "read_rounds env n k' r' = Some (Inr (r1, bs', k1))" and bs: "bs1 = bs @ bs'"
    by (auto simp: result_simps split: option.splits sum.splits)
  from Suc.IH [OF rest] first bs show ?case by simp
qed

definition rounds_done :: "retro_env \<Rightarrow> reader \<Rightarrow> nat \<Rightarrow> ('m, 'e) event_app \<Rightarrow> bool" where
  "rounds_done env r k s \<longleftrightarrow>
     (\<exists>n. read_rounds env n k r = Some (Inr (ea_reader s, ea_sent s, ea_requests s)))"

text \<open>The bunches taken from the channel gave what the publisher received; a panic loses the bunch at hand.\<close>

definition bunches_done :: "'ev log_env \<Rightarrow> string \<Rightarrow> ('ev, 'm) handler \<Rightarrow> ('m, 'e) event_app \<Rightarrow> bool" where
  "bunches_done lenv photon on_event s \<longleftrightarrow>
     (\<exists>taken lost. ea_sent s = taken @ lost @ ea_logs s \<and> (lost \<noteq> [] \<longrightarrow> ea_stop s \<noteq> None)
        \<and> execute_bunches lenv photon on_event taken \<lparr>ch_open = True, ch_queue = []\<rparr> =
            Inr \<lparr>ch_open = True, ch_queue = pb_received (ea_publisher s)\<rparr>)"

lemma execute_bunches_snoc:
  "execute_bunches lenv photon on_event (bs @ [b]) c =
     bindE (execute_bunches lenv photon on_event bs c) (on_logs lenv photon on_event b)"
proof (induction bs arbitrary: c)
  case Nil
  show ?case by (cases "on_logs lenv photon on_event b c") simp_all
next
  case (Cons a bs)
  then show ?case by (cases "on_logs lenv photon on_event a c") simp_all
qed

lemma hand_over_appended:
  "hand_over (appended ms (queue_of p)) p = p\<lparr>pb_queue := pb_queue p @ ms, pb_received := pb_received p @ ms\<rparr>"
  by (simp add: hand_over_def appended_def)

text \<open>The messages of a bunch arrive one after the other.\<close>

lemma pub_reachable_arrivals:
  assumes "pub_reachable wrap json p" "pb_senders p"
  shows "pub_reachable wrap json (p\<lparr>pb_queue := pb_queue p @ ms, pb_received := pb_received p @ ms\<rparr>)"
proof (induction ms rule: rev_induct)
  case (snoc m ms)
  from pub_reachable.step [OF snoc arrive [of _ wrap json m]] assms(2) show ?case by simp
qed (simp add: assms(1))

definition app_inv ::
    "retro_env \<Rightarrow> 'ev log_env \<Rightarrow> string \<Rightarrow> ('ev, 'm) handler \<Rightarrow> ('m \<Rightarrow> transmitter_msg)
     \<Rightarrow> (transmitter_msg \<Rightarrow> bytes option) \<Rightarrow> reader \<Rightarrow> nat \<Rightarrow> ('m, 'e) event_app \<Rightarrow> bool" where
  "app_inv env lenv photon on_event wrap json r k s \<longleftrightarrow>
     rounds_done env r k s \<and> bunches_done lenv photon on_event s
     \<and> pub_reachable wrap json (ea_publisher s) \<and> pb_senders (ea_publisher s)"

lemma bunches_done_stop:
  assumes "bunches_done lenv photon on_event s" "ea_stop s = None"
  shows "bunches_done lenv photon on_event (s\<lparr>ea_stop := Some x\<rparr>)"
proof -
  from assms obtain taken where "ea_sent s = taken @ ea_logs s"
    "execute_bunches lenv photon on_event taken \<lparr>ch_open = True, ch_queue = []\<rparr> =
       Inr \<lparr>ch_open = True, ch_queue = pb_received (ea_publisher s)\<rparr>"
    by (auto simp: bunches_done_def)
  then show ?thesis unfolding bunches_done_def by (intro exI [of _ taken] exI [of _ "[]"]) simp
qed

lemma bunches_done_panic:
  assumes "bunches_done lenv photon on_event s" "ea_stop s = None" "ea_logs s = b # bs"
  shows "bunches_done lenv photon on_event (s\<lparr>ea_logs := bs, ea_stop := Some x\<rparr>)"
proof -
  from assms(1,2) obtain taken where "ea_sent s = taken @ ea_logs s"
    "execute_bunches lenv photon on_event taken \<lparr>ch_open = True, ch_queue = []\<rparr> =
       Inr \<lparr>ch_open = True, ch_queue = pb_received (ea_publisher s)\<rparr>"
    by (auto simp: bunches_done_def)
  with assms(3) show ?thesis unfolding bunches_done_def by (intro exI [of _ taken] exI [of _ "[b]"]) simp
qed

context total_processor
begin

lemma bunch_keeps:
  assumes "app_inv env lenv photon on_event wrap json r k s" "ea_stop s = None" "ea_logs s = b # bs"
    and "on_logs lenv photon on_event b (queue_of (ea_publisher s)) = Inr c"
  shows "app_inv env lenv photon on_event wrap json r k
    (s\<lparr>ea_logs := bs, ea_publisher := hand_over c (ea_publisher s)\<rparr>)"
proof -
  let ?ms = "bunch_msgs b (parsed lenv photon b)" and ?p = "ea_publisher s"
  have run: "on_logs lenv photon on_event b d = Inr (appended ?ms d)" for d
    by (rule on_logs_cases [OF assms(4)])
  then have c: "c = appended ?ms (queue_of ?p)" using assms(4) by simp
  from assms(1,2) obtain taken where taken: "ea_sent s = taken @ ea_logs s"
    "execute_bunches lenv photon on_event taken \<lparr>ch_open = True, ch_queue = []\<rparr> =
       Inr \<lparr>ch_open = True, ch_queue = pb_received ?p\<rparr>"
    by (auto simp: app_inv_def bunches_done_def)
  then have "execute_bunches lenv photon on_event (taken @ [b]) \<lparr>ch_open = True, ch_queue = []\<rparr> =
      Inr \<lparr>ch_open = True, ch_queue = pb_received ?p @ ?ms\<rparr>"
    by (simp add: execute_bunches_snoc run appended_def)
  then have "bunches_done lenv photon on_event (s\<lparr>ea_logs := bs, ea_publisher := hand_over c ?p\<rparr>)"
    using taken(1) assms(3) unfolding bunches_done_def
    by (intro exI [of _ "taken @ [b]"] exI [of _ "[]"]) (simp add: c hand_over_appended)
  with assms(1) show ?thesis
    by (auto simp: app_inv_def rounds_done_def c hand_over_appended pub_reachable_arrivals)
qed

lemma app_step_keeps:
  assumes "app_step env lenv photon on_event wrap json s s'" "app_inv env lenv photon on_event wrap json r k s"
  shows "app_inv env lenv photon on_event wrap json r k s'"
  using assms(1)
proof (cases rule: app_step.cases)
  case (round r' bs k')
  from assms(2) obtain n where "read_rounds env n k r = Some (Inr (ea_reader s, ea_sent s, ea_requests s))"
    by (auto simp: app_inv_def rounds_done_def)
  from read_rounds_snoc [OF this round(3)] have "rounds_done env r k s'"
    unfolding rounds_done_def round(1) by (intro exI [of _ "Suc n"]) simp
  with assms(2) show ?thesis unfolding round(1) by (auto simp: app_inv_def bunches_done_def)
next
  case (bunch b bs c)
  then show ?thesis using bunch_keeps [OF assms(2)] by simp
next
  case (bunch_panic b bs p)
  then show ?thesis
    using assms(2) bunches_done_panic [of lenv photon on_event s b bs] by (simp add: app_inv_def rounds_done_def)
next
  case (publisher p)
  with assms(2) show ?thesis
    by (auto simp: app_inv_def rounds_done_def bunches_done_def intro: pub_reachable.step)
qed (use assms(2) in \<open>simp_all add: app_inv_def rounds_done_def bunches_done_stop\<close>)

lemma app_reachable_inv:
  "app_reachable env lenv photon on_event wrap json r k s \<Longrightarrow> app_inv env lenv photon on_event wrap json r k s"
proof (induction rule: app_reachable.induct)
  case start
  have "rounds_done env r k (event_app_new r k)"
    unfolding rounds_done_def by (intro exI [of _ 0]) (simp add: event_app_new_def)
  then show ?case
    by (simp add: app_inv_def bunches_done_def event_app_new_def publisher_new_def
        pub_reachable.start [unfolded publisher_new_def])
qed (rule app_step_keeps)

end

subsection \<open>The publisher can always catch up\<close>

text \<open>A step of the publisher that is its own.\<close>

definition own_step ::
    "('m \<Rightarrow> transmitter_msg) \<Rightarrow> (transmitter_msg \<Rightarrow> bytes option) \<Rightarrow> ('m, 'e) publisher \<Rightarrow> ('m, 'e) publisher \<Rightarrow> bool" where
  "own_step wrap json p p' \<longleftrightarrow>
     pub_step wrap json p p' \<and> pb_received p' = pb_received p \<and> pb_senders p' = pb_senders p"

definition ready :: "('m, 'e) publisher \<Rightarrow> bool" where
  "ready p \<longleftrightarrow> pb_connection p = Some True \<and> (\<exists>b. pb_phase p = Selecting b)"

lemma publish_one:
  assumes "ready p" "propose_to_progress p = (Ready (Some m), q)" "json (wrap m) = Some j"
  shows "(own_step wrap json)\<^sup>*\<^sup>* p (q\<lparr>pb_phase := Selecting False, pb_accepted := pb_accepted p @ [j]\<rparr>)"
proof -
  obtain b where b: "pb_phase p = Selecting b" using assms(1) by (auto simp: ready_def)
  have q: "pb_connection q = Some True" "pb_received q = pb_received p" "pb_senders q = pb_senders p"
      "pb_accepted q = pb_accepted p"
    using assms(1,2) by (auto simp: ready_def propose_to_progress_def split: option.splits list.splits if_splits)
  have "own_step wrap json p (q\<lparr>pb_phase := Publishing m\<rparr>)"
    using taken [OF b assms(2), of wrap json] q assms(3) by (simp add: own_step_def publish_start_def)
  moreover have "own_step wrap json (q\<lparr>pb_phase := Publishing m\<rparr>)
      (q\<lparr>pb_phase := Selecting False, pb_accepted := pb_accepted p @ [j]\<rparr>)"
    using published [of "q\<lparr>pb_phase := Publishing m\<rparr>" m True wrap json] q assms(3)
    by (simp add: own_step_def publish_end_def)
  ultimately show ?thesis by (rule converse_rtranclp_into_rtranclp [OF _ r_into_rtranclp])
qed

lemma publish_all:
  assumes "ready p" "pub_inv wrap json p" "\<forall>m. json (wrap m) \<noteq> None"
  shows "\<exists>p'. (own_step wrap json)\<^sup>*\<^sup>* p p' \<and> ready p' \<and> pending p' = [] \<and> pb_received p' = pb_received p"
  using assms(1,2)
proof (induction "length (pending p)" arbitrary: p)
  case 0
  then show ?case by (intro exI [of _ p]) simp
next
  case (Suc n)
  obtain m q where m: "propose_to_progress p = (Ready (Some m), q)" "length (pending q) = n" "pb_received q = pb_received p"
      "pb_connection q = pb_connection p" "pb_phase q = pb_phase p"
  proof (cases "pb_buffered p")
    case None
    with Suc.hyps(2) Suc.prems(1) obtain m ms where "pb_queue p = m # ms" "length ms = n"
      by (cases "pb_queue p") (auto simp: pending_def in_flight_def ready_def)
    with None Suc.prems(1) show ?thesis
      by (intro that [of m "p\<lparr>pb_queue := ms\<rparr>"]) (auto simp: pending_def in_flight_def ready_def propose_to_progress_def)
  next
    case (Some m)
    with Suc.hyps(2) Suc.prems(1) show ?thesis
      by (intro that [of m "p\<lparr>pb_buffered := None\<rparr>"]) (auto simp: pending_def in_flight_def ready_def propose_to_progress_def)
  qed
  obtain j where j: "json (wrap m) = Some j" using assms(3) by auto
  let ?q = "q\<lparr>pb_phase := Selecting False, pb_accepted := pb_accepted p @ [j]\<rparr>"
  have run: "(own_step wrap json)\<^sup>*\<^sup>* p ?q" using publish_one [of p m q json wrap j] Suc.prems(1) m(1) j by simp
  have inv: "pub_inv wrap json ?q"
    using run Suc.prems(2)
    by (induction rule: rtranclp_induct) (auto simp: own_step_def intro: pub_step_keeps)
  have "ready ?q" "n = length (pending ?q)" "pb_received ?q = pb_received p"
    using Suc.prems(1) m by (auto simp: ready_def pending_def in_flight_def)
  with Suc.hyps(1) [OF _ _ inv] run show ?case by (metis (no_types, lifting) rtranclp_trans)
qed

text \<open>A publisher that is connecting, waiting, or publishing on a live connection gets ready.\<close>

definition recoverable :: "('m, 'e) publisher \<Rightarrow> bool" where
  "recoverable p \<longleftrightarrow>
     (case pb_phase p of
        Connecting \<Rightarrow> True
      | Selecting notified \<Rightarrow> notified \<or> pb_connection p = Some True
      | Publishing m \<Rightarrow> pb_connection p = Some True
      | Stopped r \<Rightarrow> False)"

lemma recoverable_iff:
  assumes "pub_inv wrap json p"
  shows "recoverable p \<longleftrightarrow> \<not> unnoticed p \<and> (\<forall>r. pb_phase p \<noteq> Stopped r)"
  using assms
  by (cases "pb_phase p"; cases "pb_connection p") (auto simp: recoverable_def unnoticed_def pub_inv_def phase_ok_def)

lemma gets_ready:
  assumes "recoverable p"
  shows "\<exists>p'. (own_step wrap json)\<^sup>*\<^sup>* p p' \<and> ready p' \<and> pb_received p' = pb_received p"
proof -
  have connect: "\<exists>p'. (own_step wrap json)\<^sup>*\<^sup>* q p' \<and> ready p' \<and> pb_received p' = pb_received q"
    if "pb_phase q = Connecting" for q :: "('m, 'e) publisher" and wrap json
    using connected [OF that, of wrap json]
    by (intro exI [of _ "q\<lparr>pb_connection := Some True, pb_phase := Selecting False\<rparr>"])
       (auto simp: own_step_def ready_def)
  show ?thesis
  proof (cases "pb_phase p")
    case Connecting
    then show ?thesis by (rule connect)
  next
    case (Selecting b)
    show ?thesis
    proof (cases b)
      case True
      with Selecting have "own_step wrap json p (p\<lparr>pb_phase := Connecting\<rparr>)"
        using notified [of p wrap json] by (simp add: own_step_def)
      with connect [of "p\<lparr>pb_phase := Connecting\<rparr>" wrap json] show ?thesis
        by (auto intro: converse_rtranclp_into_rtranclp)
    next
      case False
      with Selecting assms show ?thesis by (intro exI [of _ p]) (auto simp: recoverable_def ready_def)
    qed
  next
    case (Publishing m)
    with assms have "own_step wrap json p (publish_end wrap json True m p)" "ready (publish_end wrap json True m p)"
      using published [OF Publishing, of True wrap json]
      by (auto simp: own_step_def recoverable_def ready_def publish_end_def)
    then show ?thesis by (intro exI [of _ "publish_end wrap json True m p"]) (auto simp: own_step_def)
  next
    case (Stopped r)
    with assms show ?thesis by (simp add: recoverable_def)
  qed
qed

lemma own_steps:
  assumes "(own_step wrap json)\<^sup>*\<^sup>* (ea_publisher s) p" "ea_stop s = None"
  shows "(app_step env lenv photon on_event wrap json)\<^sup>*\<^sup>* s (s\<lparr>ea_publisher := p\<rparr>)"
  using assms(1)
proof (induction rule: rtranclp_induct)
  case base
  show ?case by simp
next
  case (step p q)
  have "app_step env lenv photon on_event wrap json (s\<lparr>ea_publisher := p\<rparr>) (s\<lparr>ea_publisher := q\<rparr>)"
    using publisher [of "s\<lparr>ea_publisher := p\<rparr>" wrap json q] step(2) assms(2) by (simp add: own_step_def)
  with step(3) show ?case by (rule rtranclp.rtrancl_into_rtrancl)
qed

text \<open>From a state where all bunches can be handled, everything sent so far can be published.\<close>

lemma bunches_catch_up:
  assumes "ea_stop s = None" "\<forall>b \<in> set (ea_logs s). \<forall>c. \<exists>c'. on_logs lenv photon on_event b c = Inr c'"
  shows "\<exists>s'. (app_step env lenv photon on_event wrap json)\<^sup>*\<^sup>* s s' \<and> ea_logs s' = [] \<and> ea_stop s' = None
    \<and> ea_sent s' = ea_sent s \<and> ea_requests s' = ea_requests s
    \<and> pb_phase (ea_publisher s') = pb_phase (ea_publisher s)
    \<and> pb_connection (ea_publisher s') = pb_connection (ea_publisher s)"
  using assms
proof (induction "ea_logs s" arbitrary: s)
  case Nil
  then show ?case by (intro exI [of _ s]) simp
next
  case (Cons b bs)
  obtain c where c: "on_logs lenv photon on_event b (queue_of (ea_publisher s)) = Inr c"
    using Cons.prems(2) Cons.hyps(2) [symmetric] by fastforce
  let ?s = "s\<lparr>ea_logs := bs, ea_publisher := hand_over c (ea_publisher s)\<rparr>"
  have step: "app_step env lenv photon on_event wrap json s ?s"
    by (rule bunch [where photon = photon, OF Cons.prems(1) Cons.hyps(2) [symmetric] c])
  have "\<forall>b \<in> set (ea_logs ?s). \<forall>c. \<exists>c'. on_logs lenv photon on_event b c = Inr c'"
    using Cons.prems(2) Cons.hyps(2) [symmetric] by auto
  with Cons.hyps(1) [of ?s] Cons.prems(1) obtain s' where
    "(app_step env lenv photon on_event wrap json)\<^sup>*\<^sup>* ?s s'" "ea_logs s' = []" "ea_stop s' = None"
    "ea_sent s' = ea_sent s" "ea_requests s' = ea_requests s"
    "pb_phase (ea_publisher s') = pb_phase (ea_publisher s)" "pb_connection (ea_publisher s') = pb_connection (ea_publisher s)"
    by (auto simp: hand_over_def)
  with step show ?case by (meson converse_rtranclp_into_rtranclp)
qed

text \<open>Everything handed to a recoverable publisher can be published.\<close>

lemma publisher_catches_up:
  assumes "app_inv env lenv photon on_event wrap json r k s" "ea_stop s = None" "recoverable (ea_publisher s)"
    and "\<forall>m. json (wrap m) \<noteq> None"
  shows "\<exists>p. (app_step env lenv photon on_event wrap json)\<^sup>*\<^sup>* s (s\<lparr>ea_publisher := p\<rparr>)
    \<and> pb_received p = pb_received (ea_publisher s) \<and> pb_accepted p = encoded wrap json (pb_received p)"
proof -
  have inv: "pub_inv wrap json (ea_publisher s)" using assms(1) pub_reachable_inv by (auto simp: app_inv_def)
  have keeps: "pub_inv wrap json q" if "(own_step wrap json)\<^sup>*\<^sup>* (ea_publisher s) q" for q
    using that inv by (induction rule: rtranclp_induct) (auto simp: own_step_def intro: pub_step_keeps)
  obtain p1 where p1: "(own_step wrap json)\<^sup>*\<^sup>* (ea_publisher s) p1" "ready p1"
      "pb_received p1 = pb_received (ea_publisher s)"
    using gets_ready [OF assms(3), of wrap json] by blast
  obtain p where p: "(own_step wrap json)\<^sup>*\<^sup>* p1 p" "Rabbitmq.pending p = []" "pb_received p = pb_received p1"
    using publish_all [OF p1(2) keeps [OF p1(1)] assms(4)] by blast
  have run: "(own_step wrap json)\<^sup>*\<^sup>* (ea_publisher s) p" using p1(1) p(1) by simp
  then have "pb_accepted p = encoded wrap json (pb_received p)" using keeps [OF run] p(2) by (simp add: pub_inv_def)
  with own_steps [OF run assms(2), of env lenv photon on_event] p(3) p1(3) show ?thesis by auto
qed

end
