(* ===== verification/Chain_Relay.thy ===== *)
theory Chain_Relay
  imports Event_Apps
begin

section \<open>From the chain to the broker\<close>

text \<open>
  The reader, the log parser, the event processor and the publisher composed, for the listener and for the
  watcher. The log of each delivered transaction is that of invocation trees with harmless messages
  (\<open>logs_of_trees\<close>); what an application has to send for a transaction are the messages for the events that
  the endpoint itself logged in it. The flag \<^verbatim>\<open>need_check\<close>, which is set in the first round only, is not
  compared.
\<close>

definition logs_of_trees :: "retro_env \<Rightarrow> 'e log_env \<Rightarrow> string \<Rightarrow> (bytes \<Rightarrow> log_item list) \<Rightarrow> bool" where
  "logs_of_trees env lenv photon roots \<longleftrightarrow>
     (\<forall>s. has_logs env s \<longrightarrow>
        tx_logs (re_transaction env s) = Some (concat (List.map render (roots s)))
        \<and> (\<forall>r \<in> set (roots s). \<exists>p d items. r = Invocation p d items \<and> tree_ok lenv photon p r))"

definition tx_events :: "'e log_env \<Rightarrow> string \<Rightarrow> log_item list \<Rightarrow> 'e list" where
  "tx_events lenv photon roots = concat (List.map (tree_events lenv photon []) roots)"

definition relayed ::
    "('e \<Rightarrow> string \<Rightarrow> u64 \<Rightarrow> bool \<Rightarrow> 'm list) \<Rightarrow> ('m \<Rightarrow> 'c) \<Rightarrow> retro_env \<Rightarrow> 'e log_env \<Rightarrow> string
     \<Rightarrow> (bytes \<Rightarrow> log_item list) \<Rightarrow> bytes list \<Rightarrow> 'c list" where
  "relayed msgs core env lenv photon roots ss =
     concat (List.map (\<lambda>s. List.map core (concat (List.map
        (\<lambda>e. msgs e (sg_to_string (re_sigs env) s) (rt_slot (re_transaction env s)) True)
        (tx_events lenv photon (roots s))))) (filter (has_logs env) ss))"

lemma relayed_append [simp]:
  "relayed msgs core env lenv photon roots (ss @ ts) =
     relayed msgs core env lenv photon roots ss @ relayed msgs core env lenv photon roots ts"
  "relayed msgs core env lenv photon roots [] = []"
  by (simp_all add: relayed_def)

subsection \<open>Where the reader is\<close>

lemma rounds_position:
  assumes "serves env hist lim" "position r = Some u" "u \<in> set (hist k)"
    and "read_rounds env n k r = Some (Inr (r', bs, k'))"
  shows "k \<le> k' \<and> (\<exists>v. position r' = Some v \<and> v \<in> set (hist k')
    \<and> (\<forall>m \<ge> k'. due env (newer u (hist m)) = List.map payload bs @ due env (newer v (hist m))))"
  using assms(2-4)
proof (induction n arbitrary: r u k bs)
  case 0
  then show ?case by auto
next
  case (Suc n)
  let ?v = "advance env u (newer u (hist k))"
  let ?b = "bunches_of env (rd_tx_read_from r \<noteq> None) (newer u (hist k))"
  obtain r1 k1 where r1: "k < k1" "read_round env k r = Some (Inr (r1, ?b, k1))" "position r1 = Some ?v"
    using round_delivers [OF assms(1) Suc.prems(1,2)] by blast
  from Suc.prems(3) r1(2) obtain bs1 where
    rest: "read_rounds env n k1 r1 = Some (Inr (r', bs1, k'))" "bs = ?b @ bs1"
    by (auto simp: result_simps split: option.splits sum.splits)
  have dist: "distinct (hist i)" for i using assms(1) by (simp add: serves_def)
  have adv: "due env (newer u (hist m)) = due env (newer u (hist k)) @ due env (newer ?v (hist m))"
    and v: "?v \<in> set (hist m)" if km: "k \<le> m" for m
  proof -
    obtain e where e: "hist m = hist k @ e" using serves_chain [OF assms(1) km] .
    show "due env (newer u (hist m)) = due env (newer u (hist k)) @ due env (newer ?v (hist m))" "?v \<in> set (hist m)"
      using due_advance [OF Suc.prems(2), of e] dist [of m] e by simp_all
  qed
  have "?v \<in> set (hist k1)" using v r1(1) by simp
  from Suc.IH [OF r1(3) this rest(1)] obtain w where w: "k1 \<le> k'" "position r' = Some w" "w \<in> set (hist k')"
    "\<And>m. m \<ge> k' \<Longrightarrow> due env (newer ?v (hist m)) = List.map payload bs1 @ due env (newer w (hist m))" by blast
  have "due env (newer u (hist m)) = List.map payload bs @ due env (newer w (hist m))" if "m \<ge> k'" for m
    using adv [of m] w(4) [OF that] w(1) r1(1) that by (simp add: rest(2))
  with w r1(1) show ?case by auto
qed

text \<open>The transactions that a list of delivered bunches came from.\<close>

abbreviation delivered_from :: "retro_env \<Rightarrow> logs_bunch list \<Rightarrow> bytes list \<Rightarrow> bool" where
  "delivered_from env bs ss \<equiv>
     list_all2 (\<lambda>b s. payload b = payload (bunch_of env True s) \<and> has_logs env s) bs ss"

lemma due_pairs:
  assumes "List.map payload bs = due env ss"
  shows "delivered_from env bs (filter (has_logs env) ss)"
proof -
  have "list_all2 (\<lambda>b s. payload b = payload (bunch_of env True s)) bs (filter (has_logs env) ss)"
    using assms by (simp add: due_def list_eq_iff_nth_eq list_all2_conv_all_nth)
  then show ?thesis by (auto simp: list_all2_conv_all_nth dest!: nth_mem)
qed

lemma list_all2_member: "list_all2 P xs ys \<Longrightarrow> x \<in> set xs \<Longrightarrow> \<exists>y. P x y"
  by (auto simp: list_all2_conv_all_nth in_set_conv_nth)

lemma filter_prefix:
  assumes "filter P xs = ys @ zs"
  obtains ws where "prefix ws xs" "filter P ws = ys"
  using assms
proof (induction xs arbitrary: ys thesis)
  case Nil
  then show ?case by simp
next
  case (Cons x xs)
  show ?case
  proof (cases "P x \<and> ys \<noteq> []")
    case True
    with Cons.prems(2) obtain ys' where ys: "ys = x # ys'" "filter P xs = ys' @ zs" by (cases ys) auto
    from Cons.IH [OF _ ys(2)] obtain ws where "prefix ws xs" "filter P ws = ys'" by blast
    with True ys(1) show ?thesis by (intro Cons.prems(1) [of "x # ws"]) auto
  next
    case False
    show ?thesis
    proof (cases "P x")
      case True
      with False show ?thesis by (intro Cons.prems(1) [of "[]"]) auto
    next
      case Px: False
      with Cons.prems(2) have "filter P xs = ys @ zs" by simp
      from Cons.IH [OF _ this] obtain ws where "prefix ws xs" "filter P ws = ys" by blast
      with Px show ?thesis by (intro Cons.prems(1) [of "x # ws"]) auto
    qed
  qed
qed

text \<open>What a prefix of the delivered bunches stands for.\<close>

lemma delivered_prefix:
  assumes "List.map payload bs @ ps = due env ss"
  obtains ts where "prefix ts ss" "delivered_from env bs (filter (has_logs env) ts)"
proof -
  let ?f = "filter (has_logs env) ss"
  have split: "filter (has_logs env) ss = take (length bs) ?f @ drop (length bs) ?f" by simp
  have take: "List.map payload bs = take (length bs) (due env ss)"
    using assms by (metis append_eq_conv_conj length_map)
  obtain ts where ts: "prefix ts ss" "filter (has_logs env) ts = take (length bs) ?f"
    using filter_prefix [OF split] by blast
  with take have "List.map payload bs = due env ts" by (simp add: due_def take_map)
  from that [OF ts(1) due_pairs [OF this]] show thesis .
qed

subsection \<open>What an application relays\<close>

lemma relayed_filter [simp]:
  "relayed msgs core env lenv photon roots (filter (has_logs env) ss) = relayed msgs core env lenv photon roots ss"
  by (simp add: relayed_def)

text \<open>The handler accepts every event that the endpoint logged.\<close>

definition serves_events ::
    "('e \<Rightarrow> bool) \<Rightarrow> retro_env \<Rightarrow> 'e log_env \<Rightarrow> string \<Rightarrow> (bytes \<Rightarrow> log_item list) \<Rightarrow> bool" where
  "serves_events accepts env lenv photon roots \<longleftrightarrow>
     name_ok photon \<and> logs_of_trees env lenv photon roots
     \<and> (\<forall>s. has_logs env s \<longrightarrow> list_all accepts (tx_events lenv photon (roots s)))"

text \<open>The part \<open>core\<close> of a message does not depend on \<^verbatim>\<open>need_check\<close>.\<close>

locale chain_relay = total_processor on_event accepts msgs
  for on_event :: "('e, 'm) handler" and accepts msgs +
  fixes core :: "'m \<Rightarrow> 'c"
  assumes core_flag: "List.map core (msgs e sig slot need_check) = List.map core (msgs e sig slot True)"
begin

lemma bunch_relayed:
  assumes "serves_events accepts env lenv photon roots" "payload b = payload (bunch_of env True s)" "has_logs env s"
  shows "\<exists>ms. (\<forall>c. on_logs lenv photon on_event b c = Inr (appended ms c))
    \<and> List.map core ms = relayed msgs core env lenv photon roots [s]"
proof -
  let ?es = "tx_events lenv photon (roots s)"
  have logs: "tx_logs (re_transaction env s) = Some (concat (List.map render (roots s)))"
    and trees: "\<forall>r \<in> set (roots s). \<exists>p d items. r = Invocation p d items \<and> tree_ok lenv photon p r"
    and ok: "name_ok photon" "list_all accepts ?es"
    using assms(1,3) by (auto simp: serves_events_def logs_of_trees_def)
  have b: "lb_logs b = concat (List.map render (roots s))" "lb_tx_signature b = sg_to_string (re_sigs env) s"
    "lb_slot b = rt_slot (re_transaction env s)"
    using assms(2) logs by (simp_all add: payload_def bunch_of_def)
  have "parse_logs lenv (lb_logs b) photon = Inr ?es"
    using parse_logs_roots [OF ok(1) trees] b(1) by (simp add: tx_events_def)
  then have "\<forall>c. on_logs lenv photon on_event b c = Inr (appended (bunch_msgs b ?es) c)"
    using ok(2) by (simp add: on_logs_sends)
  moreover have "List.map core (bunch_msgs b es) =
      List.map core (concat (List.map (\<lambda>e. msgs e (lb_tx_signature b) (lb_slot b) True) es))" for es
    unfolding bunch_msgs_def by (induction es) (simp_all add: core_flag [of _ _ _ "lb_need_check b"])
  ultimately show ?thesis using assms(3) b
    by (intro exI [of _ "bunch_msgs b ?es"]) (simp add: relayed_def del: concat_map_singleton)
qed

lemma bunches_relayed:
  assumes "serves_events accepts env lenv photon roots" "delivered_from env bs ss"
  shows "\<exists>ms. (\<forall>c. execute_bunches lenv photon on_event bs c = Inr (appended ms c))
    \<and> List.map core ms = relayed msgs core env lenv photon roots ss"
  using assms(2)
proof (induction rule: list_all2_induct)
  case Nil
  show ?case by (intro exI [of _ "[]"]) simp
next
  case (Cons b bs s ss)
  obtain ms where "\<forall>c. on_logs lenv photon on_event b c = Inr (appended ms c)"
    "List.map core ms = relayed msgs core env lenv photon roots [s]"
    using bunch_relayed [OF assms(1)] Cons.hyps by blast
  moreover obtain ns where "\<forall>c. execute_bunches lenv photon on_event bs c = Inr (appended ns c)"
    "List.map core ns = relayed msgs core env lenv photon roots ss"
    using Cons.IH by blast
  ultimately show ?case
    using relayed_append(1) [of msgs core env lenv photon roots "[s]" ss] by (intro exI [of _ "ms @ ns"]) simp
qed

text \<open>What the reader has sent so far, by the chain it has seen.\<close>

lemma sent_from_chain:
  assumes "serves env hist lim" "position r = Some u" "u \<in> set (hist k)"
    and "app_reachable env lenv photon on_event wrap json r k s"
  obtains v where "position (ea_reader s) = Some v" "v \<in> set (hist (ea_requests s))"
    "List.map payload (ea_sent s) @ due env (newer v (hist (ea_requests s))) = due env (newer u (hist (ea_requests s)))"
proof -
  obtain n where "read_rounds env n k r = Some (Inr (ea_reader s, ea_sent s, ea_requests s))"
    using app_reachable_inv [OF assms(4)] by (auto simp: app_inv_def rounds_done_def)
  from rounds_position [OF assms(1-3) this] that show thesis by auto
qed

lemma app_relays:
  assumes "serves env hist lim" "position r = Some u" "u \<in> set (hist k)" "serves_events accepts env lenv photon roots"
    and "app_reachable env lenv photon on_event wrap json r k s"
  shows "\<exists>ss. prefix ss (newer u (hist (ea_requests s)))
    \<and> List.map core (pb_received (ea_publisher s)) = relayed msgs core env lenv photon roots ss"
proof -
  let ?h = "hist (ea_requests s)"
  obtain v where v: "List.map payload (ea_sent s) @ due env (newer v ?h) = due env (newer u ?h)"
    using sent_from_chain [OF assms(1-3,5)] .
  from app_reachable_inv [OF assms(5)] obtain taken others where taken: "ea_sent s = taken @ others"
    "execute_bunches lenv photon on_event taken \<lparr>ch_open = True, ch_queue = []\<rparr> =
       Inr \<lparr>ch_open = True, ch_queue = pb_received (ea_publisher s)\<rparr>"
    unfolding app_inv_def bunches_done_def by blast
  with v have "List.map payload taken @ List.map payload others @ due env (newer v ?h) = due env (newer u ?h)" by simp
  from delivered_prefix [OF this] obtain ts where
    ts: "prefix ts (newer u ?h)" "delivered_from env taken (filter (has_logs env) ts)" .
  obtain ms where "\<forall>c. execute_bunches lenv photon on_event taken c = Inr (appended ms c)"
    "List.map core ms = relayed msgs core env lenv photon roots ts"
    using bunches_relayed [OF assms(4) ts(2)] by auto
  moreover from this(1) taken(2) have "pb_received (ea_publisher s) = ms" by (simp add: appended_def)
  ultimately show ?thesis using ts(1) by blast
qed

text \<open>No bunch and no round of the reader makes the application panic.\<close>

lemma next_bunch_ok:
  assumes "serves env hist lim" "position r = Some u" "u \<in> set (hist k)" "serves_events accepts env lenv photon roots"
    and "app_reachable env lenv photon on_event wrap json r k s" "b \<in> set (ea_sent s)"
  shows "\<forall>c. \<exists>c'. on_logs lenv photon on_event b c = Inr c'"
proof -
  let ?h = "hist (ea_requests s)"
  obtain v where "List.map payload (ea_sent s) @ due env (newer v ?h) = due env (newer u ?h)"
    using sent_from_chain [OF assms(1-3,5)] .
  from delivered_prefix [OF this] obtain ts where "delivered_from env (ea_sent s) (filter (has_logs env) ts)" .
  from list_all2_member [OF this assms(6)] obtain x where
    "payload b = payload (bunch_of env True x)" "has_logs env x" by blast
  from bunch_relayed [OF assms(4) this] show ?thesis by blast
qed

lemma logs_were_sent:
  assumes "app_reachable env lenv photon on_event wrap json r k s"
  shows "set (ea_logs s) \<subseteq> set (ea_sent s)"
  using app_reachable_inv [OF assms] by (auto simp: app_inv_def bunches_done_def)

lemma app_never_panics:
  assumes "serves env hist lim" "position r = Some u" "u \<in> set (hist k)" "serves_events accepts env lenv photon roots"
    and "app_reachable env lenv photon on_event wrap json r k s"
  shows "ea_stop s \<noteq> Some (AppPanic p)"
  using assms(5)
proof cases
  case start
  then show ?thesis by (simp add: event_app_new_def)
next
  case (step s0)
  note reach = assms(1-4) step(1)
  from step(2) show ?thesis
  proof (cases rule: app_step.cases)
    case (round_panic q)
    obtain v where "position (ea_reader s0) = Some v" "v \<in> set (hist (ea_requests s0))"
      using sent_from_chain [OF assms(1-3) step(1)] .
    from round_delivers [OF assms(1) this] round_panic show ?thesis by auto
  next
    case (bunch_panic b bs q)
    then have "b \<in> set (ea_sent s0)" using logs_were_sent [OF step(1)] by auto
    from next_bunch_ok [OF reach this] obtain c' where
      "on_logs lenv photon on_event b (queue_of (ea_publisher s0)) = Inr c'" by blast
    with bunch_panic(4) show ?thesis by simp
  qed auto
qed

lemma app_catches_up:
  assumes "serves env hist lim" "position r = Some u" "u \<in> set (hist k)" "serves_events accepts env lenv photon roots"
    and "app_reachable env lenv photon on_event wrap json r k s"
    and "ea_stop s = None" "recoverable (ea_publisher s)" "\<forall>m. json (wrap m) \<noteq> None"
  shows "\<exists>s'. (app_step env lenv photon on_event wrap json)\<^sup>*\<^sup>* s s'
    \<and> List.map core (pb_received (ea_publisher s')) =
        relayed msgs core env lenv photon roots (newer u (hist (ea_requests s)))
    \<and> pb_accepted (ea_publisher s') = encoded wrap json (pb_received (ea_publisher s'))"
proof -
  let ?h = "hist (ea_requests s)" and ?run = "(app_step env lenv photon on_event wrap json)\<^sup>*\<^sup>*"
  obtain v where v: "position (ea_reader s) = Some v" "v \<in> set ?h"
    "List.map payload (ea_sent s) @ due env (newer v ?h) = due env (newer u ?h)"
    using sent_from_chain [OF assms(1-3,5)] .
  obtain r1 nc k1 where rd: "read_round env (ea_requests s) (ea_reader s) =
      Some (Inr (r1, bunches_of env nc (newer v ?h), k1))"
    using round_delivers [OF assms(1) v(1,2)] by blast
  let ?bs = "bunches_of env nc (newer v ?h)"
  define s1 where "s1 = s\<lparr>ea_reader := r1, ea_requests := k1, ea_logs := ea_logs s @ ?bs, ea_sent := ea_sent s @ ?bs\<rparr>"
  have s1: "?run s s1" "ea_sent s1 = ea_sent s @ ?bs" "ea_stop s1 = None" "ea_publisher s1 = ea_publisher s"
    using round [OF assms(6) rd, of lenv photon on_event wrap json] assms(6) unfolding s1_def by auto
  have reach: "app_reachable env lenv photon on_event wrap json r k t" if "?run s t" for t
    using that assms(5) by (induction rule: rtranclp_induct) (auto intro: app_reachable.step)
  have "\<exists>c'. on_logs lenv photon on_event b c = Inr c'" if b: "b \<in> set (ea_logs s1)" for b c
  proof -
    have "b \<in> set (ea_sent s1)" using b logs_were_sent [OF reach [OF s1(1)]] by blast
    from next_bunch_ok [OF assms(1-4) reach [OF s1(1)] this] show ?thesis by blast
  qed
  then obtain s2 where s2: "?run s1 s2" "ea_logs s2 = []" "ea_stop s2 = None" "ea_sent s2 = ea_sent s1"
      "pb_phase (ea_publisher s2) = pb_phase (ea_publisher s)"
      "pb_connection (ea_publisher s2) = pb_connection (ea_publisher s)"
    using bunches_catch_up [OF s1(3), of lenv photon on_event env wrap json] s1(4) by auto
  have run2: "?run s s2" using s1(1) s2(1) by simp
  have inv2: "app_inv env lenv photon on_event wrap json r k s2" by (rule app_reachable_inv [OF reach [OF run2]])
  have "recoverable (ea_publisher s2)" using assms(7) unfolding recoverable_def s2(5,6) .
  from publisher_catches_up [OF inv2 s2(3) this assms(8)] obtain p where
    p: "?run s2 (s2\<lparr>ea_publisher := p\<rparr>)" "pb_received p = pb_received (ea_publisher s2)"
      "pb_accepted p = encoded wrap json (pb_received p)" by blast
  have "List.map payload (ea_sent s2) = due env (newer u ?h)" using v(3) s1(2) s2(4) by simp
  from bunches_relayed [OF assms(4) due_pairs [OF this]] obtain ms where
    ms: "\<forall>c. execute_bunches lenv photon on_event (ea_sent s2) c = Inr (appended ms c)"
      "List.map core ms = relayed msgs core env lenv photon roots (newer u ?h)" by auto
  have "execute_bunches lenv photon on_event (ea_sent s2) \<lparr>ch_open = True, ch_queue = []\<rparr> =
      Inr \<lparr>ch_open = True, ch_queue = pb_received (ea_publisher s2)\<rparr>"
    using inv2 s2(2,3) by (auto simp: app_inv_def bunches_done_def)
  with ms(1) have "pb_received (ea_publisher s2) = ms" by (simp add: appended_def)
  with p ms(2) run2 show ?thesis
    by (intro exI [of _ "s2\<lparr>ea_publisher := p\<rparr>"]) (auto intro: rtranclp_trans)
qed

end

subsection \<open>The two applications\<close>

definition tx_proposals :: "propose_event log_env \<Rightarrow> string \<Rightarrow> bytes list \<Rightarrow> log_item list \<Rightarrow> propose_event list" where
  "tx_proposals lenv photon ps roots =
     filter (\<lambda>e. pe_protocol_id e \<in> allowed_protocol ` set ps) (tx_events lenv photon roots)"

text \<open>The messages for the proposals for allowed protocols, and the executions, of a stretch of the chain.\<close>

definition expected_proposals ::
    "network \<Rightarrow> retro_env \<Rightarrow> propose_event log_env \<Rightarrow> string \<Rightarrow> bytes list \<Rightarrow> (bytes \<Rightarrow> log_item list) \<Rightarrow> bytes list
     \<Rightarrow> t_propose list" where
  "expected_proposals net env lenv photon ps roots ss =
     concat (List.map (\<lambda>s. List.map
        (\<lambda>e. propose_of net (re_sigs env) e s (rt_slot (re_transaction env s)) True)
        (tx_proposals lenv photon ps (roots s))) (filter (has_logs env) ss))"

definition expected_executions ::
    "retro_env \<Rightarrow> executed_event log_env \<Rightarrow> string \<Rightarrow> (bytes \<Rightarrow> log_item list) \<Rightarrow> bytes list
     \<Rightarrow> (bytes \<times> bytes \<times> string) list" where
  "expected_executions env lenv photon roots ss =
     concat (List.map (\<lambda>s. List.map
        (\<lambda>e. (xv_op_hash e, xv_executor e, sg_to_string (re_sigs env) s))
        (tx_events lenv photon (roots s))) (filter (has_logs env) ss))"

definition checked :: "t_propose \<Rightarrow> t_propose" where
  "checked m = m\<lparr>tp_need_check := True\<rparr>"

definition executed_core :: "t_proposal_executed \<Rightarrow> bytes \<times> bytes \<times> string" where
  "executed_core m = (tx_op_hash m, tx_executor m, tx_last_watched_block m)"

interpretation listener: chain_relay "on_propose_event net sg self" "\<lambda>_. True" "propose_msgs net sg self"
    checked
  for net sg self
  by unfold_locales (auto simp: propose_msgs_def propose_of_def checked_def split: option.split)

interpretation watcher: chain_relay on_executed_event "\<lambda>e. length (xv_op_hash e) = 32" executed_msgs executed_core
  by unfold_locales (simp add: executed_msgs_def executed_core_def)

lemma relayed_proposals:
  assumes "serves env hist lim"
  shows "relayed (propose_msgs net (re_sigs env) (proposal_event_processor_new ps)) checked env lenv photon roots ss =
    expected_proposals net env lenv photon ps roots ss"
proof -
  have sig: "sg_from_str (re_sigs env) (sg_to_string (re_sigs env) s) = Some s" for s
    using assms by (simp add: serves_def)
  have "List.map checked (concat (List.map (\<lambda>e. propose_msgs net (re_sigs env)
        (proposal_event_processor_new ps) e (sg_to_string (re_sigs env) s) slot True) es)) =
      List.map (\<lambda>e. propose_of net (re_sigs env) e s slot True)
        (filter (\<lambda>e. pe_protocol_id e \<in> allowed_protocol ` set ps) es)" for s slot es
    by (induction es) (simp_all add: propose_msgs_new sig checked_def propose_of_def)
  then show ?thesis by (simp add: relayed_def expected_proposals_def tx_proposals_def)
qed

lemma relayed_executions:
  "relayed executed_msgs executed_core env lenv photon roots ss = expected_executions env lenv photon roots ss"
proof -
  have "List.map executed_core (concat (List.map (\<lambda>e. executed_msgs e sg slot True) es)) =
      List.map (\<lambda>e. (xv_op_hash e, xv_executor e, sg)) es" for sg slot es
    by (induction es) (simp_all add: executed_msgs_def executed_core_def)
  then show ?thesis by (simp add: relayed_def expected_executions_def)
qed

text \<open>The start of an application, as a position of its reader.\<close>

lemma started_at:
  assumes "event_app_start sg pool configured mongo last_block k = Inr (event_app_new r k)"
    and "rd_tx_read_from r = Some u"
  shows "position r = Some u"
  using assms(2) by (simp add: position_def next_window_def)

text \<open>The states an application can be in.\<close>

definition listener_reachable ::
    "network \<Rightarrow> bytes list \<Rightarrow> retro_env \<Rightarrow> propose_event log_env \<Rightarrow> string \<Rightarrow> (transmitter_msg \<Rightarrow> bytes option)
     \<Rightarrow> reader \<Rightarrow> nat \<Rightarrow> (t_propose, 'e) event_app \<Rightarrow> bool" where
  "listener_reachable net ps env lenv photon json r k =
     (listener_app_step net ps env lenv photon json)\<^sup>*\<^sup>* (event_app_new r k)"

definition watcher_reachable ::
    "retro_env \<Rightarrow> executed_event log_env \<Rightarrow> string \<Rightarrow> (transmitter_msg \<Rightarrow> bytes option)
     \<Rightarrow> reader \<Rightarrow> nat \<Rightarrow> (t_proposal_executed, 'e) event_app \<Rightarrow> bool" where
  "watcher_reachable env lenv photon json r k =
     (watcher_app_step env lenv photon json)\<^sup>*\<^sup>* (event_app_new r k)"

lemma app_steps_reachable:
  "(app_step env lenv photon on_event wrap json)\<^sup>*\<^sup>* (event_app_new r k) s \<Longrightarrow>
   app_reachable env lenv photon on_event wrap json r k s"
  by (induction rule: rtranclp_induct) (auto intro: app_reachable.intros)

lemma listener_serves:
  assumes "name_ok photon" "logs_of_trees env lenv photon roots"
  shows "serves_events (\<lambda>_. True) env lenv photon roots"
  using assms by (simp add: serves_events_def list_all_iff)

text \<open>What the publisher received is what the broker accepted and what it still holds.\<close>

lemma app_publisher_exact:
  assumes "app_inv env lenv photon on_event wrap json r k s"
  shows "pb_accepted (ea_publisher s) @ encoded wrap json (Rabbitmq.pending (ea_publisher s)) =
    encoded wrap json (pb_received (ea_publisher s))"
  using assms pub_reachable_inv by (force simp: app_inv_def pub_inv_def)

end
