(* ===== verification/Wall_Clock.thy ===== *)
theory Wall_Clock
  imports Transmitter_Data
begin

section \<open>The wall clock\<close>

text \<open>
  \<^verbatim>\<open>transmitter-common/src/utils.rs\<close>. The system time is an argument, in nanoseconds relative to the Unix
  epoch; the standard library keeps the seconds in 64 bits with a sign.
\<close>

definition get_time_ms :: "int \<Rightarrow> panic + u64" where
  "get_time_ms t =
     (if t < 0 then Inl ExpectFailed
      else
        let as_secs = word_of_int (t div 10 ^ 9) :: u64; subsec_millis = word_of_int ((t mod 10 ^ 9) div 10 ^ 6) :: u64
        in bindE (ok_or (checked_mul as_secs 1000) ArithmeticOverflow) (\<lambda>ms.
           ok_or (checked_add ms subsec_millis) ArithmeticOverflow))"

lemma checked_ms:
  assumes "0 \<le> s" "s < 2 ^ 64" "0 \<le> m" "m < 1000"
  shows "bindE (ok_or (checked_mul (word_of_int s :: u64) 1000) ArithmeticOverflow) (\<lambda>ms.
           ok_or (checked_add ms (word_of_int m)) ArithmeticOverflow) =
    (if s * 1000 + m < 2 ^ 64 then Inr (word_of_int (s * 1000 + m)) else Inl ArithmeticOverflow)"
proof -
  have us: "unat (word_of_int s :: u64) = nat s" "unat (word_of_int m :: u64) = nat m"
    using assms by (simp_all add: unsigned_of_int take_bit_int_eq_self)
  have mul: "nat s * 1000 < 2 ^ 64 \<longleftrightarrow> s * 1000 < 2 ^ 64"
    using assms(1) by (simp add: nat_less_iff flip: of_nat_less_iff [where 'a = int])
  have sum: "nat s * 1000 + nat m < 2 ^ 64 \<longleftrightarrow> s * 1000 + m < 2 ^ 64"
    using assms(1,3) by (simp add: nat_less_iff flip: of_nat_less_iff [where 'a = int])
  show ?thesis
  proof (cases "s * 1000 < 2 ^ 64")
    case False
    then have "\<not> s * 1000 + m < 2 ^ 64" using assms(3) by simp
    with False show ?thesis by (simp add: checked_mul_def us mul del: power_numeral)
  next
    case True
    then have "unat (word_of_int s * 1000 :: u64) = nat s * 1000"
      using mul us(1) by (simp add: unat_word_ariths del: power_numeral)
    moreover have "(word_of_int s * 1000 + word_of_int m :: u64) = word_of_int (s * 1000 + m)" by simp
    ultimately show ?thesis
      using True by (simp add: checked_mul_def checked_add_def us mul sum del: power_numeral)
  qed
qed

text \<open>The milliseconds since the epoch, rounded down; a clock set before the epoch is a panic, and so is a time more
  than half a billion years after it.\<close>

theorem get_time_ms_value:
  assumes "0 \<le> t" "t < 2 ^ 63 * 10 ^ 9"
  shows "get_time_ms t =
    (if t div 10 ^ 6 < 2 ^ 64 then Inr (word_of_int (t div 10 ^ 6)) else Inl ArithmeticOverflow)"
proof -
  let ?s = "t div 10 ^ 9" and ?m = "(t mod 10 ^ 9) div 10 ^ 6"
  have split: "t div 10 ^ 6 = ?s * 1000 + ?m"
  proof -
    have "t = t mod 10 ^ 9 + (?s * 1000) * 10 ^ 6" by simp
    then have "t div 10 ^ 6 = (t mod 10 ^ 9 + (?s * 1000) * 10 ^ 6) div 10 ^ 6" by (rule arg_cong)
    also have "\<dots> = ?s * 1000 + ?m" by (rule div_mult_self1) simp
    finally show ?thesis .
  qed
  have "0 \<le> ?s" "?s < 2 ^ 64" "0 \<le> ?m" "?m < 1000" using assms by auto
  from checked_ms [OF this] assms(1) show ?thesis unfolding split get_time_ms_def Let_def by simp
qed

lemma get_time_ms_cases [simp]:
  "t < 0 \<Longrightarrow> get_time_ms t = Inl ExpectFailed"
  "0 \<le> t \<Longrightarrow> t < 2 ^ 63 * 10 ^ 6 \<Longrightarrow> get_time_ms t = Inr (word_of_int (t div 10 ^ 6))"
proof -
  assume t: "0 \<le> t" "t < 2 ^ 63 * 10 ^ 6"
  then have "t < 2 ^ 63 * 10 ^ 9" "t div 10 ^ 6 < 2 ^ 64" by auto
  with t(1) show "get_time_ms t = Inr (word_of_int (t div 10 ^ 6))" by (simp only: get_time_ms_value if_True)
qed (simp add: get_time_ms_def)

end
