(* ===== verification/Test_Listener.thy ===== *)
theory Test_Listener
  imports Retro_Reader Wall_Clock
begin

section \<open>The test listener\<close>

text \<open>
  \<^verbatim>\<open>transmitter-test-listener/src/main.rs\<close> and \<^verbatim>\<open>rabbitmq.rs\<close>: the consumer that stands for the other end of
  the listener's queue. For each proposal it stores the transaction it came from in the database, from
  which the listener reads where to start again. Every failure on the way is an \<^verbatim>\<open>expect\<close>. The document is
  a map from its fields; \<open>parse\<close> is \<^verbatim>\<open>serde_json::from_slice\<close> at the type \<^verbatim>\<open>Option<TransmitterMsgImpl>\<close>, whose inner
  \<open>None\<close> is the JSON value \<^verbatim>\<open>null\<close>.
\<close>

subsection \<open>Starting\<close>

text \<open>The answers of the broker and of the database client, in the order of the calls.\<close>

record listen_answers =
  la_connect :: bool
  la_open_channel :: bool
  la_exchange_declare :: bool
  la_open_queue_channel :: bool
  la_queue_declare :: "string option option"
  la_queue_bind :: bool
  la_confirm_select :: bool
  la_mongo_options :: bool
  la_mongo_client :: bool
  la_basic_consume :: bool

definition expect :: "bool \<Rightarrow> panic + unit" where
  "expect ok = require ok ExpectFailed"

definition test_consumer_new :: "listen_answers \<Rightarrow> panic + unit" where
  "test_consumer_new a = bindE (expect (la_mongo_options a)) (\<lambda>_. expect (la_mongo_client a))"

definition listen_for_propose :: "listen_answers \<Rightarrow> panic + string" where
  "listen_for_propose a =
     bindE (expect (la_open_queue_channel a)) (\<lambda>_.
     bindE (ok_or (la_queue_declare a) ExpectFailed) (\<lambda>declared.
     bindE (ok_or declared ExpectFailed) (\<lambda>queue_name.
     bindE (expect (la_queue_bind a)) (\<lambda>_.
     bindE (expect (la_confirm_select a)) (\<lambda>_.
     bindE (test_consumer_new a) (\<lambda>_.
     bindE (expect (la_basic_consume a)) (\<lambda>_.
     Inr queue_name)))))))"

definition test_consumer_execute :: "listen_answers \<Rightarrow> panic + string" where
  "test_consumer_execute a =
     bindE (expect (la_connect a)) (\<lambda>_.
     bindE (expect (la_open_channel a)) (\<lambda>_.
     bindE (expect (la_exchange_declare a)) (\<lambda>_.
     listen_for_propose a)))"

subsection \<open>One delivery\<close>

text \<open>What a delivery meets: its data, the clock (see \<open>Wall_Clock\<close>) and the outcomes of the update and the
  acknowledgement.\<close>

record test_delivery =
  te_tag :: u64
  te_data :: bytes
  te_now :: int
  te_update_ok :: bool
  te_ack_ok :: bool

record test_store =
  st_doc :: "(string \<Rightarrow> bson option) option"
  st_acked :: "u64 list"

text \<open>\<^verbatim>\<open>update_one\<close> with \<^verbatim>\<open>$set\<close> and \<^verbatim>\<open>upsert\<close>: the two fields of the document, which is made if there is none.\<close>

definition set_fields :: "string \<Rightarrow> string \<Rightarrow> (string \<Rightarrow> bson option) option \<Rightarrow> (string \<Rightarrow> bson option) option" where
  "set_fields mkey block_id doc =
     Some ((case doc of None \<Rightarrow> Map.empty | Some d \<Rightarrow> d)(mkey \<mapsto> BsonString block_id, ''updated_at'' \<mapsto> BsonOther))"

definition consume ::
    "(bytes \<Rightarrow> transmitter_msg_impl option option) \<Rightarrow> string \<Rightarrow> test_delivery \<Rightarrow> test_store \<Rightarrow> panic + test_store" where
  "consume parse mkey d s =
     bindE (ok_or (parse (te_data d)) ExpectFailed) (\<lambda>m.
     (case m of
        Some (MsgPropose p) \<Rightarrow>
          bindE (get_time_ms (te_now d)) (\<lambda>_.
          bindE (expect (te_update_ok d)) (\<lambda>_.
          Inr (s\<lparr>st_doc := set_fields mkey (tp_latest_block_id p) (st_doc s),
                 st_acked := (if te_ack_ok d then st_acked s @ [te_tag d] else st_acked s)\<rparr>)))
      | _ \<Rightarrow> Inr s))"

fun consume_all ::
    "(bytes \<Rightarrow> transmitter_msg_impl option option) \<Rightarrow> string \<Rightarrow> test_delivery list \<Rightarrow> test_store \<Rightarrow> panic + test_store" where
  "consume_all parse mkey [] s = Inr s"
| "consume_all parse mkey (d # ds) s = bindE (consume parse mkey d s) (consume_all parse mkey ds)"

subsection \<open>What is stored\<close>

text \<open>
  Reading back what \<^verbatim>\<open>serde_json\<close> wrote gives the same proposal; its flag \<^verbatim>\<open>need_check\<close>, which is not part of
  the data, comes back as its default.
\<close>

definition parses_proposals ::
    "(transmitter_msg \<Rightarrow> bytes option) \<Rightarrow> (t_propose \<Rightarrow> transmitter_msg) \<Rightarrow> (bytes \<Rightarrow> transmitter_msg_impl option option) \<Rightarrow> bool" where
  "parses_proposals json wrap parse \<longleftrightarrow>
     (\<forall>p j. json (wrap p) = Some j \<longrightarrow> parse j = Some (Some (MsgPropose (p\<lparr>tp_need_check := False\<rparr>))))"

lemma consume_proposal:
  assumes "parses_proposals json wrap parse" "json (wrap p) = Some (te_data d)" "consume parse mkey d s = Inr s'"
  shows "st_doc s' = set_fields mkey (tp_latest_block_id p) (st_doc s)"
  using assms by (auto simp: parses_proposals_def consume_def expect_def result_simps split: if_splits)

lemma consume_last:
  assumes "parses_proposals json wrap parse" "consume_all parse mkey ds s = Inr s'"
    and "list_all2 (\<lambda>d p. json (wrap p) = Some (te_data d)) ds ps" "ps \<noteq> []" "mkey \<noteq> ''updated_at''"
  shows "\<exists>doc. st_doc s' = Some doc \<and> doc mkey = Some (BsonString (tp_latest_block_id (List.last ps)))"
  using assms(2-4)
proof (induction ds arbitrary: s ps)
  case (Cons d ds)
  from Cons.prems(2) obtain p qs where ps: "ps = p # qs" "json (wrap p) = Some (te_data d)"
    "list_all2 (\<lambda>d p. json (wrap p) = Some (te_data d)) ds qs" by (auto simp: list_all2_Cons1)
  from Cons.prems(1) obtain s1 where s1: "consume parse mkey d s = Inr s1" "consume_all parse mkey ds s1 = Inr s'"
    by (auto simp: result_simps)
  show ?case
  proof (cases "qs = []")
    case True
    then have "s1 = s'" using ps(3) s1(2) by simp
    then show ?thesis
      using consume_proposal [OF assms(1) ps(2) s1(1)] True ps(1) assms(5) by (simp add: set_fields_def)
  next
    case False
    with Cons.IH [OF s1(2) ps(3)] ps(1) show ?thesis by simp
  qed
qed simp

text \<open>Data that is not JSON of the expected type, a clock before 1970 and a failed write make the consumer panic;
  JSON of another message is neither stored nor acknowledged.\<close>

lemma consume_cases:
  "parse (te_data d) = None \<Longrightarrow> consume parse mkey d s = Inl ExpectFailed"
  "parse (te_data d) = Some (Some (MsgPropose p)) \<Longrightarrow> \<not> te_update_ok d \<Longrightarrow> 0 \<le> te_now d \<Longrightarrow>
     te_now d < 2 ^ 63 * 10 ^ 6 \<Longrightarrow> consume parse mkey d s = Inl ExpectFailed"
  "parse (te_data d) = Some (Some (MsgPropose p)) \<Longrightarrow> te_now d < 0 \<Longrightarrow> consume parse mkey d s = Inl ExpectFailed"
  "parse (te_data d) = Some None \<Longrightarrow> consume parse mkey d s = Inr s"
  "parse (te_data d) = Some (Some (MsgProposalExecuted x)) \<Longrightarrow> consume parse mkey d s = Inr s"
  "parse (te_data d) = Some (Some (MsgSignedOperation o')) \<Longrightarrow> consume parse mkey d s = Inr s"
  by (simp_all add: consume_def expect_def require_def)

end
