(* ===== verification/Consumer.thy ===== *)
theory Consumer
  imports Rabbitmq
begin

section \<open>Consuming signed operations\<close>

text \<open>
  \<^verbatim>\<open>transmitter-module/src/executor_app/rabbitmq_consumer.rs\<close>: the executor declares its exchange and queue
  and polls the queue; a delivery is acknowledged first, then decoded and handed to the operation
  manager. The broker's answers and the JSON parser are parameters. The inner polling loop runs as long
  as the queue delivers, so it is a partial function.
\<close>

subsection \<open>Declaring the queue\<close>

datatype 'e consumer_fault = ConsumerErr 'e | ConsumerPanic panic

record ('e, 'n) structure_answers =
  sa_exchange_declare :: "'e + unit"
  sa_queue_declare :: "'e + 'n option"
  sa_queue_bind :: "'n \<Rightarrow> 'e + unit"
  sa_confirm_select :: "'e + unit"

definition init_rabbitmq_structure :: "'h option \<Rightarrow> ('e, 'n) structure_answers \<Rightarrow> 'e consumer_fault + 'n" where
  "init_rabbitmq_structure connection a =
     bindE (ok_or connection (ConsumerPanic ExpectFailed)) (\<lambda>_.
     bindE (map_err ConsumerErr (sa_exchange_declare a)) (\<lambda>_.
     bindE (map_err ConsumerErr (sa_queue_declare a)) (\<lambda>q.
     bindE (ok_or q (ConsumerPanic ExpectFailed)) (\<lambda>queue_name.
     bindE (map_err ConsumerErr (sa_queue_bind a queue_name)) (\<lambda>_.
     bindE (map_err ConsumerErr (sa_confirm_select a)) (\<lambda>_.
     Inr queue_name))))))"

subsection \<open>One delivery\<close>

record delivery =
  dl_tag :: u64
  dl_data :: bytes
  dl_ack_ok :: bool

record consumer =
  cs_acked :: "u64 list"
  cs_receiver :: bool
  cs_sent :: "signed_operation list"

definition process_operation_data ::
    "(bytes \<Rightarrow> transmitter_msg_versioned option) \<Rightarrow> delivery \<Rightarrow> consumer \<Rightarrow> consumer" where
  "process_operation_data from_str d s =
     (if \<not> dl_ack_ok d then s
      else
        let s' = s\<lparr>cs_acked := cs_acked s @ [dl_tag d]\<rparr> in
        if \<not> utf8_valid (dl_data d) then s'
        else
          (case from_str (dl_data d) of
             None \<Rightarrow> s'
           | Some (V1 (MsgSignedOperation op)) \<Rightarrow>
               if cs_receiver s' then s'\<lparr>cs_sent := cs_sent s' @ [op]\<rparr> else s'
           | Some (V1 (MsgPropose p)) \<Rightarrow> s'
           | Some (V1 (MsgProposalExecuted p)) \<Rightarrow> s'))"

subsection \<open>Polling\<close>

text \<open>The inner loop of \<^verbatim>\<open>process_incoming_data\<close>; \<open>gets k\<close> answers the \<open>k\<close>-th \<^verbatim>\<open>basic_get\<close>.\<close>

partial_function (option) drain ::
    "(bytes \<Rightarrow> transmitter_msg_versioned option) \<Rightarrow> (nat \<Rightarrow> 'e + delivery option) \<Rightarrow> nat \<Rightarrow> consumer \<Rightarrow> (consumer \<times> nat) option" where
  "drain from_str gets k s =
     (case gets k of
        Inr (Some d) \<Rightarrow> drain from_str gets (Suc k) (process_operation_data from_str d s)
      | _ \<Rightarrow> Some (s, Suc k))"

text \<open>One turn of the outer loop, given the stored connection's channel and whether it is open.\<close>

definition poll ::
    "(bytes \<Rightarrow> transmitter_msg_versioned option) \<Rightarrow> bool option \<Rightarrow> (nat \<Rightarrow> 'e + delivery option) \<Rightarrow> nat \<Rightarrow> consumer
     \<Rightarrow> (consumer \<times> nat) option" where
  "poll from_str channel gets k s =
     (case channel of
        None \<Rightarrow> Some (s, k)
      | Some is_open \<Rightarrow> if \<not> is_open then Some (s, k) else drain from_str gets k s)"

subsection \<open>What reaches the operation manager\<close>

definition decoded :: "(bytes \<Rightarrow> transmitter_msg_versioned option) \<Rightarrow> delivery \<Rightarrow> signed_operation list" where
  "decoded from_str d =
     (if utf8_valid (dl_data d) then
        (case from_str (dl_data d) of Some (V1 (MsgSignedOperation op)) \<Rightarrow> [op] | _ \<Rightarrow> [])
      else [])"

definition take_in :: "(bytes \<Rightarrow> transmitter_msg_versioned option) \<Rightarrow> delivery list \<Rightarrow> consumer \<Rightarrow> consumer" where
  "take_in from_str ds s =
     s\<lparr>cs_acked := cs_acked s @ List.map dl_tag (filter dl_ack_ok ds),
       cs_sent := cs_sent s @
         (if cs_receiver s then concat (List.map (decoded from_str) (filter dl_ack_ok ds)) else [])\<rparr>"

lemma process_operation_data_eq: "process_operation_data from_str d s = take_in from_str [d] s"
  by (auto simp: process_operation_data_def take_in_def decoded_def Let_def
      split: option.split transmitter_msg_versioned.split transmitter_msg_impl.split)

lemma take_in_Cons: "take_in from_str ds (take_in from_str [d] s) = take_in from_str (d # ds) s"
  by (simp add: take_in_def)

lemma drain_all:
  assumes "\<And>i. i < length ds \<Longrightarrow> gets (k + i) = Inr (Some (ds ! i))"
    and "\<And>d. gets (k + length ds) \<noteq> Inr (Some d)"
  shows "drain from_str gets k s = Some (take_in from_str ds s, Suc (k + length ds))"
  using assms
proof (induction ds arbitrary: k s)
  case Nil
  then show ?case by (subst drain.simps) (auto simp: take_in_def split: sum.split option.split)
next
  case (Cons d ds)
  have "gets k = Inr (Some d)" using Cons.prems(1) [of 0] by simp
  moreover have "drain from_str gets (Suc k) (take_in from_str [d] s) =
      Some (take_in from_str ds (take_in from_str [d] s), Suc (Suc k + length ds))"
  proof (rule Cons.IH)
    show "gets (Suc k + i) = Inr (Some (ds ! i))" if "i < length ds" for i
      using Cons.prems(1) [of "Suc i"] that by simp
    show "gets (Suc k + length ds) \<noteq> Inr (Some e)" for e using Cons.prems(2) [of e] by simp
  qed
  ultimately show ?case
    by (subst drain.simps) (simp add: process_operation_data_eq take_in_Cons)
qed

text \<open>The executor receives each acknowledged operation at most once and in order. When the queue
  delivers \<open>ds\<close> and then nothing, a poll ends; it has acknowledged exactly the deliveries whose
  acknowledgement succeeded, and handed over the operations among these that decode, in order.
  A delivery whose acknowledgement failed is not handed over (the broker will repeat it), and an
  acknowledged one that does not decode, or whose receiver is gone, is dropped for good.\<close>

theorem consumer_hands_over:
  assumes "\<forall>i < length ds. gets (k + i) = Inr (Some (ds ! i))" "\<forall>d. gets (k + length ds) \<noteq> Inr (Some d)"
  shows "\<exists>s'. poll from_str (Some True) gets k s = Some (s', Suc (k + length ds))
    \<and> cs_acked s' = cs_acked s @ List.map dl_tag (filter dl_ack_ok ds)
    \<and> cs_sent s' = cs_sent s @
        (if cs_receiver s then concat (List.map (decoded from_str) (filter dl_ack_ok ds)) else [])"
  using drain_all [of ds gets k from_str s] assms by (simp add: poll_def take_in_def)

definition sample_signed :: signed_operation where
  "sample_signed = \<lparr>so_operation_data =
     \<lparr>td_protocol_id = [], td_meta = [], td_src_chain_id = 0, td_src_block_number = 0, td_src_op_tx_id = [],
      td_nonce = 0, td_dest_chain_id = 0, td_protocol_addr = [], td_function_selector = [], td_params = [],
      td_reserved = []\<rparr>, so_signatures = [], so_eob_block_number = 3\<rparr>"

definition sample_deliveries :: "delivery list" where
  "sample_deliveries = [\<lparr>dl_tag = 0, dl_data = [], dl_ack_ok = True\<rparr>, \<lparr>dl_tag = 1, dl_data = [], dl_ack_ok = False\<rparr>]"

definition sample_gets :: "nat \<Rightarrow> unit + delivery option" where
  "sample_gets k = (if k < 2 then Inr (Some (sample_deliveries ! k)) else Inl ())"

lemma consumer_hands_over_witness:
  "\<exists>s'. poll (\<lambda>_. Some (V1 (MsgSignedOperation sample_signed))) (Some True) sample_gets 0
      \<lparr>cs_acked = [], cs_receiver = True, cs_sent = []\<rparr> = Some (s', 3)
    \<and> cs_sent s' = [sample_signed]"
proof -
  have "\<forall>i < length sample_deliveries. sample_gets (0 + i) = Inr (Some (sample_deliveries ! i))"
    "\<forall>d. sample_gets (0 + length sample_deliveries) \<noteq> Inr (Some d)"
    by (simp_all add: sample_gets_def sample_deliveries_def)
  from consumer_hands_over [OF this, of "\<lambda>_. Some (V1 (MsgSignedOperation sample_signed))"
      "\<lparr>cs_acked = [], cs_receiver = True, cs_sent = []\<rparr>"]
  show ?thesis by (auto simp: sample_deliveries_def decoded_def numeral_3_eq_3)
qed

end
