(* ===== verification/Ordered_Map.thy ===== *)
theory Ordered_Map
  imports Prelude
begin

section \<open>Ordered maps\<close>

text \<open>
  What the sources use of \<^verbatim>\<open>BTreeMap\<close>: \<open>entry(k).or_insert(d)\<close> followed by an update in place,
  \<open>first_entry\<close>, \<open>remove_entry\<close> on it, and lookup. \<open>ordered_map\<close> is that interface, with the key order
  given by a measure into the naturals (the keys are machine words); the instance below is an
  association list that is strictly sorted by key.
\<close>

locale ordered_map =
  fixes inv :: "'m \<Rightarrow> bool"
    and lookup :: "'m \<Rightarrow> 'k \<Rightarrow> 'v option"
    and upsert :: "'k \<Rightarrow> 'v \<Rightarrow> ('v \<Rightarrow> 'v) \<Rightarrow> 'm \<Rightarrow> 'm"
    and first_entry :: "'m \<Rightarrow> ('k \<times> 'v) option"
    and pop_first :: "'m \<Rightarrow> 'm"
    and rank :: "'k \<Rightarrow> nat"
  assumes rank_inj: "rank a = rank b \<Longrightarrow> a = b"
    and upsert_inv: "inv m \<Longrightarrow> inv (upsert k d f m)"
    and lookup_upsert:
      "inv m \<Longrightarrow> lookup (upsert k d f m) j =
         (if j = k then Some (f (case lookup m k of None \<Rightarrow> d | Some v \<Rightarrow> v)) else lookup m j)"
    and first_None: "inv m \<Longrightarrow> first_entry m = None \<longleftrightarrow> (\<forall>k. lookup m k = None)"
    and first_Some:
      "inv m \<Longrightarrow> first_entry m = Some (k, v) \<Longrightarrow>
         lookup m k = Some v \<and> (\<forall>j. lookup m j \<noteq> None \<longrightarrow> rank k \<le> rank j)"
    and pop_inv: "inv m \<Longrightarrow> inv (pop_first m)"
    and lookup_pop:
      "inv m \<Longrightarrow> first_entry m = Some (k, v) \<Longrightarrow>
         lookup (pop_first m) j = (if j = k then None else lookup m j)"
begin

lemma first_least: "inv m \<Longrightarrow> first_entry m = Some (k, v) \<Longrightarrow> lookup m j = Some u \<Longrightarrow> rank k \<le> rank j"
  using first_Some by fastforce

lemma first_strict:
  "inv m \<Longrightarrow> first_entry m = Some (k, v) \<Longrightarrow> lookup (pop_first m) j = Some u \<Longrightarrow> rank k < rank j"
  by (metis first_least le_neq_implies_less lookup_pop option.distinct(1) rank_inj)

end

subsection \<open>Sorted association lists\<close>

type_synonym 'v block_map = "(u64 \<times> 'v) list"

definition bm_sorted :: "'v block_map \<Rightarrow> bool" where
  "bm_sorted m \<longleftrightarrow> sorted_wrt (\<lambda>a b. unat (fst a) < unat (fst b)) m"

fun bm_upsert :: "u64 \<Rightarrow> 'v \<Rightarrow> ('v \<Rightarrow> 'v) \<Rightarrow> 'v block_map \<Rightarrow> 'v block_map" where
  "bm_upsert k d f [] = [(k, f d)]"
| "bm_upsert k d f ((j, v) # m) =
     (if unat k < unat j then (k, f d) # (j, v) # m
      else if k = j then (j, f v) # m
      else (j, v) # bm_upsert k d f m)"

definition bm_first :: "'v block_map \<Rightarrow> (u64 \<times> 'v) option" where
  "bm_first m = (case m of [] \<Rightarrow> None | e # _ \<Rightarrow> Some e)"

definition bm_pop :: "'v block_map \<Rightarrow> 'v block_map" where
  "bm_pop m = tl m"

lemma bm_upsert_keys: "fst ` set (bm_upsert k d f m) = insert k (fst ` set m)"
  by (induction k d f m rule: bm_upsert.induct) (simp_all add: insert_commute)

lemma bm_upsert_sorted: "bm_sorted m \<Longrightarrow> bm_sorted (bm_upsert k d f m)"
proof (induction m)
  case (Cons e m)
  obtain j v where e: "e = (j, v)" by (cases e)
  have k: "a \<in> insert k (fst ` set m)" if "(a, b) \<in> set (bm_upsert k d f m)" for a b
    using that bm_upsert_keys [of k d f m] by force
  from Cons e have "bm_sorted (bm_upsert k d f m)" by (simp add: bm_sorted_def)
  moreover have "unat j < unat k" if "\<not> unat k < unat j" "k \<noteq> j"
    using that by (metis linorder_neqE_nat word_unat_eq_iff)
  ultimately show ?case
    using Cons.prems e k by (fastforce simp: bm_sorted_def)
qed (simp add: bm_sorted_def)

lemma bm_lookup_upsert:
  "bm_sorted m \<Longrightarrow> map_of (bm_upsert k d f m) j =
     (if j = k then Some (f (case map_of m k of None \<Rightarrow> d | Some v \<Rightarrow> v)) else map_of m j)"
proof (induction m)
  case (Cons e m)
  obtain i v where e: "e = (i, v)" by (cases e)
  have "map_of m k = None" if "unat k < unat i"
    using Cons.prems that e by (force simp: bm_sorted_def map_of_eq_None_iff)
  with Cons e show ?case by (auto simp: bm_sorted_def)
qed simp

interpretation bm: ordered_map bm_sorted map_of bm_upsert bm_first bm_pop unat
proof
  fix m :: "'v block_map" and k :: u64 and v :: 'v
  assume m: "bm_sorted m" and f: "bm_first m = Some (k, v)"
  then obtain m' where e: "m = (k, v) # m'" by (cases m) (auto simp: bm_first_def)
  show "map_of m k = Some v \<and> (\<forall>j. map_of m j \<noteq> None \<longrightarrow> unat k \<le> unat j)"
    using m e by (force simp: bm_sorted_def dest!: map_of_SomeD)
next
  fix m :: "'v block_map" and k j :: u64 and v :: 'v
  assume m: "bm_sorted m" and f: "bm_first m = Some (k, v)"
  then obtain m' where e: "m = (k, v) # m'" by (cases m) (auto simp: bm_first_def)
  have "map_of m' k = None"
    using m e by (force simp: bm_sorted_def map_of_eq_None_iff)
  then show "map_of (bm_pop m) j = (if j = k then None else map_of m j)"
    using e by (simp add: bm_pop_def)
next
  fix m :: "'v block_map"
  show "bm_first m = None \<longleftrightarrow> (\<forall>k. map_of m k = None)"
  proof (cases m)
    case (Cons e m')
    then have "map_of m (fst e) \<noteq> None" by (cases e) simp
    with Cons show ?thesis by (auto simp: bm_first_def)
  qed (simp add: bm_first_def)
  assume "bm_sorted m"
  then show "bm_sorted (bm_pop m)" by (cases m) (auto simp: bm_sorted_def bm_pop_def)
qed (simp_all add: bm_upsert_sorted bm_lookup_upsert word_unat_eq_iff)

end
