(* ===== verification/Op_Registry.thy ===== *)
theory Op_Registry
  imports Ordered_Map Protocol_Data
begin

section \<open>Acknowledging processed blocks\<close>

text \<open>
  \<^verbatim>\<open>transmitter-module/src/executor_app/last_block_updater.rs\<close> and the acknowledgement types of
  \<^verbatim>\<open>executor_app/mod.rs\<close>: the registry of the operations in flight, by the block they came from,
  and the choice of the block that may be written as the last processed one. Instants are
  milliseconds; \<open>elapsed\<close> saturates at zero, as \<^verbatim>\<open>Instant::elapsed\<close> does. The select loop, the sleep
  of one second between polls and the MongoDB write are the environment: a run is a list of
  acknowledgements and polls with their times.
\<close>

datatype executor_op_status = ENew | ELoaded | ESigned | EExecuted | EFailed

fun executor_status_from :: "op_status \<Rightarrow> executor_op_status" where
  "executor_status_from StNone = ENew"
| "executor_status_from StInit = ELoaded"
| "executor_status_from StSigned = ESigned"
| "executor_status_from StExecuted = EExecuted"

record op_acknowledge =
  oa_block_number :: u64
  oa_op_hash :: bytes
  oa_status :: executor_op_status

definition BLOCK_COLLECTING_TIMEOUT_SEC :: nat where "BLOCK_COLLECTING_TIMEOUT_SEC = 5"

record block_info =
  bi_created_at :: nat
  bi_ops :: "bytes set"

record op_registry =
  known_ops :: "block_info block_map"
  ack_timeout :: nat

definition op_registry_new :: "nat \<Rightarrow> op_registry" where
  "op_registry_new timeout = \<lparr>known_ops = [], ack_timeout = timeout\<rparr>"

definition on_new_operation :: "block_info \<Rightarrow> bytes \<Rightarrow> block_info" where
  "on_new_operation b h = b\<lparr>bi_ops := insert h (bi_ops b)\<rparr>"

definition on_executed_operation :: "block_info \<Rightarrow> bytes \<Rightarrow> block_info" where
  "on_executed_operation b h = b\<lparr>bi_ops := bi_ops b - {h}\<rparr>"

definition on_acknowledge :: "nat \<Rightarrow> op_acknowledge \<Rightarrow> op_registry \<Rightarrow> op_registry" where
  "on_acknowledge now a r =
     r\<lparr>known_ops := bm_upsert (oa_block_number a) \<lparr>bi_created_at = now, bi_ops = {}\<rparr>
        (\<lambda>b. case oa_status a of
               ENew \<Rightarrow> on_new_operation b (oa_op_hash a)
             | EFailed \<Rightarrow> on_executed_operation b (oa_op_hash a)
             | EExecuted \<Rightarrow> on_executed_operation b (oa_op_hash a)
             | _ \<Rightarrow> b) (known_ops r)\<rparr>"

function ack_loop ::
    "nat \<Rightarrow> nat \<Rightarrow> block_info block_map \<Rightarrow> u64 option \<Rightarrow> u64 option \<times> block_info block_map" where
  "ack_loop now timeout m block =
     (case bm_first m of
        None \<Rightarrow> (block, m)
      | Some (k, b) \<Rightarrow>
          if now - bi_created_at b > timeout \<and> bi_ops b = {}
          then ack_loop now timeout (bm_pop m) (Some k)
          else (block, m))"
  by pat_completeness auto
termination
  by (relation "measure (\<lambda>(now, timeout, m, block). length m)")
    (auto simp: bm_first_def bm_pop_def split: list.splits)

declare ack_loop.simps [simp del]

definition get_block_to_ack :: "nat \<Rightarrow> op_registry \<Rightarrow> u64 option \<times> op_registry" where
  "get_block_to_ack now r =
     (case ack_loop now (ack_timeout r) (known_ops r) None of
        (block, m) \<Rightarrow> (block, r\<lparr>known_ops := m\<rparr>))"

subsection \<open>Runs\<close>

datatype reg_event = RAck op_acknowledge | RPoll

fun reg_run :: "(nat \<times> reg_event) list \<Rightarrow> op_registry \<Rightarrow> u64 list \<times> op_registry" where
  "reg_run [] r = ([], r)"
| "reg_run ((now, RAck a) # evs) r = reg_run evs (on_acknowledge now a r)"
| "reg_run ((now, RPoll) # evs) r =
     (case get_block_to_ack now r of
        (block, r') \<Rightarrow>
          (case reg_run evs r' of
             (bs, r'') \<Rightarrow> ((case block of None \<Rightarrow> bs | Some b \<Rightarrow> b # bs), r'')))"

text \<open>The operations in flight, by the history of acknowledgements alone.\<close>

fun pending_step :: "(u64 \<times> bytes) set \<Rightarrow> reg_event \<Rightarrow> (u64 \<times> bytes) set" where
  "pending_step p (RAck a) =
     (case oa_status a of
        ENew \<Rightarrow> insert (oa_block_number a, oa_op_hash a) p
      | EFailed \<Rightarrow> p - {(oa_block_number a, oa_op_hash a)}
      | EExecuted \<Rightarrow> p - {(oa_block_number a, oa_op_hash a)}
      | _ \<Rightarrow> p)"
| "pending_step p RPoll = p"

definition pending :: "(nat \<times> reg_event) list \<Rightarrow> (u64 \<times> bytes) set" where
  "pending evs = foldl pending_step {} (List.map snd evs)"

subsection \<open>The registry tracks what is in flight\<close>

definition reg_wf :: "op_registry \<Rightarrow> bool" where
  "reg_wf r \<longleftrightarrow> bm_sorted (known_ops r)"

definition block_ops :: "block_info block_map \<Rightarrow> u64 \<Rightarrow> bytes set" where
  "block_ops m b = (case map_of m b of None \<Rightarrow> {} | Some bi \<Rightarrow> bi_ops bi)"

definition in_flight :: "op_registry \<Rightarrow> (u64 \<times> bytes) set" where
  "in_flight r = {(b, h). h \<in> block_ops (known_ops r) b}"

lemma on_acknowledge_wf: "reg_wf r \<Longrightarrow> reg_wf (on_acknowledge now a r)"
  by (simp add: reg_wf_def on_acknowledge_def bm.upsert_inv)

lemma block_ops_acknowledge:
  assumes "reg_wf r"
  shows "block_ops (known_ops (on_acknowledge now a r)) b =
    (if b = oa_block_number a then
       (case oa_status a of
          ENew \<Rightarrow> insert (oa_op_hash a) (block_ops (known_ops r) b)
        | EFailed \<Rightarrow> block_ops (known_ops r) b - {oa_op_hash a}
        | EExecuted \<Rightarrow> block_ops (known_ops r) b - {oa_op_hash a}
        | _ \<Rightarrow> block_ops (known_ops r) b)
     else block_ops (known_ops r) b)"
proof (cases "map_of (known_ops r) (oa_block_number a)")
  case None
  with assms show ?thesis
    by (cases "oa_status a") (simp_all add: reg_wf_def block_ops_def on_acknowledge_def
        bm.lookup_upsert on_new_operation_def on_executed_operation_def)
next
  case (Some bi)
  with assms show ?thesis
    by (cases "oa_status a") (simp_all add: reg_wf_def block_ops_def on_acknowledge_def
        bm.lookup_upsert on_new_operation_def on_executed_operation_def)
qed

lemma on_acknowledge_in_flight:
  "reg_wf r \<Longrightarrow> in_flight (on_acknowledge now a r) = pending_step (in_flight r) (RAck a)"
  by (cases "oa_status a") (auto simp: in_flight_def block_ops_acknowledge split: if_splits)

text \<open>
  The loop: the remaining map is the map without the acknowledged blocks; those had nothing in
  flight and had timed out, and every remaining block is later than them.
\<close>

definition cut_at :: "block_info block_map \<Rightarrow> block_info block_map \<Rightarrow> u64 \<Rightarrow> bool" where
  "cut_at m m' b \<longleftrightarrow>
     map_of m b \<noteq> None \<and> map_of m' b = None
     \<and> (\<forall>j. map_of m j \<noteq> None \<longrightarrow> (map_of m' j = None \<longleftrightarrow> unat j \<le> unat b))"

lemma cut_at_first:
  assumes "bm_sorted m" "bm_first m = Some (k, b)"
  shows "cut_at m (bm_pop m) k"
  using bm.lookup_pop [OF assms] bm.first_Some [OF assms] bm.first_strict [OF assms]
  unfolding cut_at_def by (auto simp: word_unat_eq_iff)

lemma cut_at_pop:
  assumes "bm_sorted m" "bm_first m = Some (k, b)" "map_of m' k = None" "cut_at (bm_pop m) m' c"
  shows "cut_at m m' c"
proof -
  note pop = bm.lookup_pop [OF assms(1,2)]
  have "unat k \<le> unat c"
    using bm.first_strict [OF assms(1,2)] assms(4) by (auto simp: cut_at_def intro: less_imp_le)
  then have "map_of m' j = None \<longleftrightarrow> unat j \<le> unat c" if "map_of m j \<noteq> None" for j
    using assms(3,4) that pop [of j] by (cases "j = k") (simp_all add: cut_at_def)
  then show ?thesis using assms(4) pop [of c] by (simp add: cut_at_def split: if_splits)
qed

lemma ack_loop_spec:
  assumes "bm_sorted m" "ack_loop now timeout m block = (block', m')"
  shows "bm_sorted m'
    \<and> (\<forall>b v. map_of m' b = Some v \<longrightarrow> map_of m b = Some v)
    \<and> (\<forall>b bi. map_of m b = Some bi \<longrightarrow> map_of m' b = None \<longrightarrow>
         bi_ops bi = {} \<and> timeout < now - bi_created_at bi)
    \<and> (block' = block \<and> m' = m
       \<or> (\<exists>b. block' = Some b \<and> cut_at m m' b))
    \<and> (case bm_first m' of None \<Rightarrow> True
       | Some (k, bi) \<Rightarrow> \<not> (timeout < now - bi_created_at bi \<and> bi_ops bi = {}))"
  using assms
proof (induction now timeout m block rule: ack_loop.induct)
  case (1 now timeout m block)
  show ?case
  proof (cases "bm_first m")
    case None
    with 1(2-) show ?thesis by (auto simp: ack_loop.simps)
  next
    case (Some kb)
    obtain k b where kb: "bm_first m = Some (k, b)" using Some by (cases kb) simp
    show ?thesis
    proof (cases "now - bi_created_at b > timeout \<and> bi_ops b = {}")
      case False
      with kb 1(2-) show ?thesis by (auto simp: ack_loop.simps)
    next
      case True
      let ?n = "bm_pop m"
      from True kb 1(3) have l: "ack_loop now timeout ?n (Some k) = (block', m')"
        by (simp add: ack_loop.simps [of now timeout m])
      note IH = 1(1) [OF kb refl True bm.pop_inv [OF 1(2)] l]
      note pop = bm.lookup_pop [OF 1(2) kb] and fst = bm.first_Some [OF 1(2) kb]
      have k': "map_of m' k = None"
        using IH pop [of k] by (metis option.exhaust option.distinct(1))
      have "\<exists>c. block' = Some c \<and> cut_at m m' c"
        using IH cut_at_first [OF 1(2) kb] cut_at_pop [OF 1(2) kb k'] by blast
      moreover have "map_of m j = Some v" if "map_of m' j = Some v" for j v
        using IH that k' pop [of j] by (cases "j = k") auto
      moreover have "bi_ops bi = {} \<and> timeout < now - bi_created_at bi"
        if "map_of m j = Some bi" "map_of m' j = None" for j bi
        using IH that True fst pop [of j] by (cases "j = k") auto
      ultimately show ?thesis using IH by blast
    qed
  qed
qed

lemma poll_spec:
  assumes w: "reg_wf r" and g: "get_block_to_ack now r = (block, r')"
  shows "reg_wf r'" "in_flight r' = in_flight r" "ack_timeout r' = ack_timeout r"
    and "block = Some b \<Longrightarrow> (b', h) \<in> in_flight r \<Longrightarrow> unat b < unat b'"
proof -
  obtain m' where l: "ack_loop now (ack_timeout r) (known_ops r) None = (block, m')"
      and r': "r' = r\<lparr>known_ops := m'\<rparr>"
    using g by (auto simp: get_block_to_ack_def split: prod.splits)
  note s = ack_loop_spec [OF w [unfolded reg_wf_def] l]
  show "reg_wf r'" "ack_timeout r' = ack_timeout r" using s r' by (auto simp: reg_wf_def)
  have "block_ops m' b = block_ops (known_ops r) b" for b
  proof (cases "map_of m' b")
    case None
    then show ?thesis
      using s by (cases "map_of (known_ops r) b") (auto simp: block_ops_def)
  next
    case (Some v)
    with s have "map_of (known_ops r) b = Some v" by blast
    with Some show ?thesis by (simp add: block_ops_def)
  qed
  note o = this
  then show f: "in_flight r' = in_flight r" by (simp add: in_flight_def r')
  assume b: "block = Some b" "(b', h) \<in> in_flight r"
  have "map_of m' b' \<noteq> None"
    using b(2) o [of b'] by (cases "map_of m' b'") (auto simp: in_flight_def block_ops_def [of m'])
  moreover from this s have "map_of (known_ops r) b' \<noteq> None" by auto
  ultimately show "unat b < unat b'" using s b(1) by (auto simp: cut_at_def not_le)
qed

lemma reg_run_in_flight:
  assumes "reg_run evs r = (bs, r')" "reg_wf r"
  shows "reg_wf r' \<and> in_flight r' = foldl pending_step (in_flight r) (List.map snd evs)"
  using assms
proof (induction evs r arbitrary: bs rule: reg_run.induct)
  case (2 now a evs r)
  then show ?case by (simp add: on_acknowledge_wf on_acknowledge_in_flight)
next
  case (3 now evs r)
  obtain block r1 where g: "get_block_to_ack now r = (block, r1)" by (cases "get_block_to_ack now r")
  obtain bs' where "reg_run evs r1 = (bs', r')"
    using 3(2) g by (auto split: prod.splits)
  with 3(1) [OF g [symmetric] this] poll_spec [OF 3(3) g] show ?case by simp
qed simp

lemma new_registry [simp]: "reg_wf (op_registry_new t)" "in_flight (op_registry_new t) = {}"
  by (simp_all add: reg_wf_def op_registry_new_def bm_sorted_def in_flight_def block_ops_def)

subsection \<open>Properties\<close>

lemma poll_below_pending:
  assumes "reg_run evs (op_registry_new timeout) = (bs, r)" "get_block_to_ack now r = (Some b, r')"
    "(b', h) \<in> pending evs"
  shows "unat b < unat b'"
  using reg_run_in_flight [OF assms(1)] poll_spec(4) [OF _ assms(2) refl] assms(3)
  by (simp add: pending_def)

text \<open>C17: No block is acknowledged too early. After any run of acknowledgements and polls, a block
  number that a poll returns is below the block of every operation that was announced as new and
  not yet reported executed or failed: all operations of the acknowledged block and of the blocks
  before it are finished.\<close>

theorem acknowledged_blocks_are_complete:
  assumes "reg_run evs (op_registry_new timeout) = (bs, r)"
    and "get_block_to_ack now r = (Some b, r')" and "(b', h) \<in> pending evs"
  shows "unat b < unat b'"
  using poll_below_pending [OF assms] .

text \<open>C18: A finished block is acknowledged. If block \<open>b\<close> is known, and no operation is in flight in it
  or in any known block before it, and all of these were first seen longer ago than the timeout,
  the poll returns \<open>b\<close> or a later block, and forgets them all.\<close>

theorem finished_blocks_are_acknowledged:
  assumes w: "reg_wf r" and b: "map_of (known_ops r) b \<noteq> None"
    and fin: "\<And>j bi. map_of (known_ops r) j = Some bi \<Longrightarrow> unat j \<le> unat b \<Longrightarrow>
      bi_ops bi = {} \<and> ack_timeout r < now - bi_created_at bi"
  shows "\<exists>c r'. get_block_to_ack now r = (Some c, r') \<and> unat b \<le> unat c
    \<and> (\<forall>j. unat j \<le> unat b \<longrightarrow> map_of (known_ops r') j = None)"
proof -
  obtain block m' where l: "ack_loop now (ack_timeout r) (known_ops r) None = (block, m')"
    by (cases "ack_loop now (ack_timeout r) (known_ops r) None")
  note s = ack_loop_spec [OF w [unfolded reg_wf_def] l]
  have none: "map_of m' j = None" if "unat j \<le> unat b" for j
  proof (rule ccontr)
    assume j: "map_of m' j \<noteq> None"
    then obtain k bi where k: "bm_first m' = Some (k, bi)"
      using s bm.first_None [of m'] by (cases "bm_first m'") auto
    have "unat k \<le> unat j" "map_of m' k = Some bi"
      using bm.first_Some [of m' k bi] s k j by auto
    with s that have "map_of (known_ops r) k = Some bi" "unat k \<le> unat b" by auto
    with fin s k show False by fastforce
  qed
  then have "map_of m' b = None" by simp
  with s b obtain c where "block = Some c" "unat b \<le> unat c" by (auto simp: cut_at_def)
  with l none show ?thesis by (auto simp: get_block_to_ack_def)
qed

definition ack_of :: "u64 \<Rightarrow> bytes \<Rightarrow> executor_op_status \<Rightarrow> reg_event" where
  "ack_of b h s = RAck \<lparr>oa_block_number = b, oa_op_hash = h, oa_status = s\<rparr>"

definition reg_sample :: "(nat \<times> reg_event) list" where
  "reg_sample = [(0, ack_of 2 [1] ENew), (1, ack_of 1 [2] ENew), (2, ack_of 1 [2] EExecuted)]"

lemma reg_sample_run:
  "reg_run reg_sample (op_registry_new 5) =
     ([], \<lparr>known_ops = [(1, \<lparr>bi_created_at = 1, bi_ops = {}\<rparr>), (2, \<lparr>bi_created_at = 0, bi_ops = {[1]}\<rparr>)],
           ack_timeout = 5\<rparr>)"
  by (simp add: reg_sample_def ack_of_def op_registry_new_def on_acknowledge_def on_new_operation_def
      on_executed_operation_def)

lemma reg_sample_poll:
  "get_block_to_ack 10 \<lparr>known_ops = [(1, \<lparr>bi_created_at = 1, bi_ops = {}\<rparr>),
       (2, \<lparr>bi_created_at = 0, bi_ops = {[1]}\<rparr>)], ack_timeout = 5\<rparr> =
     (Some 1, \<lparr>known_ops = [(2, \<lparr>bi_created_at = 0, bi_ops = {[1]}\<rparr>)], ack_timeout = 5\<rparr>)"
  by (simp add: get_block_to_ack_def ack_loop.simps bm_first_def bm_pop_def)

theorem acknowledged_blocks_are_complete_witness: "unat (1 :: u64) < unat (2 :: u64)"
  by (rule acknowledged_blocks_are_complete [OF reg_sample_run reg_sample_poll, of _ "[1]"])
    (simp add: pending_def reg_sample_def ack_of_def)

theorem finished_blocks_are_acknowledged_witness:
  "\<exists>c r'. get_block_to_ack 10 \<lparr>known_ops = [(1, \<lparr>bi_created_at = 1, bi_ops = {}\<rparr>)], ack_timeout = 5\<rparr> =
     (Some c, r') \<and> unat (1 :: u64) \<le> unat c"
proof -
  have "\<exists>c r'. get_block_to_ack 10 \<lparr>known_ops = [(1, \<lparr>bi_created_at = 1, bi_ops = {}\<rparr>)], ack_timeout = 5\<rparr> =
     (Some c, r') \<and> unat (1 :: u64) \<le> unat c \<and> (\<forall>j. unat j \<le> unat (1 :: u64) \<longrightarrow> map_of (known_ops r') j = None)"
    by (rule finished_blocks_are_acknowledged) (auto simp: reg_wf_def bm_sorted_def split: if_splits)
  then show ?thesis by blast
qed

text \<open>The written block number can go backwards: a block that is announced after a later one was
  already acknowledged is acknowledged afterwards, and overwrites the later number.\<close>

theorem acknowledged_block_goes_backwards:
  "fst (reg_run [(0, ack_of 2 [1] ENew), (1, ack_of 2 [1] EExecuted), (10, RPoll),
       (11, ack_of 1 [2] ENew), (12, ack_of 1 [2] EExecuted), (20, RPoll)]
     (op_registry_new BLOCK_COLLECTING_TIMEOUT_SEC)) = [2, 1]"
  by (simp add: ack_of_def op_registry_new_def on_acknowledge_def on_new_operation_def
      on_executed_operation_def get_block_to_ack_def ack_loop.simps bm_first_def bm_pop_def
      BLOCK_COLLECTING_TIMEOUT_SEC_def)

end
