(* ===== verification/Block_Updater.thy ===== *)
theory Block_Updater
  imports Op_Registry
begin

section \<open>Writing the last processed block\<close>

text \<open>
  The tasks around the registry in \<^verbatim>\<open>transmitter-module/src/executor_app/last_block_updater.rs\<close>: one takes
  acknowledgements from a channel into the registry, one polls the registry every second and sends
  the block on, one writes blocks to the database. They run concurrently, so the component is a step
  relation; the times and the success of a database write are chosen by the environment.
  \<open>bu_history\<close> records what the registry has seen.
\<close>

record block_updater =
  bu_incoming :: "op_acknowledge list"
  bu_registry :: op_registry
  bu_resend :: "u64 list"
  bu_stored :: "u64 option"
  bu_history :: "(nat \<times> reg_event) list"

definition block_updater_new :: block_updater where
  "block_updater_new =
     \<lparr>bu_incoming = [], bu_registry = op_registry_new (BLOCK_COLLECTING_TIMEOUT_SEC * 1000), bu_resend = [],
      bu_stored = None, bu_history = []\<rparr>"

definition process_acknowledges :: "nat \<Rightarrow> block_updater \<Rightarrow> block_updater" where
  "process_acknowledges now s =
     (case bu_incoming s of
        [] \<Rightarrow> s
      | a # rest \<Rightarrow>
          s\<lparr>bu_incoming := rest, bu_registry := on_acknowledge now a (bu_registry s),
            bu_history := bu_history s @ [(now, RAck a)]\<rparr>)"

definition write_acknowledges :: "nat \<Rightarrow> block_updater \<Rightarrow> block_updater" where
  "write_acknowledges now s =
     (let (block, r) = get_block_to_ack now (bu_registry s) in
      s\<lparr>bu_registry := r, bu_history := bu_history s @ [(now, RPoll)],
        bu_resend := bu_resend s @ (case block of None \<Rightarrow> [] | Some b \<Rightarrow> [b])\<rparr>)"

text \<open>\<^verbatim>\<open>process_block_number\<close> with \<^verbatim>\<open>on_last_processed_block\<close>: a failed write is logged.\<close>

definition on_last_processed_block :: "bool \<Rightarrow> block_updater \<Rightarrow> block_updater" where
  "on_last_processed_block ok s =
     (case bu_resend s of
        [] \<Rightarrow> s
      | b # rest \<Rightarrow> s\<lparr>bu_resend := rest, bu_stored := (if ok then Some b else bu_stored s)\<rparr>)"

inductive updater_step :: "block_updater \<Rightarrow> block_updater \<Rightarrow> bool" where
  incoming: "updater_step s (s\<lparr>bu_incoming := bu_incoming s @ [a]\<rparr>)"
| acknowledge: "updater_step s (process_acknowledges now s)"
| poll: "updater_step s (write_acknowledges now s)"
| store: "updater_step s (on_last_processed_block ok s)"

inductive updater_reachable :: "block_updater \<Rightarrow> bool" where
  start: "updater_reachable block_updater_new"
| step: "updater_reachable s \<Longrightarrow> updater_step s s' \<Longrightarrow> updater_reachable s'"

subsection \<open>What is stored was complete\<close>

abbreviation registry_after :: "(nat \<times> reg_event) list \<Rightarrow> op_registry" where
  "registry_after evs \<equiv> snd (reg_run evs (op_registry_new (BLOCK_COLLECTING_TIMEOUT_SEC * 1000)))"

lemma reg_run_snoc:
  "snd (reg_run (evs @ [(now, RAck a)]) r) = on_acknowledge now a (snd (reg_run evs r))"
  "snd (reg_run (evs @ [(now, RPoll)]) r) = snd (get_block_to_ack now (snd (reg_run evs r)))"
  by (induction evs r rule: reg_run.induct) (auto split: prod.splits option.splits)

definition polled_in :: "(nat \<times> reg_event) list \<Rightarrow> u64 \<Rightarrow> bool" where
  "polled_in evs b \<longleftrightarrow>
     (\<exists>before now after. evs = before @ (now, RPoll) # after
        \<and> fst (get_block_to_ack now (registry_after before)) = Some b)"

lemma polled_in_snoc: "polled_in evs b \<Longrightarrow> polled_in (evs @ [e]) b"
  unfolding polled_in_def by (metis append.assoc append_Cons)

definition updater_inv :: "block_updater \<Rightarrow> bool" where
  "updater_inv s \<longleftrightarrow>
     bu_registry s = registry_after (bu_history s)
     \<and> (\<forall>b \<in> set (bu_resend s) \<union> set_option (bu_stored s). polled_in (bu_history s) b)"

lemma acknowledge_keeps: "updater_inv s \<Longrightarrow> updater_inv (process_acknowledges now s)"
  by (auto simp: updater_inv_def process_acknowledges_def reg_run_snoc polled_in_snoc split: list.splits)

lemma poll_keeps:
  assumes "updater_inv s"
  shows "updater_inv (write_acknowledges now s)"
proof -
  obtain block r where g: "get_block_to_ack now (bu_registry s) = (block, r)" by fastforce
  have "polled_in (bu_history s @ [(now, RPoll)]) b" if "block = Some b" for b
    using g that assms unfolding polled_in_def updater_inv_def by (metis append_Nil2 append_Cons fst_conv)
  with g assms show ?thesis
    by (auto simp: updater_inv_def write_acknowledges_def reg_run_snoc polled_in_snoc split: option.splits)
qed

lemma store_keeps: "updater_inv s \<Longrightarrow> updater_inv (on_last_processed_block ok s)"
  by (auto simp: updater_inv_def on_last_processed_block_def split: list.splits)

lemma updater_reachable_inv: "updater_reachable s \<Longrightarrow> updater_inv s"
proof (induction rule: updater_reachable.induct)
  case start
  show ?case by (simp add: updater_inv_def block_updater_new_def)
next
  case (step s s')
  from step(2) show ?case
  proof cases
    case (incoming a)
    with step(3) show ?thesis by (simp add: updater_inv_def)
  qed (use step(3) acknowledge_keeps poll_keeps store_keeps in blast)+
qed

text \<open>The block in the database was complete when it was chosen. In every reachable state of the three
  tasks, the stored block was returned by a poll of the registry, and at that poll it was below the
  block of every operation that had been announced and not yet reported executed or failed.\<close>

theorem stored_block_was_complete:
  assumes "updater_reachable s" "bu_stored s = Some b"
  shows "\<exists>before now after. bu_history s = before @ (now, RPoll) # after
    \<and> (\<forall>b' h. (b', h) \<in> Op_Registry.pending before \<longrightarrow> unat b < unat b')"
proof -
  from updater_reachable_inv [OF assms(1)] assms(2) obtain before now after where
    h: "bu_history s = before @ (now, RPoll) # after" "fst (get_block_to_ack now (registry_after before)) = Some b"
    by (auto simp: updater_inv_def polled_in_def)
  have "unat b < unat b'" if "(b', x) \<in> Op_Registry.pending before" for b' x
    using poll_below_pending [OF prod.collapse [symmetric] _ that] h(2) by (metis prod.collapse)
  with h(1) show ?thesis by blast
qed

definition sample_updated :: block_updater where
  "sample_updated =
     on_last_processed_block True (write_acknowledges 10000 (process_acknowledges 1 (process_acknowledges 0
       (block_updater_new\<lparr>bu_incoming := [\<lparr>oa_block_number = 1, oa_op_hash = [1], oa_status = ENew\<rparr>,
          \<lparr>oa_block_number = 1, oa_op_hash = [1], oa_status = EExecuted\<rparr>]\<rparr>))))"

lemma sample_updated_reachable: "updater_reachable sample_updated"
proof -
  let ?a = "\<lparr>oa_block_number = 1, oa_op_hash = [1], oa_status = ENew\<rparr>"
  let ?b = "\<lparr>oa_block_number = 1, oa_op_hash = [1], oa_status = EExecuted\<rparr>"
  have "updater_reachable (block_updater_new\<lparr>bu_incoming := [?a]\<rparr>)"
    using updater_reachable.step [OF updater_reachable.start incoming [of block_updater_new ?a]]
    by (simp add: block_updater_new_def)
  from updater_reachable.step [OF this incoming [of _ ?b]]
  have "updater_reachable (block_updater_new\<lparr>bu_incoming := [?a, ?b]\<rparr>)" by simp
  then show ?thesis
    unfolding sample_updated_def by (meson updater_reachable.step updater_step.intros)
qed

lemma stored_block_was_complete_witness:
  "\<exists>before now after. bu_history sample_updated = before @ (now, RPoll) # after"
proof -
  have "bu_stored sample_updated = Some 1"
    by (simp add: sample_updated_def on_last_processed_block_def write_acknowledges_def process_acknowledges_def
        block_updater_new_def op_registry_new_def on_acknowledge_def on_new_operation_def
        on_executed_operation_def get_block_to_ack_def ack_loop.simps bm_first_def bm_pop_def
        BLOCK_COLLECTING_TIMEOUT_SEC_def)
  from stored_block_was_complete [OF sample_updated_reachable this] show ?thesis by blast
qed

end
