(* ===== verification/Onefunc.thy ===== *)
theory Onefunc
  imports Endpoint_Props
begin

section \<open>The example protocol \<open>onefunc\<close>\<close>

text \<open>
  \<^verbatim>\<open>programs/onefunc/src/lib.rs\<close>: a protocol program that counts. It is the far end of
  \<open>execute_operation\<close> (its instructions run under the endpoint's call authority) and a client of
  \<open>propose\<close>, which it calls with a proposer address it signs for. Its own accounts are the counters
  and the proposer account; the endpoint's world is read (the operation account must exist) and, by
  the cross-program call, changed.
\<close>

record counter =
  counter_call_authority :: bytes
  counter_count :: u64

definition counter_default :: counter where
  "counter_default = \<lparr>counter_call_authority = pubkey_default, counter_count = 0\<rparr>"

record 'x of_world =
  of_counters :: "bytes \<Rightarrow> counter option"
  of_proposer :: "bytes \<Rightarrow> bool"
  of_photon :: "'x world"

datatype onefunc_error = InvalidParams | InvalidSelector

datatype of_err = OfCustom onefunc_error | OfRuntime err

definition PROTOCOL_ID :: bytes where
  "PROTOCOL_ID = str ''onefunc_________________________''"

text \<open>\<^verbatim>\<open>declare_id!\<close> is the deployed address \<open>pid\<close>, an argument.\<close>

definition of_seeds :: "'x env \<Rightarrow> bytes \<Rightarrow> bytes list \<Rightarrow> account_info \<Rightarrow> of_err + u8" where
  "of_seeds env pid seeds a =
     bindE (ok_or (env_find_pda env seeds pid) (OfRuntime (Panic NoViableBump))) (\<lambda>(k, bump).
       bindE (require (ai_key a = k) (OfRuntime (Anchor ConstraintSeeds))) (\<lambda>_. Inr bump))"

definition rt :: "err + 'a \<Rightarrow> of_err + 'a" where
  "rt m = map_err OfRuntime m"

definition init_counter ::
    "'x env \<Rightarrow> account_info \<Rightarrow> account_info \<Rightarrow> 'x of_world \<Rightarrow> of_err + 'x of_world" where
  "init_counter env payer a w =
     bindE (require (of_counters w (ai_key a) = None) (OfRuntime (Anchor CreateAccountFailed))) (\<lambda>_.
     bindE (ok_or (env_create_account env (ai_key payer) (ai_key a) (8 + 8 + 32)
              (foreign (of_photon w))) (OfRuntime (Anchor CreateAccountFailed))) (\<lambda>x.
     bindE (rt (check_mut a)) (\<lambda>_.
     Inr (w\<lparr>of_counters := (of_counters w)(ai_key a := Some counter_default),
            of_photon := (of_photon w)\<lparr>foreign := x\<rparr>\<rparr>))))"

definition load_counter :: "'x of_world \<Rightarrow> account_info \<Rightarrow> of_err + counter" where
  "load_counter w a = ok_or (of_counters w (ai_key a)) (OfRuntime (Anchor AccountNotInitialized))"

definition put_counter :: "account_info \<Rightarrow> counter \<Rightarrow> 'x of_world \<Rightarrow> 'x of_world" where
  "put_counter a c w = w\<lparr>of_counters := (of_counters w)(ai_key a := Some c)\<rparr>"

subsection \<open>Instructions\<close>

record of_initialize_accs =
  oin_owner :: account_info
  oin_call_authority :: account_info
  oin_counter :: account_info
  oin_system_program :: account_info

definition onefunc_initialize ::
    "'x env \<Rightarrow> bytes \<Rightarrow> of_initialize_accs \<Rightarrow> 'x of_world \<Rightarrow> of_err + 'x of_world" where
  "onefunc_initialize env pid a w =
     bindE (rt (check_signer (oin_owner a))) (\<lambda>_.
     bindE (rt (check_program (env_system_program env) (oin_system_program a))) (\<lambda>_.
     bindE (of_seeds env pid [str ''COUNTER''] (oin_counter a)) (\<lambda>_.
     bindE (init_counter env (oin_owner a) (oin_counter a) w) (\<lambda>w'.
     bindE (rt (check_mut (oin_owner a))) (\<lambda>_.
     bindE (load_counter w' (oin_counter a)) (\<lambda>c.
     Inr (put_counter (oin_counter a)
            (c\<lparr>counter_call_authority := ai_key (oin_call_authority a)\<rparr>) w')))))))"

record of_init_owned_accs =
  oio_executor :: account_info
  oio_call_authority :: account_info
  oio_op_info :: account_info
  oio_counter_owner :: account_info
  oio_owned_counter :: account_info
  oio_system_program :: account_info

definition init_owned_counter ::
    "'x env \<Rightarrow> bytes \<Rightarrow> of_init_owned_accs \<Rightarrow> 'x of_world \<Rightarrow> of_err + 'x of_world" where
  "init_owned_counter env pid a w =
     bindE (rt (check_signer (oio_executor a))) (\<lambda>_.
     bindE (rt (check_signer (oio_call_authority a))) (\<lambda>_.
     bindE (rt (load_op (of_photon w) (oio_op_info a))) (\<lambda>_.
     bindE (rt (check_signer (oio_counter_owner a))) (\<lambda>_.
     bindE (rt (check_program (env_system_program env) (oio_system_program a))) (\<lambda>_.
     bindE (of_seeds env pid [str ''COUNTER'', ai_key (oio_counter_owner a)] (oio_owned_counter a)) (\<lambda>_.
     bindE (init_counter env (oio_executor a) (oio_owned_counter a) w) (\<lambda>w'.
     bindE (rt (check_mut (oio_executor a))) (\<lambda>_.
     bindE (load_counter w' (oio_owned_counter a)) (\<lambda>c.
     Inr (put_counter (oio_owned_counter a)
            (c\<lparr>counter_call_authority := ai_key (oio_call_authority a)\<rparr>) w'))))))))))"

text \<open>The \<^verbatim>\<open>expect\<close>s and \<^verbatim>\<open>as_u64\<close> of \<^verbatim>\<open>decode_increment_item\<close> panic.\<close>

definition decode_increment_item :: "'x env \<Rightarrow> bytes \<Rightarrow> of_err + u64" where
  "decode_increment_item env params =
     bindE (ok_or (env_abi_decode env [PT_Uint 256] params) (OfRuntime (Panic ExpectFailed))) (\<lambda>ts.
     (case ts of
        [] \<Rightarrow> Inl (OfRuntime (Panic ExpectFailed))
      | t # _ \<Rightarrow>
          bindE (ok_or (into_uint t) (OfRuntime (Panic ExpectFailed))) (\<lambda>n. rt (as_u64 n))))"

definition add_count :: "counter \<Rightarrow> u64 \<Rightarrow> of_err + counter" where
  "add_count c n =
     bindE (ok_or (checked_add (counter_count c) n) (OfRuntime (Panic ArithmeticOverflow))) (\<lambda>m.
       Inr (c\<lparr>counter_count := m\<rparr>))"

record of_increment_accs =
  oic_executor :: account_info
  oic_call_authority :: account_info
  oic_op_info :: account_info
  oic_counter :: account_info

definition increment ::
    "'x env \<Rightarrow> bytes \<Rightarrow> of_increment_accs \<Rightarrow> bytes \<Rightarrow> 'x of_world \<Rightarrow> of_err + 'x of_world" where
  "increment env pid a params w =
     bindE (rt (check_signer (oic_executor a))) (\<lambda>_.
     bindE (rt (check_signer (oic_call_authority a))) (\<lambda>_.
     bindE (rt (load_op (of_photon w) (oic_op_info a))) (\<lambda>_.
     bindE (load_counter w (oic_counter a)) (\<lambda>c.
     bindE (rt (check_mut (oic_executor a))) (\<lambda>_.
     bindE (require (ai_key (oic_call_authority a) = counter_call_authority c)
              (OfRuntime (Anchor ConstraintRaw))) (\<lambda>_.
     bindE (of_seeds env pid [str ''COUNTER''] (oic_counter a)) (\<lambda>_.
     bindE (rt (check_mut (oic_counter a))) (\<lambda>_.
     bindE (decode_increment_item env params) (\<lambda>n.
     bindE (add_count c n) (\<lambda>c'.
     Inr (put_counter (oic_counter a) c' w)))))))))))"

record of_failed_accs =
  otf_executor :: account_info
  otf_call_authority :: account_info
  otf_op_info :: account_info

definition to_be_failed :: "of_failed_accs \<Rightarrow> 'x of_world \<Rightarrow> of_err + 'x of_world" where
  "to_be_failed a w =
     bindE (rt (check_signer (otf_executor a))) (\<lambda>_.
     bindE (rt (check_signer (otf_call_authority a))) (\<lambda>_.
     bindE (rt (load_op (of_photon w) (otf_op_info a))) (\<lambda>_.
     bindE (rt (check_mut (otf_executor a))) (\<lambda>_.
     bindE (require False (OfCustom InvalidParams)) (\<lambda>_. Inr w)))))"

record of_owned_accs =
  oow_executor :: account_info
  oow_call_authority :: account_info
  oow_op_info :: account_info
  oow_counter_owner :: account_info
  oow_counter :: account_info

definition increment_owned_counter ::
    "'x env \<Rightarrow> bytes \<Rightarrow> of_owned_accs \<Rightarrow> bytes \<Rightarrow> 'x of_world \<Rightarrow> of_err + 'x of_world" where
  "increment_owned_counter env pid a params w =
     bindE (rt (check_signer (oow_executor a))) (\<lambda>_.
     bindE (rt (check_signer (oow_call_authority a))) (\<lambda>_.
     bindE (rt (load_op (of_photon w) (oow_op_info a))) (\<lambda>_.
     bindE (rt (check_signer (oow_counter_owner a))) (\<lambda>_.
     bindE (load_counter w (oow_counter a)) (\<lambda>c.
     bindE (rt (check_mut (oow_executor a))) (\<lambda>_.
     bindE (of_seeds env pid [str ''COUNTER'', ai_key (oow_counter_owner a)] (oow_counter a)) (\<lambda>_.
     bindE (rt (check_mut (oow_counter a))) (\<lambda>_.
     bindE (require (ai_key (oow_call_authority a) = counter_call_authority c)
              (OfRuntime (Anchor ConstraintRaw))) (\<lambda>_.
     bindE (decode_increment_item env params) (\<lambda>n.
     bindE (add_count c n) (\<lambda>c'.
     Inr (put_counter (oow_counter a) c' w))))))))))))"

record of_propose_accs =
  opp_owner :: account_info
  opp_photon_program :: account_info
  opp_config :: account_info
  opp_protocol_info :: account_info
  opp_proposer :: account_info
  opp_system_program :: account_info

text \<open>
  The checks of \<^verbatim>\<open>ProposeToOtherChain\<close>, then the cross-program call of \<open>propose\<close>, in which the proposer
  address counts as a signer.
\<close>

definition propose_accounts_of ::
    "'x env \<Rightarrow> bytes \<Rightarrow> of_propose_accs \<Rightarrow> 'x of_world \<Rightarrow> of_err + 'x of_world" where
  "propose_accounts_of env pid a w =
     bindE (rt (check_signer (opp_owner a))) (\<lambda>_.
     bindE (rt (check_program (env_photon_id env) (opp_photon_program a))) (\<lambda>_.
     bindE (rt (check_program (env_system_program env) (opp_system_program a))) (\<lambda>_.
     bindE (of_seeds env pid [ROOT, str ''PROPOSER''] (opp_proposer a)) (\<lambda>_.
     bindE (if of_proposer w (ai_key (opp_proposer a)) then Inr (foreign (of_photon w))
            else ok_or (env_create_account env (ai_key (opp_owner a)) (ai_key (opp_proposer a)) 0
                   (foreign (of_photon w))) (OfRuntime (Anchor CreateAccountFailed))) (\<lambda>x.
     bindE (rt (check_mut (opp_proposer a))) (\<lambda>_.
     bindE (rt (check_mut (opp_owner a))) (\<lambda>_.
     bindE (rt (check_mut (opp_config a))) (\<lambda>_.
     Inr (w\<lparr>of_proposer := (of_proposer w)(ai_key (opp_proposer a) := True),
            of_photon := (of_photon w)\<lparr>foreign := x\<rparr>\<rparr>)))))))))"

definition propose_cpi ::
    "'x env \<Rightarrow> of_propose_accs \<Rightarrow> function_selector \<Rightarrow> 'x of_world \<Rightarrow> of_err + 'x of_world" where
  "propose_cpi env a sel w =
     bindE (rt (propose env
              \<lparr>pp_proposer = (opp_proposer a)\<lparr>ai_is_signer := True\<rparr>, pp_config = opp_config a,
               pp_protocol_info = opp_protocol_info a\<rparr>
              PROTOCOL_ID 33133 (replicate 20 1) sel (str ''an arbitrary data'') (of_photon w))) (\<lambda>p.
     Inr (w\<lparr>of_photon := p\<rparr>))"

definition propose_to_other_chain ::
    "'x env \<Rightarrow> bytes \<Rightarrow> of_propose_accs \<Rightarrow> 'x of_world \<Rightarrow> of_err + 'x of_world" where
  "propose_to_other_chain env pid a w =
     bindE (propose_accounts_of env pid a w)
       (propose_cpi env a (ByName (str ''ask1234mkl;1mklasdfasm;lkasdmf__'')))"

definition propose_to_other_chain_big_selector ::
    "'x env \<Rightarrow> bytes \<Rightarrow> of_propose_accs \<Rightarrow> 'x of_world \<Rightarrow> of_err + 'x of_world" where
  "propose_to_other_chain_big_selector env pid a w =
     bindE (propose_accounts_of env pid a w) (propose_cpi env a (ByCode (replicate 33 1)))"

definition onefunc_receive_photon_msg ::
    "account_info \<Rightarrow> bytes \<Rightarrow> bytes \<Rightarrow> bytes \<Rightarrow> 'x of_world \<Rightarrow> of_err + 'x of_world" where
  "onefunc_receive_photon_msg executor h code params w =
     bindE (rt (check_signer executor)) (\<lambda>_. bindE (rt (check_mut executor)) (\<lambda>_. Inr w))"

subsection \<open>Properties\<close>

lemma rt_eq_Inr [result_simps]: "rt m = Inr x \<longleftrightarrow> m = Inr x"
  by (simp add: rt_def result_simps)

lemma of_seeds_Inr [result_simps]:
  "of_seeds env pid seeds a = Inr b \<longleftrightarrow> env_find_pda env seeds pid = Some (ai_key a, b)"
  by (auto simp: of_seeds_def result_simps split: prod.splits)

text \<open>A proposal of the example protocol through the endpoint emits exactly one proposal with the
  protocol's id and its 32-character selector printed with its length; the same call with a
  33-byte selector never succeeds, whatever the accounts and the world.\<close>

theorem onefunc_proposals:
  "(propose_to_other_chain env pid a w = Inr w' \<longrightarrow>
      (\<exists>pe. events (of_photon w') = events (of_photon w) @ [ProposeEvent pe]
         \<and> pe_protocol_id pe = PROTOCOL_ID \<and> pe_dst_chain_id pe = 33133
         \<and> pe_function_selector pe = [1, 32] @ str ''ask1234mkl;1mklasdfasm;lkasdmf__'')
      \<and> of_counters w' = of_counters w)
   \<and> propose_to_other_chain_big_selector env pid a w \<noteq> Inr w'"
proof (intro conjI impI)
  assume p: "propose_to_other_chain env pid a w = Inr w'"
  then obtain w1 where w1: "propose_accounts_of env pid a w = Inr w1"
      and c: "propose_cpi env a (ByName (str ''ask1234mkl;1mklasdfasm;lkasdmf__'')) w1 = Inr w'"
    by (auto simp: propose_to_other_chain_def result_simps)
  from w1 have e: "events (of_photon w1) = events (of_photon w)" "of_counters w1 = of_counters w"
    by (auto simp: propose_accounts_of_def result_simps)
  from c obtain p where pr: "propose env
       \<lparr>pp_proposer = (opp_proposer a)\<lparr>ai_is_signer := True\<rparr>, pp_config = opp_config a,
        pp_protocol_info = opp_protocol_info a\<rparr>
       PROTOCOL_ID 33133 (replicate 20 1) (ByName (str ''ask1234mkl;1mklasdfasm;lkasdmf__''))
       (str ''an arbitrary data'') (of_photon w1) = Inr p" and w': "w' = w1\<lparr>of_photon := p\<rparr>"
    by (auto simp: propose_cpi_def result_simps)
  from propose_effect [OF pr] e w'
  show "\<exists>pe. events (of_photon w') = events (of_photon w) @ [ProposeEvent pe]
         \<and> pe_protocol_id pe = PROTOCOL_ID \<and> pe_dst_chain_id pe = 33133
         \<and> pe_function_selector pe = [1, 32] @ str ''ask1234mkl;1mklasdfasm;lkasdmf__''"
    by fastforce
  show "of_counters w' = of_counters w" using e w' by simp
next
  show "propose_to_other_chain_big_selector env pid a w \<noteq> Inr w'"
    by (auto simp: propose_to_other_chain_big_selector_def propose_cpi_def result_simps
        dest!: propose_effect)
qed

definition of_accs_1 :: of_propose_accs where
  "of_accs_1 = \<lparr>opp_owner = signer_acc (key 2), opp_photon_program = mut_acc (replicate 32 7),
     opp_config = mut_acc config_key, opp_protocol_info = mut_acc (ROOT @ str ''PROTOCOL'' @ PROTOCOL_ID),
     opp_proposer = mut_acc (ROOT @ str ''PROPOSER''), opp_system_program = mut_acc (key 9)\<rparr>"

definition of_world_1 :: "unit of_world" where
  "of_world_1 = \<lparr>of_counters = (\<lambda>_. None), of_proposer = (\<lambda>_. False), of_photon =
     w_init\<lparr>accounts := (accounts w_init)(ROOT @ str ''PROTOCOL'' @ PROTOCOL_ID \<mapsto>
       AProtocol (gov_info_1\<lparr>pi_proposers := (ROOT @ str ''PROPOSER'') # replicate 19 pubkey_default\<rparr>))\<rparr>\<rparr>"

lemma onefunc_key_neq [simp]: "config_key \<noteq> ROOT @ str ''PROTOCOL'' @ PROTOCOL_ID"
  "ROOT @ str ''PROTOCOL'' @ PROTOCOL_ID \<noteq> config_key"
  by (simp_all add: config_key_def str_def del: seeds_simps)

theorem onefunc_proposals_witness:
  "case propose_to_other_chain sample_env (key 10) of_accs_1 of_world_1 of
     Inr w' \<Rightarrow> length (events (of_photon w')) = 1 | Inl e \<Rightarrow> False"
proof -
  have "\<exists>w'. propose_to_other_chain sample_env (key 10) of_accs_1 of_world_1 = Inr w'"
    by (simp add: propose_to_other_chain_def propose_accounts_of_def of_accs_1_def of_world_1_def rt_def
        of_seeds_def run_simps propose_cpi_def propose_def propose_accounts_def
        checked_add_def w_init_def config_1_def key_def)
  then obtain w' where w: "propose_to_other_chain sample_env (key 10) of_accs_1 of_world_1 = Inr w'"
    by blast
  from onefunc_proposals [of sample_env "key 10" of_accs_1 of_world_1 w'] w show ?thesis
    by (auto simp: of_world_1_def w_init_def)
qed

end
