(* ===== verification/Ix_Compiler.thy ===== *)
theory Ix_Compiler
  imports Photon_State
begin

section \<open>Packing instructions into transactions\<close>

text \<open>
  \<^verbatim>\<open>solana-transactor/src/ix_compiler.rs\<close>, the errors of \<^verbatim>\<open>error.rs\<close> and the compiling half of
  \<^verbatim>\<open>Transactor::send_all_instructions\<close>: instructions are buffered while the message they make stays
  within the size and compute limits, and the buffer is sent when it gets close to them.
  \<^verbatim>\<open>Message::try_compile\<close> and the serialised length of a message belong to the Solana SDK and are the
  fields of \<open>compiler_env\<close>. What the packing relies on is \<open>compiler_ok\<close>: a message holds the
  instructions it was compiled from, and the value of the compute unit limit, a four-byte field of
  its instruction, changes neither whether a message compiles nor how long it is.
\<close>

datatype transactor_error =
    NoReadRpcs
  | NoWriteRpcs
  | InvalidRpc string
  | EmptyBundle
  | ClientError string
  | InstructionError string
  | FailedToSign string
  | FailedToCompile string
  | InstructionTooBig

datatype tx_fault = TxErr transactor_error | TxPanic panic

text \<open>The two compute budget instructions of the SDK, and any other instruction.\<close>

datatype tx_ix =
    SetComputeUnitLimit u32
  | SetComputeUnitPrice u64
  | Ix instruction

record alt_account =
  alt_key :: bytes
  alt_addresses :: "bytes list"

record 'm compiler_env =
  try_compile :: "bytes \<Rightarrow> tx_ix list \<Rightarrow> alt_account list \<Rightarrow> string + 'm"
  msg_len :: "'m \<Rightarrow> nat"

definition MAX_CU :: u32 where "MAX_CU = 1400000"
definition MAX_MSG_LEN :: nat where "MAX_MSG_LEN = 1232 - 65"

record instruction_bundle =
  ib_instruction :: instruction
  ib_compute_units :: u32

record ix_compiler =
  ix_buffer :: "instruction list"
  total_compute_units :: u32
  ic_payer :: bytes
  ic_alts :: "alt_account list"
  compute_units_price :: "u64 option"

definition ix_compiler_new :: "bytes \<Rightarrow> u64 option \<Rightarrow> ix_compiler" where
  "ix_compiler_new payer price =
     \<lparr>ix_buffer = [], total_compute_units = 0, ic_payer = payer, ic_alts = [],
      compute_units_price = price\<rparr>"

definition set_cu_price :: "u64 option \<Rightarrow> ix_compiler \<Rightarrow> ix_compiler" where
  "set_cu_price price c = c\<lparr>compute_units_price := price\<rparr>"

definition get_ix_price_if_any :: "ix_compiler \<Rightarrow> tx_ix list" where
  "get_ix_price_if_any c =
     (case compute_units_price c of None \<Rightarrow> [] | Some p \<Rightarrow> [SetComputeUnitPrice p])"

definition get_compute_units_ix :: "u32 \<Rightarrow> tx_ix" where
  "get_compute_units_ix cu = SetComputeUnitLimit cu"

definition exceeds_limits :: "nat \<Rightarrow> u32 \<Rightarrow> bool" where
  "exceeds_limits len cu \<longleftrightarrow> len > MAX_MSG_LEN \<or> cu > MAX_CU"

definition approaches_limits :: "nat \<Rightarrow> u32 \<Rightarrow> bool" where
  "approaches_limits len cu \<longleftrightarrow> len \<ge> MAX_MSG_LEN - 32 \<or> cu \<ge> MAX_CU - 200000"

text \<open>\<^verbatim>\<open>Message::try_compile(...)?\<close> of a limit, the price and a list of instructions.\<close>

definition compile_msg ::
    "'m compiler_env \<Rightarrow> ix_compiler \<Rightarrow> u32 \<Rightarrow> instruction list \<Rightarrow> alt_account list
     \<Rightarrow> tx_fault + 'm" where
  "compile_msg env c cu ixs alts =
     map_err (\<lambda>e. TxErr (FailedToCompile e))
       (try_compile env (ic_payer c)
          ([get_compute_units_ix cu] @ get_ix_price_if_any c @ List.map Ix ixs) alts)"

definition compile ::
    "'m compiler_env \<Rightarrow> instruction \<Rightarrow> alt_account list \<Rightarrow> u32 \<Rightarrow> ix_compiler
     \<Rightarrow> tx_fault + 'm option \<times> ix_compiler" where
  "compile env ix alts cu c =
     bindE (compile_msg env c cu [ix] alts) (\<lambda>single.
     if exceeds_limits (msg_len env single) cu then Inl (TxErr InstructionTooBig)
     else
       bindE (ok_or (checked_add (total_compute_units c) cu) (TxPanic ArithmeticOverflow)) (\<lambda>total.
       bindE (compile_msg env c total (ix_buffer c @ [ix]) (ic_alts c @ alts)) (\<lambda>msg.
       if exceeds_limits (msg_len env msg) total then
         bindE (compile_msg env c (total_compute_units c) (ix_buffer c) (ic_alts c)) (\<lambda>prev.
         Inr (Some prev,
              c\<lparr>ix_buffer := [ix], ic_alts := alts, total_compute_units := cu\<rparr>))
       else if approaches_limits (msg_len env msg) total then
         Inr (Some msg, c\<lparr>ix_buffer := [], ic_alts := [], total_compute_units := 0\<rparr>)
       else
         bindE (ok_or (checked_add (total_compute_units c) total) (TxPanic ArithmeticOverflow)) (\<lambda>total'.
         Inr (None,
              c\<lparr>ix_buffer := ix_buffer c @ [ix], ic_alts := ic_alts c @ alts,
                total_compute_units := total'\<rparr>)))))"

definition ix_flush :: "'m compiler_env \<Rightarrow> ix_compiler \<Rightarrow> tx_fault + 'm option \<times> ix_compiler" where
  "ix_flush env c =
     (if ix_buffer c = [] then Inr (None, c)
      else
        bindE (compile_msg env c (total_compute_units c) (ix_buffer c) (ic_alts c)) (\<lambda>msg.
        Inr (Some msg, c\<lparr>ix_buffer := [], ic_alts := [], total_compute_units := 0\<rparr>)))"

text \<open>
  The compiling half of \<^verbatim>\<open>send_all_instructions\<close>: \<^verbatim>\<open>filter_map\<close> with \<^verbatim>\<open>transpose\<close> keeps the messages
  and the first error, then the rest of the buffer is flushed.
\<close>

fun compile_each ::
    "'m compiler_env \<Rightarrow> alt_account list \<Rightarrow> instruction_bundle list \<Rightarrow> ix_compiler
     \<Rightarrow> tx_fault + 'm list \<times> ix_compiler" where
  "compile_each env alts [] c = Inr ([], c)"
| "compile_each env alts (b # bs) c =
     bindE (compile env (ib_instruction b) alts (ib_compute_units b) c) (\<lambda>(m, c').
     bindE (compile_each env alts bs c') (\<lambda>(ms, c'').
     Inr ((case m of None \<Rightarrow> ms | Some x \<Rightarrow> x # ms), c'')))"

definition compile_all ::
    "'m compiler_env \<Rightarrow> bytes \<Rightarrow> u64 option \<Rightarrow> alt_account list \<Rightarrow> instruction_bundle list
     \<Rightarrow> tx_fault + 'm list" where
  "compile_all env payer price alts bs =
     bindE (compile_each env alts bs (ix_compiler_new payer price)) (\<lambda>(ms, c).
     bindE (ix_flush env c) (\<lambda>(m, c').
     Inr (case m of None \<Rightarrow> ms | Some x \<Rightarrow> ms @ [x])))"

subsection \<open>What the packing relies on\<close>

definition compiler_ok :: "'m compiler_env \<Rightarrow> ('m \<Rightarrow> tx_ix list) \<Rightarrow> bool" where
  "compiler_ok env ixs_of \<longleftrightarrow>
     (\<forall>p ixs alts m. try_compile env p ixs alts = Inr m \<longrightarrow> ixs_of m = ixs) \<and>
     (\<forall>p a b ixs alts m.
        try_compile env p (SetComputeUnitLimit a # ixs) alts = Inr m \<longrightarrow>
        (\<exists>m'. try_compile env p (SetComputeUnitLimit b # ixs) alts = Inr m' \<and>
              msg_len env m' = msg_len env m))"

text \<open>A message that carries a run of bundles: its contents, size and compute limit.\<close>

definition carries ::
    "'m compiler_env \<Rightarrow> ('m \<Rightarrow> tx_ix list) \<Rightarrow> tx_ix list \<Rightarrow> instruction_bundle list \<Rightarrow> 'm \<Rightarrow> bool" where
  "carries env ixs_of price seg m \<longleftrightarrow>
     seg \<noteq> [] \<and> msg_len env m \<le> MAX_MSG_LEN \<and>
     (\<exists>limit. ixs_of m =
                SetComputeUnitLimit limit # price @ List.map (\<lambda>b. Ix (ib_instruction b)) seg \<and>
              (\<Sum>b\<leftarrow>seg. unat (ib_compute_units b)) \<le> unat limit)"

text \<open>The compiler's invariant: \<open>seg\<close> is the run of bundles in the buffer.\<close>

definition ic_inv ::
    "'m compiler_env \<Rightarrow> bytes \<Rightarrow> u64 option \<Rightarrow> instruction_bundle list \<Rightarrow> ix_compiler \<Rightarrow> bool" where
  "ic_inv env payer price seg c \<longleftrightarrow>
     ic_payer c = payer \<and> compute_units_price c = price \<and>
     ix_buffer c = List.map ib_instruction seg \<and>
     (\<Sum>b\<leftarrow>seg. unat (ib_compute_units b)) \<le> unat (total_compute_units c) \<and>
     unat (total_compute_units c) < 2400000 \<and>
     (if seg = [] then total_compute_units c = 0 \<and> ic_alts c = []
      else \<exists>k m. compile_msg env c k (ix_buffer c) (ic_alts c) = Inr m \<and> msg_len env m \<le> MAX_MSG_LEN)"

subsection \<open>The invariant is kept\<close>

lemma compile_msg_cong:
  "ic_payer c = ic_payer c' \<Longrightarrow> compute_units_price c = compute_units_price c' \<Longrightarrow>
   compile_msg env c cu ixs alts = compile_msg env c' cu ixs alts"
  by (simp add: compile_msg_def get_ix_price_if_any_def)

lemma compile_msg_limit:
  assumes "compiler_ok env ixs_of" "compile_msg env c a ixs alts = Inr m"
  obtains m' where "compile_msg env c b ixs alts = Inr m'" "msg_len env m' = msg_len env m"
  using assms unfolding compiler_ok_def compile_msg_def get_compute_units_ix_def map_err_eq_Inr
  by (metis append_Cons append_Nil)

lemma compile_msg_contents:
  assumes "compiler_ok env ixs_of" "compile_msg env c a ixs alts = Inr m"
  shows "ixs_of m = SetComputeUnitLimit a # get_ix_price_if_any c @ List.map Ix ixs"
  using assms by (simp add: compiler_ok_def compile_msg_def get_compute_units_ix_def map_err_eq_Inr)

lemma carriesI:
  assumes "compiler_ok env ixs_of" "compile_msg env c k (List.map ib_instruction seg) alts = Inr m"
    "seg \<noteq> []" "msg_len env m \<le> MAX_MSG_LEN" "(\<Sum>b\<leftarrow>seg. unat (ib_compute_units b)) \<le> unat k"
  shows "carries env ixs_of (get_ix_price_if_any c) seg m"
  using compile_msg_contents [OF assms(1,2)] assms(3-) by (simp add: carries_def comp_def)

text \<open>The buffer of a state that satisfies the invariant can always be sent.\<close>

lemma ic_inv_sends:
  assumes "compiler_ok env ixs_of" "ic_inv env payer price seg c" "seg \<noteq> []"
  obtains m where "compile_msg env c (total_compute_units c) (ix_buffer c) (ic_alts c) = Inr m"
    "carries env ixs_of (get_ix_price_if_any c) seg m"
proof -
  obtain k m where m: "compile_msg env c k (ix_buffer c) (ic_alts c) = Inr m"
      "msg_len env m \<le> MAX_MSG_LEN"
    using assms(2,3) by (auto simp: ic_inv_def)
  obtain m' where m': "compile_msg env c (total_compute_units c) (ix_buffer c) (ic_alts c) = Inr m'"
      "msg_len env m' = msg_len env m"
    using compile_msg_limit [OF assms(1) m(1)] by blast
  with m assms show ?thesis
    by (intro that [OF m'(1)] carriesI [where alts = "ic_alts c"]) (auto simp: ic_inv_def)
qed

lemma ic_inv_new: "ic_inv env payer price [] (ix_compiler_new payer price)"
  by (simp add: ic_inv_def ix_compiler_new_def)

lemma ic_inv_single:
  assumes "ic_inv env payer price seg c" "compile_msg env c k [ib_instruction b] alts = Inr m"
    "\<not> exceeds_limits (msg_len env m) (ib_compute_units b)"
  shows "ic_inv env payer price [b]
           (c\<lparr>ix_buffer := [ib_instruction b], ic_alts := alts,
              total_compute_units := ib_compute_units b\<rparr>)"
  using assms unfolding ic_inv_def
  by (auto simp: exceeds_limits_def MAX_CU_def word_le_nat_alt not_less compile_msg_def
      get_ix_price_if_any_def intro!: exI)

lemma ic_inv_push:
  assumes "ic_inv env payer price seg c"
    "compile_msg env c k (ix_buffer c @ [ib_instruction b]) (ic_alts c @ alts) = Inr m"
    "checked_add (total_compute_units c) (ib_compute_units b) = Some tot"
    "checked_add (total_compute_units c) tot = Some tot'"
    "\<not> exceeds_limits (msg_len env m) tot" "\<not> approaches_limits (msg_len env m) tot"
  shows "ic_inv env payer price (seg @ [b])
           (c\<lparr>ix_buffer := ix_buffer c @ [ib_instruction b], ic_alts := ic_alts c @ alts,
              total_compute_units := tot'\<rparr>)"
proof -
  have "unat tot < 1200000"
    using assms(6) by (simp add: approaches_limits_def MAX_CU_def word_le_nat_alt not_le)
  then show ?thesis
    using assms checked_add_Some [OF assms(3)] checked_add_Some [OF assms(4)] unfolding ic_inv_def
    by (auto simp: exceeds_limits_def not_less compile_msg_def get_ix_price_if_any_def intro!: exI)
qed

text \<open>With an empty buffer the second message is the first one, so it cannot be over the limit.\<close>

lemma empty_buffer_fits:
  assumes "ic_inv env payer price [] c" "compile_msg env c cu [ix] alts = Inr m1"
    "checked_add (total_compute_units c) cu = Some tot"
    "compile_msg env c tot (ix_buffer c @ [ix]) (ic_alts c @ alts) = Inr m2"
    "\<not> exceeds_limits (msg_len env m1) cu"
  shows "\<not> exceeds_limits (msg_len env m2) tot"
  using assms by (simp add: ic_inv_def checked_add_Some_iff)

lemma compile_step:
  assumes ok: "compiler_ok env ixs_of" and inv: "ic_inv env payer price seg c"
    and run: "compile env (ib_instruction b) alts (ib_compute_units b) c = Inr (out, c')"
  shows "\<exists>sent seg'. seg @ [b] = sent @ seg' \<and> ic_inv env payer price seg' c' \<and>
           (case out of None \<Rightarrow> sent = [] | Some m \<Rightarrow> carries env ixs_of (get_ix_price_if_any c) sent m)"
proof -
  let ?ix = "ib_instruction b" and ?cu = "ib_compute_units b"
  obtain m1 tot m2 where
    m1: "compile_msg env c ?cu [?ix] alts = Inr m1" "\<not> exceeds_limits (msg_len env m1) ?cu" and
    tot: "checked_add (total_compute_units c) ?cu = Some tot" and
    m2: "compile_msg env c tot (ix_buffer c @ [?ix]) (ic_alts c @ alts) = Inr m2"
    using run by (auto simp: compile_def result_simps split: if_splits)
  consider (over) "exceeds_limits (msg_len env m2) tot"
    | (close) "\<not> exceeds_limits (msg_len env m2) tot" "approaches_limits (msg_len env m2) tot"
    | (push) "\<not> exceeds_limits (msg_len env m2) tot" "\<not> approaches_limits (msg_len env m2) tot"
    by blast
  then show ?thesis
  proof cases
    case over
    then have "seg \<noteq> []" using empty_buffer_fits [OF _ m1(1) tot m2 m1(2)] inv by auto
    then obtain m where "compile_msg env c (total_compute_units c) (ix_buffer c) (ic_alts c) = Inr m"
        "carries env ixs_of (get_ix_price_if_any c) seg m"
      using ic_inv_sends [OF ok inv] by metis
    then show ?thesis
      using run over m1 tot m2 ic_inv_single [OF inv m1]
      by (intro exI [of _ seg] exI [of _ "[b]"]) (auto simp: compile_def)
  next
    case close
    then have "carries env ixs_of (get_ix_price_if_any c) (seg @ [b]) m2"
      using inv m2 checked_add_Some [OF tot]
      by (intro carriesI [OF ok, where k = tot and alts = "ic_alts c @ alts"])
        (auto simp: ic_inv_def exceeds_limits_def not_less)
    then show ?thesis
      using run close m1 tot m2 inv
      by (intro exI [of _ "seg @ [b]"] exI [of _ "[]"]) (auto simp: compile_def ic_inv_def)
  next
    case push
    then obtain tot' where "checked_add (total_compute_units c) tot = Some tot'"
        "out = None"
        "c' = c\<lparr>ix_buffer := ix_buffer c @ [?ix], ic_alts := ic_alts c @ alts,
                total_compute_units := tot'\<rparr>"
      using run m1 tot m2 by (auto simp: compile_def result_simps)
    then show ?thesis
      using ic_inv_push [OF inv m2 tot _ push]
      by (intro exI [of _ "[]"] exI [of _ "seg @ [b]"]) simp
  qed
qed

lemma compile_keeps_config:
  "compile env ix alts cu c = Inr (out, c') \<Longrightarrow>
   ic_payer c' = ic_payer c \<and> compute_units_price c' = compute_units_price c"
  by (auto simp: compile_def result_simps split: if_splits)

lemma compile_each_packs:
  assumes "compiler_ok env ixs_of" "ic_inv env payer price seg c"
    "compile_each env alts bs c = Inr (ms, c')"
  shows "\<exists>sents seg'. seg @ bs = concat sents @ seg' \<and> ic_inv env payer price seg' c' \<and>
           get_ix_price_if_any c' = get_ix_price_if_any c \<and>
           list_all2 (carries env ixs_of (get_ix_price_if_any c)) sents ms"
  using assms(2,3)
proof (induction bs arbitrary: c seg ms)
  case Nil
  then show ?case by (intro exI [of _ "[]"] exI [of _ seg]) simp
next
  case (Cons b bs)
  obtain out c1 ms1 where step: "compile env (ib_instruction b) alts (ib_compute_units b) c = Inr (out, c1)"
      and rest: "compile_each env alts bs c1 = Inr (ms1, c')"
      and ms: "ms = (case out of None \<Rightarrow> ms1 | Some x \<Rightarrow> x # ms1)"
    using Cons.prems(2) by (auto simp: result_simps)
  obtain sent seg1 where s1: "seg @ [b] = sent @ seg1" "ic_inv env payer price seg1 c1"
      "case out of None \<Rightarrow> sent = [] | Some m \<Rightarrow> carries env ixs_of (get_ix_price_if_any c) sent m"
    using compile_step [OF assms(1) Cons.prems(1) step] by blast
  have price: "get_ix_price_if_any c1 = get_ix_price_if_any c"
    using compile_keeps_config [OF step] by (simp add: get_ix_price_if_any_def)
  obtain sents seg2 where s2: "seg1 @ bs = concat sents @ seg2" "ic_inv env payer price seg2 c'"
      "get_ix_price_if_any c' = get_ix_price_if_any c"
      "list_all2 (carries env ixs_of (get_ix_price_if_any c)) sents ms1"
    using Cons.IH [OF s1(2) rest] price by auto
  have whole: "seg @ b # bs = sent @ concat sents @ seg2"
    using s1(1) s2(1) by (metis append.assoc append_Cons append_Nil)
  show ?case
    using s1(3) s2 whole ms
    by (cases out) (intro exI [of _ "case out of None \<Rightarrow> sents | Some _ \<Rightarrow> sent # sents"] exI [of _ seg2]; simp)+
qed

lemma ix_flush_packs:
  assumes "compiler_ok env ixs_of" "ic_inv env payer price seg c"
  shows "\<exists>out c'. ix_flush env c = Inr (out, c') \<and>
           (case out of None \<Rightarrow> seg = [] | Some m \<Rightarrow> carries env ixs_of (get_ix_price_if_any c) seg m)"
proof (cases "seg = []")
  case True
  then show ?thesis using assms by (simp add: ix_flush_def ic_inv_def)
next
  case False
  then have "ix_buffer c \<noteq> []" using assms by (simp add: ic_inv_def)
  moreover obtain m where "compile_msg env c (total_compute_units c) (ix_buffer c) (ic_alts c) = Inr m"
      "carries env ixs_of (get_ix_price_if_any c) seg m"
    using ic_inv_sends [OF assms False] .
  ultimately show ?thesis by (simp add: ix_flush_def)
qed

lemma compile_all_runs:
  assumes "compiler_ok env ixs_of"
    and "compile_all env payer price alts bs = Inr ms"
  shows "\<exists>runs. concat runs = bs \<and>
           list_all2 (carries env ixs_of (case price of None \<Rightarrow> [] | Some p \<Rightarrow> [SetComputeUnitPrice p]))
             runs ms"
proof -
  obtain ms1 c where each: "compile_each env alts bs (ix_compiler_new payer price) = Inr (ms1, c)"
    and rest: "bindE (ix_flush env c) (\<lambda>(m, c').
                 Inr (case m of None \<Rightarrow> ms1 | Some x \<Rightarrow> ms1 @ [x])) = Inr ms"
    using assms(2) by (auto simp: compile_all_def bindE_eq_Inr [where m = "compile_each _ _ _ _"])
  define pr where "pr = get_ix_price_if_any c"
  obtain runs seg where r: "bs = concat runs @ seg" "ic_inv env payer price seg c"
      "list_all2 (carries env ixs_of pr) runs ms1"
    using compile_each_packs [OF assms(1) ic_inv_new each] by (auto simp: pr_def)
  have pr: "pr = (case price of None \<Rightarrow> [] | Some p \<Rightarrow> [SetComputeUnitPrice p])"
    using r(2) by (simp add: pr_def get_ix_price_if_any_def ic_inv_def)
  obtain out c' where f: "ix_flush env c = Inr (out, c')"
      "case out of None \<Rightarrow> seg = [] | Some m \<Rightarrow> carries env ixs_of pr seg m"
    using ix_flush_packs [OF assms(1) r(2)] unfolding pr_def by blast
  show ?thesis
  proof (cases out)
    case None
    then show ?thesis using f r rest pr by auto
  next
    case (Some m)
    then show ?thesis using f r rest pr
      by (intro exI [of _ "runs @ [seg]"]) (auto simp: list_all2_appendI)
  qed
qed

text \<open>C19: Packing loses, repeats and reorders nothing. If the bundles compile, then they split in order
  into one non-empty run per message; every message holds exactly its run behind one compute limit and
  the optional price, fits into a transaction, and its limit covers the compute units its instructions
  declared.\<close>

theorem compile_all_packs:
  assumes "compiler_ok env ixs_of"
    and "compile_all env payer price alts bs = Inr ms"
  shows "\<exists>runs. concat runs = bs \<and>
           list_all2 (carries env ixs_of (case price of None \<Rightarrow> [] | Some p \<Rightarrow> [SetComputeUnitPrice p]))
             runs ms"
  by (rule compile_all_runs [OF assms])

text \<open>An instruction that does not fit into a transaction of its own.\<close>

definition too_big :: "'m compiler_env \<Rightarrow> bytes \<Rightarrow> u64 option \<Rightarrow> alt_account list \<Rightarrow> instruction_bundle \<Rightarrow> bool" where
  "too_big env payer price alts b \<longleftrightarrow>
     (\<exists>m. compile_msg env (ix_compiler_new payer price) (ib_compute_units b) [ib_instruction b] alts = Inr m \<and>
          exceeds_limits (msg_len env m) (ib_compute_units b))"

lemma compile_total_bound:
  assumes "ic_inv env payer price seg c" "\<not> exceeds_limits len cu"
  shows "checked_add (total_compute_units c) cu \<noteq> None"
  using assms by (auto simp: ic_inv_def exceeds_limits_def MAX_CU_def checked_add_def word_le_nat_alt not_less)

lemma compile_total'_bound:
  assumes "ic_inv env payer price seg c" "\<not> approaches_limits len t"
  shows "checked_add (total_compute_units c) t \<noteq> None"
  using assms
  by (auto simp: ic_inv_def approaches_limits_def MAX_CU_def checked_add_def word_le_nat_alt not_le)

lemma compile_fault:
  assumes "ic_inv env payer price seg c"
    and "compile env (ib_instruction b) alts (ib_compute_units b) c = Inl e"
  shows "(\<exists>why. e = TxErr (FailedToCompile why)) \<or>
         e = TxErr InstructionTooBig \<and> too_big env payer price alts b"
proof -
  have single: "compile_msg env c cu ixs alts = compile_msg env (ix_compiler_new payer price) cu ixs alts"
    for cu ixs alts
    using assms(1) by (intro compile_msg_cong) (simp_all add: ic_inv_def ix_compiler_new_def)
  have failed: "compile_msg env c cu ixs alts = Inl x \<Longrightarrow> \<exists>why. x = TxErr (FailedToCompile why)"
    for cu ixs alts x
    by (auto simp: compile_msg_def result_simps)
  show ?thesis
    using assms(2)
    by (auto simp: compile_def result_simps too_big_def single [symmetric] split: if_splits
        dest: failed compile_total_bound [OF assms(1)] compile_total'_bound [OF assms(1)])
qed

lemma compile_each_fault:
  assumes "compiler_ok env ixs_of" "ic_inv env payer price seg c" "compile_each env alts bs c = Inl e"
  shows "(\<exists>why. e = TxErr (FailedToCompile why)) \<or>
         e = TxErr InstructionTooBig \<and> list_ex (too_big env payer price alts) bs"
  using assms(2,3)
proof (induction bs arbitrary: c seg)
  case (Cons b bs)
  show ?case
  proof (cases "compile env (ib_instruction b) alts (ib_compute_units b) c")
    case (Inl x)
    then show ?thesis using Cons.prems compile_fault [OF Cons.prems(1) Inl] by auto
  next
    case (Inr r)
    obtain out c' where r: "r = (out, c')" by force
    obtain seg' where "ic_inv env payer price seg' c'"
      using compile_step [OF assms(1) Cons.prems(1) Inr [unfolded r]] by blast
    moreover have "compile_each env alts bs c' = Inl e"
      using Cons.prems(2) Inr r by (auto simp: result_simps)
    ultimately show ?thesis using Cons.IH by auto
  qed
qed simp

text \<open>C20: Packing never panics, although its sums are checked 32-bit ones, and fails only for two
  reasons: the SDK cannot compile a message, or one of the given instructions does not fit into a
  transaction of its own.\<close>

theorem compile_all_faults:
  assumes "compiler_ok env ixs_of" and "compile_all env payer price alts bs = Inl e"
  shows "(\<exists>why. e = TxErr (FailedToCompile why)) \<or>
         e = TxErr InstructionTooBig \<and> list_ex (too_big env payer price alts) bs"
proof (cases "compile_each env alts bs (ix_compiler_new payer price)")
  case (Inl x)
  then show ?thesis
    using assms compile_each_fault [OF assms(1) ic_inv_new Inl] by (simp add: compile_all_def)
next
  case (Inr r)
  obtain ms c where r: "r = (ms, c)" by force
  obtain seg where "ic_inv env payer price seg c"
    using compile_each_packs [OF assms(1) ic_inv_new Inr [unfolded r]] by blast
  then obtain out c' where "ix_flush env c = Inr (out, c')"
    using ix_flush_packs [OF assms(1)] by blast
  then show ?thesis using assms(2) Inr r by (simp add: compile_all_def)
qed

text \<open>A compiler whose messages are their instruction lists, 200 bytes for each.\<close>

definition sample_compiler :: "tx_ix list compiler_env" where
  "sample_compiler = \<lparr>try_compile = (\<lambda>p ixs alts. Inr ixs), msg_len = (\<lambda>m. 200 * length m)\<rparr>"

definition sample_bundle :: "u8 \<Rightarrow> u32 \<Rightarrow> instruction_bundle" where
  "sample_bundle n cu =
     \<lparr>ib_instruction = \<lparr>ix_program_id = [n], ix_data = [], ix_accounts = []\<rparr>, ib_compute_units = cu\<rparr>"

lemma sample_compiler_ok: "compiler_ok sample_compiler (\<lambda>m. m)"
  by (simp add: compiler_ok_def sample_compiler_def)

lemmas compile_run_simps =
  compile_all_def compile_def compile_msg_def ix_flush_def ix_compiler_new_def sample_compiler_def
  sample_bundle_def get_ix_price_if_any_def get_compute_units_ix_def exceeds_limits_def
  approaches_limits_def MAX_CU_def MAX_MSG_LEN_def checked_add_def

lemma sample_compile:
  "compile_all sample_compiler [] None [] [sample_bundle 1 500000, sample_bundle 2 500000] =
     Inr [[SetComputeUnitLimit 1500000, Ix (ib_instruction (sample_bundle 1 0)),
           Ix (ib_instruction (sample_bundle 2 0))]]"
  by (simp add: compile_run_simps)

theorem compile_all_packs_witness:
  "\<exists>runs. concat runs = [sample_bundle 1 500000, sample_bundle 2 500000] \<and>
     list_all2 (carries sample_compiler (\<lambda>m. m) []) runs
       [[SetComputeUnitLimit 1500000, Ix (ib_instruction (sample_bundle 1 0)),
         Ix (ib_instruction (sample_bundle 2 0))]]"
  using compile_all_packs [OF sample_compiler_ok sample_compile] by simp

theorem compile_all_faults_witness:
  "list_ex (too_big sample_compiler [] None []) [sample_bundle 1 1400001]"
proof -
  have "compile_all sample_compiler [] None [] [sample_bundle 1 1400001] = Inl (TxErr InstructionTooBig)"
    by (simp add: compile_run_simps)
  from compile_all_faults [OF sample_compiler_ok this] show ?thesis by simp
qed

text \<open>The compute units that are requested are not the sum of the declared ones: the running total
  is added to itself with every buffered instruction. Two instructions of 500000 units each are sent
  with a limit of 1500000, which is above the maximum the compiler itself checks against.\<close>

theorem compute_limit_doubles:
  "\<exists>m limit. compile_all sample_compiler [] None [] [sample_bundle 1 500000, sample_bundle 2 500000] =
       Inr [SetComputeUnitLimit limit # m] \<and>
     unat limit = 1500000 \<and> MAX_CU < limit"
  by (intro exI [of _ "[Ix (ib_instruction (sample_bundle 1 0)), Ix (ib_instruction (sample_bundle 2 0))]"]
      exI [of _ 1500000]) (simp add: sample_compile MAX_CU_def)

end
