(* ===== verification/Extensions.thy ===== *)
theory Extensions
  imports Onefunc Ix_Compiler
begin

section \<open>Protocol extensions of the executor\<close>

text \<open>
  \<^verbatim>\<open>transmitter-common/src/protocol_extension.rs\<close>, the four extensions under
  \<^verbatim>\<open>transmitter-protocol-extensions/\<close> and \<^verbatim>\<open>executor_app/extension_manager.rs\<close>. An extension tells the
  executor which accounts the protocol's program needs behind an operation. The trait is the record
  \<open>protocol_ext\<close>; its contract towards \<open>execute_operation\<close>, which insists on the protocol's program as
  the first extra account, is the locale \<open>extension_contract\<close>. Program address derivation and the ABI
  decoder are those of the environment; the token program ids and the associated token address come
  from the SPL crates (\<open>spl_env\<close>). Loading a shared library is the function \<open>load\<close> from its path to
  the extension it exports.
\<close>

datatype extension_error = ExtensionFailed | SignFailed

datatype ext_fault = ExtErr extension_error | ExtPanic panic

record protocol_ext =
  px_protocol_id :: bytes
  px_get_accounts :: "bytes \<Rightarrow> bytes \<Rightarrow> ext_fault + account_meta list"
  px_compute_budget :: "bytes \<Rightarrow> bytes \<Rightarrow> u32 option"

text \<open>\<^verbatim>\<open>AccountMeta::new\<close> (writable) and \<^verbatim>\<open>AccountMeta::new_readonly\<close>.\<close>

definition meta_new :: "bytes \<Rightarrow> bool \<Rightarrow> account_meta" where
  "meta_new k signer = \<lparr>am_pubkey = k, am_is_signer = signer, am_is_writable = True\<rparr>"

definition meta_new_readonly :: "bytes \<Rightarrow> bool \<Rightarrow> account_meta" where
  "meta_new_readonly k signer = \<lparr>am_pubkey = k, am_is_signer = signer, am_is_writable = False\<rparr>"

text \<open>\<^verbatim>\<open>Pubkey::find_program_address\<close>, which panics when there is no address.\<close>

definition find_address :: "'x env \<Rightarrow> bytes list \<Rightarrow> bytes \<Rightarrow> panic + bytes" where
  "find_address env seeds pid = ok_or (map_option fst (env_find_pda env seeds pid)) NoViableBump"

definition ext_address :: "'x env \<Rightarrow> bytes list \<Rightarrow> bytes \<Rightarrow> ext_fault + bytes" where
  "ext_address env seeds pid = map_err ExtPanic (find_address env seeds pid)"

lemma find_address_Inr [result_simps]:
  "find_address env seeds pid = Inr k \<longleftrightarrow> (\<exists>b. env_find_pda env seeds pid = Some (k, b))"
  by (auto simp: find_address_def result_simps)

lemma ext_address_Inr [result_simps]:
  "ext_address env seeds pid = Inr k \<longleftrightarrow> (\<exists>b. env_find_pda env seeds pid = Some (k, b))"
  by (auto simp: ext_address_def result_simps)

lemma case_list_Inr [result_simps]:
  "(case xs of [] \<Rightarrow> Inl e | t # ts \<Rightarrow> f t ts) = Inr y \<longleftrightarrow> (\<exists>t ts. xs = t # ts \<and> f t ts = Inr y)"
  by (cases xs) auto

subsection \<open>Governance\<close>

definition gov_get_accounts :: "'x env \<Rightarrow> bytes \<Rightarrow> bytes \<Rightarrow> ext_fault + account_meta list" where
  "gov_get_accounts env selector params =
     bindE (ext_address env [ROOT, str ''PROTOCOL'', GOV_PROTOCOL_ID] (env_photon_id env)) (\<lambda>gov_pda.
     if selector = [] then Inl (ExtErr ExtensionFailed)
     else if length selector < 4 then Inl (ExtPanic ExpectFailed)
     else
       bindE (map_err (\<lambda>_. ExtErr ExtensionFailed) (gov_try_from (selector_u32 selector))) (\<lambda>g.
       bindE (map_err (\<lambda>_. ExtErr ExtensionFailed)
                (decode_abi_params (env_abi_decode env) params (abi_decode_scheme g))) (\<lambda>ps.
       (case ps of
          [] \<Rightarrow> Inl (ExtErr ExtensionFailed)
        | t # _ \<Rightarrow>
            bindE (ok_or (into_fixed_bytes t) (ExtErr ExtensionFailed)) (\<lambda>target_id.
            bindE (ext_address env [ROOT, str ''PROTOCOL'', target_id] (env_photon_id env)) (\<lambda>target_pda.
            bindE (ext_address env [ROOT, str ''CONFIG''] (env_photon_id env)) (\<lambda>config_pda.
            Inr [meta_new_readonly (env_photon_id env) False,
                 meta_new config_pda False,
                 meta_new gov_pda False,
                 meta_new target_pda False,
                 meta_new (env_system_program env) False])))))))"

definition gov_extension :: "'x env \<Rightarrow> protocol_ext" where
  "gov_extension env =
     \<lparr>px_protocol_id = GOV_PROTOCOL_ID, px_get_accounts = gov_get_accounts env,
      px_compute_budget = (\<lambda>sel ps. Some 400000)\<rparr>"

subsection \<open>The example protocol\<close>

definition onefunc_accounts_owned ::
    "'x env \<Rightarrow> bytes \<Rightarrow> bytes \<Rightarrow> ext_fault + account_meta list" where
  "onefunc_accounts_owned env pid owner =
     bindE (ext_address env [str ''COUNTER'', owner] pid) (\<lambda>counter_pda.
     Inr [meta_new_readonly pid False, meta_new_readonly owner True, meta_new counter_pda False])"

definition onefunc_accounts_init ::
    "'x env \<Rightarrow> bytes \<Rightarrow> bytes \<Rightarrow> ext_fault + account_meta list" where
  "onefunc_accounts_init env pid owner =
     bindE (ext_address env [str ''COUNTER'', owner] pid) (\<lambda>counter_pda.
     Inr [meta_new_readonly pid False, meta_new_readonly owner True, meta_new counter_pda False,
          meta_new (env_system_program env) False])"

definition onefunc_accounts_increment :: "'x env \<Rightarrow> bytes \<Rightarrow> ext_fault + account_meta list" where
  "onefunc_accounts_increment env pid =
     bindE (ext_address env [str ''COUNTER''] pid) (\<lambda>counter_pda.
     Inr [meta_new_readonly pid False, meta_new counter_pda False])"

definition onefunc_accounts_to_be_failed :: "bytes \<Rightarrow> account_meta list" where
  "onefunc_accounts_to_be_failed pid = [meta_new_readonly pid False]"

definition onefunc_accounts_receive :: "bytes \<Rightarrow> account_meta list" where
  "onefunc_accounts_receive pid = [meta_new_readonly pid False]"

definition onefunc_get_accounts ::
    "'x env \<Rightarrow> bytes \<Rightarrow> bytes \<Rightarrow> bytes \<Rightarrow> bytes \<Rightarrow> ext_fault + account_meta list" where
  "onefunc_get_accounts env pid owner selector params =
     (if selector = str ''init_owned_counter'' then onefunc_accounts_init env pid owner
      else if selector = str ''increment'' then onefunc_accounts_increment env pid
      else if selector = str ''to_be_failed'' then Inr (onefunc_accounts_to_be_failed pid)
      else if selector = str ''increment_owned_counter'' then onefunc_accounts_owned env pid owner
      else if selector = [1, 2, 3, 4] then Inr (onefunc_accounts_receive pid)
      else Inr [])"

text \<open>
  \<open>partial_sign\<close> is \<^verbatim>\<open>Transaction::try_partial_sign\<close>. No part of the executor calls
  \<^verbatim>\<open>sign_transaction\<close>.
\<close>

definition onefunc_sign_transaction ::
    "(bytes \<Rightarrow> 'tx \<Rightarrow> 'h \<Rightarrow> 'tx option) \<Rightarrow> bytes \<Rightarrow> bytes \<Rightarrow> 'tx \<Rightarrow> 'h \<Rightarrow> ext_fault + 'tx" where
  "onefunc_sign_transaction partial_sign owner selector tx hash =
     (if selector = str ''init_owned_counter'' \<or> selector = str ''increment_owned_counter''
      then ok_or (partial_sign owner tx hash) (ExtErr SignFailed)
      else Inr tx)"

definition onefunc_extension :: "'x env \<Rightarrow> bytes \<Rightarrow> bytes \<Rightarrow> protocol_ext" where
  "onefunc_extension env pid owner =
     \<lparr>px_protocol_id = str ''onefunc_________________________'',
      px_get_accounts = onefunc_get_accounts env pid owner, px_compute_budget = (\<lambda>sel ps. None)\<rparr>"

subsection \<open>Bridges\<close>

record spl_env =
  spl_token :: bytes
  spl_token_2022 :: bytes
  spl_associated_token :: bytes
  spl_ata :: "bytes \<Rightarrow> bytes \<Rightarrow> bytes \<Rightarrow> bytes"

text \<open>The bridge of \<^verbatim>\<open>borpa-bridge-extension\<close>, with one seed root per program.\<close>

record bridge_config =
  bc_protocol_id :: bytes
  bc_bridge_program :: bytes
  bc_core_program :: bytes
  bc_bridge_root :: bytes
  bc_core_root :: bytes
  bc_mint :: bytes
  bc_fee_collector_vault :: bytes
  bc_use_token2022 :: bool

definition redeem_scheme :: "param_type list" where
  "redeem_scheme = [PT_Bytes, PT_Uint 256, PT_Uint 256, PT_FixedBytes 32, PT_Uint 256, PT_FixedBytes 32]"

definition bridge_accounts_redeem ::
    "'x env \<Rightarrow> spl_env \<Rightarrow> bridge_config \<Rightarrow> bytes \<Rightarrow> ext_fault + account_meta list" where
  "bridge_accounts_redeem env spl b params =
     bindE (ext_address env [bc_bridge_root b, str ''AUTHORITY''] (bc_bridge_program b)) (\<lambda>authority.
     bindE (ext_address env [bc_bridge_root b, str ''CONFIG''] (bc_bridge_program b)) (\<lambda>conf.
     bindE (ext_address env [bc_core_root b, str ''AUTHORITY''] (bc_core_program b)) (\<lambda>core_authority.
     bindE (ext_address env [bc_core_root b, str ''CONFIG''] (bc_core_program b)) (\<lambda>core_config.
     bindE (ok_or (env_abi_decode env redeem_scheme params) (ExtErr ExtensionFailed)) (\<lambda>ps.
     (case ps of
        [] \<Rightarrow> Inl (ExtPanic IndexOutOfBounds)
      | t # _ \<Rightarrow>
          bindE (ok_or (into_bytes t) (ExtPanic ExpectFailed)) (\<lambda>user.
          bindE (require (length user = 32) (ExtErr ExtensionFailed)) (\<lambda>_.
          let token_program = (if bc_use_token2022 b then spl_token_2022 spl else spl_token spl);
              user_vault = spl_ata spl user (bc_mint b) token_program
          in Inr [meta_new_readonly (bc_bridge_program b) False,
                  meta_new_readonly authority False,
                  meta_new (bc_mint b) False,
                  meta_new_readonly user False,
                  meta_new user_vault False,
                  meta_new (bc_fee_collector_vault b) False,
                  meta_new_readonly conf False,
                  meta_new_readonly core_config False,
                  meta_new_readonly core_authority False,
                  meta_new_readonly (bc_core_program b) False,
                  meta_new_readonly token_program False,
                  meta_new_readonly (spl_associated_token spl) False,
                  meta_new_readonly (env_system_program env) False]))))))))"

text \<open>\<^verbatim>\<open>&function_selector[..4]\<close> panics on a shorter selector.\<close>

definition bridge_get_accounts ::
    "'x env \<Rightarrow> spl_env \<Rightarrow> bridge_config \<Rightarrow> bytes \<Rightarrow> bytes \<Rightarrow> ext_fault + account_meta list" where
  "bridge_get_accounts env spl b selector params =
     (if length selector < 4 then Inl (ExtPanic IndexOutOfBounds)
      else if take 4 selector = [0x99, 0x45, 0xe3, 0xd3] then bridge_accounts_redeem env spl b params
      else Inr [])"

text \<open>\<^verbatim>\<open>BridgeExtension::from_config\<close> after the settings are read.\<close>

definition bridge_extension :: "'x env \<Rightarrow> spl_env \<Rightarrow> bridge_config \<Rightarrow> panic + protocol_ext" where
  "bridge_extension env spl b =
     (if length (bc_protocol_id b) = 32 then
        Inr \<lparr>px_protocol_id = bc_protocol_id b, px_get_accounts = bridge_get_accounts env spl b,
             px_compute_budget = (\<lambda>sel ps. None)\<rparr>
      else Inl ExpectFailed)"

text \<open>
  \<^verbatim>\<open>bridge-extension\<close> is the same code with a single \<^verbatim>\<open>seed_root\<close> in the place of both roots.
\<close>

record ngl_config =
  nc_protocol_id :: bytes
  nc_bridge_program :: bytes
  nc_core_program :: bytes
  nc_seed_root :: bytes
  nc_mint :: bytes
  nc_fee_collector_vault :: bytes
  nc_use_token2022 :: bool

definition with_roots :: "ngl_config \<Rightarrow> bridge_config" where
  "with_roots b =
     \<lparr>bc_protocol_id = nc_protocol_id b, bc_bridge_program = nc_bridge_program b,
      bc_core_program = nc_core_program b, bc_bridge_root = nc_seed_root b,
      bc_core_root = nc_seed_root b, bc_mint = nc_mint b,
      bc_fee_collector_vault = nc_fee_collector_vault b, bc_use_token2022 = nc_use_token2022 b\<rparr>"

definition ngl_accounts_redeem ::
    "'x env \<Rightarrow> spl_env \<Rightarrow> ngl_config \<Rightarrow> bytes \<Rightarrow> ext_fault + account_meta list" where
  "ngl_accounts_redeem env spl b params = bridge_accounts_redeem env spl (with_roots b) params"

definition ngl_get_accounts ::
    "'x env \<Rightarrow> spl_env \<Rightarrow> ngl_config \<Rightarrow> bytes \<Rightarrow> bytes \<Rightarrow> ext_fault + account_meta list" where
  "ngl_get_accounts env spl b selector params =
     (if length selector < 4 then Inl (ExtPanic IndexOutOfBounds)
      else if take 4 selector = [0x99, 0x45, 0xe3, 0xd3] then ngl_accounts_redeem env spl b params
      else Inr [])"

definition ngl_extension :: "'x env \<Rightarrow> spl_env \<Rightarrow> ngl_config \<Rightarrow> panic + protocol_ext" where
  "ngl_extension env spl b =
     (if length (nc_protocol_id b) = 32 then
        Inr \<lparr>px_protocol_id = nc_protocol_id b, px_get_accounts = ngl_get_accounts env spl b,
             px_compute_budget = (\<lambda>sel ps. None)\<rparr>
      else Inl ExpectFailed)"

subsection \<open>The extension manager\<close>

datatype executor_error =
    ExecConfig
  | ExtensionMng
  | ExecExtension extension_error
  | MalformedData
  | ExecTransactor transactor_error
  | ExecRabbitmq
  | ExecMongodb
  | ExecClient
  | ExecChannel

type_synonym extension_map = "bytes \<Rightarrow> protocol_ext option"

fun load_extensions ::
    "(string \<Rightarrow> protocol_ext option) \<Rightarrow> string list \<Rightarrow> extension_map \<Rightarrow> executor_error + extension_map" where
  "load_extensions load [] m = Inr m"
| "load_extensions load (path # paths) m =
     bindE (ok_or (load path) ExtensionMng) (\<lambda>x.
     if m (px_protocol_id x) = None
     then load_extensions load paths (m(px_protocol_id x \<mapsto> x))
     else Inl ExtensionMng)"

definition on_update_extensions ::
    "(string \<Rightarrow> protocol_ext option) \<Rightarrow> string list \<Rightarrow> extension_map \<Rightarrow> extension_map" where
  "on_update_extensions load paths m =
     (case load_extensions load paths Map.empty of Inl _ \<Rightarrow> m | Inr m' \<Rightarrow> m')"

definition extension_manager_new ::
    "(string \<Rightarrow> protocol_ext option) \<Rightarrow> string list \<Rightarrow> extension_map" where
  "extension_manager_new load paths = on_update_extensions load paths Map.empty"

definition get_extension :: "bytes \<Rightarrow> extension_map \<Rightarrow> protocol_ext option" where
  "get_extension protocol_id m = m protocol_id"

subsection \<open>The contract of an extension\<close>

text \<open>How the runtime presents an account of an instruction to the program.\<close>

definition info_of :: "account_meta \<Rightarrow> account_info" where
  "info_of m =
     \<lparr>ai_key = am_pubkey m, ai_is_signer = am_is_signer m, ai_is_writable = am_is_writable m\<rparr>"

lemma info_of_simps [simp]:
  "ai_key (info_of m) = am_pubkey m"
  "ai_is_signer (info_of m) = am_is_signer m"
  "ai_is_writable (info_of m) = am_is_writable m"
  by (simp_all add: info_of_def)

lemma meta_new_simps [simp]:
  "am_pubkey (meta_new k s) = k" "am_is_signer (meta_new k s) = s" "am_is_writable (meta_new k s)"
  "am_pubkey (meta_new_readonly k s) = k" "am_is_signer (meta_new_readonly k s) = s"
  "\<not> am_is_writable (meta_new_readonly k s)"
  by (simp_all add: meta_new_def meta_new_readonly_def)

locale extension_contract =
  fixes program :: bytes and x :: protocol_ext
  assumes id_length: "length (px_protocol_id x) = 32"
    and program_first:
      "px_get_accounts x sel ps = Inr accs \<Longrightarrow> accs = [] \<or> (\<exists>rest. accs = meta_new_readonly program False # rest)"
begin

text \<open>The endpoint accepts the accounts of an extension for an operation of its own program.\<close>

lemma infos_accepted:
  assumes "px_get_accounts x sel ps = Inr accs" "accs \<noteq> []"
  shows "execute_infos a program (List.map info_of accs) =
           Inr ([info_of (meta_new_readonly program False), ec_executor a,
                 (ec_call_authority a)\<lparr>ai_is_signer := True\<rparr>, ec_op_info a] @ List.map info_of (tl accs))"
  using program_first [OF assms(1)] assms(2) by (auto simp: execute_infos_def)

lemma infos_rejected:
  assumes "px_get_accounts x sel ps = Inr []"
  shows "execute_infos a program (List.map info_of []) = Inl (Custom ProtocolAddressNotProvided)"
  by (simp add: execute_infos_def)

end

lemma gov_accounts:
  assumes "gov_get_accounts env sel ps = Inr accs"
  shows "\<exists>target config_pda gov_pda target_pda b1 b2 b3.
           target_protocol_by_code (env_abi_decode env) sel ps = Inr target \<and>
           env_find_pda env [ROOT, str ''CONFIG''] (env_photon_id env) = Some (config_pda, b1) \<and>
           env_find_pda env [ROOT, str ''PROTOCOL'', GOV_PROTOCOL_ID] (env_photon_id env) = Some (gov_pda, b2) \<and>
           env_find_pda env [ROOT, str ''PROTOCOL'', target] (env_photon_id env) = Some (target_pda, b3) \<and>
           accs = [meta_new_readonly (env_photon_id env) False, meta_new config_pda False,
                   meta_new gov_pda False, meta_new target_pda False,
                   meta_new (env_system_program env) False]"
  using assms
  by (auto simp: gov_get_accounts_def target_protocol_by_code_def result_simps U32_SIZE_def
      split: if_splits)

interpretation gov: extension_contract "env_photon_id env" "gov_extension env" for env
proof unfold_locales
  fix sel ps accs
  assume "px_get_accounts (gov_extension env) sel ps = Inr accs"
  then have "gov_get_accounts env sel ps = Inr accs" by (simp add: gov_extension_def)
  from gov_accounts [OF this]
  show "accs = [] \<or> (\<exists>rest. accs = meta_new_readonly (env_photon_id env) False # rest)" by auto
qed (simp add: gov_extension_def)

interpretation onefunc: extension_contract pid "onefunc_extension env pid owner" for env pid owner
  by unfold_locales
    (auto simp: onefunc_extension_def onefunc_get_accounts_def onefunc_accounts_init_def
      onefunc_accounts_increment_def onefunc_accounts_to_be_failed_def onefunc_accounts_owned_def
      onefunc_accounts_receive_def result_simps split: if_splits)

lemma bridge_contract:
  assumes "bridge_extension env spl b = Inr x"
  shows "extension_contract (bc_bridge_program b) x"
  using assms
  by unfold_locales
    (auto simp: bridge_extension_def bridge_get_accounts_def bridge_accounts_redeem_def result_simps Let_def
      split: if_splits)

lemma ngl_is_bridge: "ngl_extension env spl b = bridge_extension env spl (with_roots b)"
proof -
  have "ngl_get_accounts env spl b = bridge_get_accounts env spl (with_roots b)"
    by (intro ext) (simp add: ngl_get_accounts_def bridge_get_accounts_def ngl_accounts_redeem_def)
  then show ?thesis by (simp add: ngl_extension_def bridge_extension_def) (simp add: with_roots_def)
qed

lemma ngl_contract:
  "ngl_extension env spl b = Inr x \<Longrightarrow> extension_contract (nc_bridge_program b) x"
  using bridge_contract [of env spl "with_roots b" x] by (simp add: ngl_is_bridge) (simp add: with_roots_def)

subsection \<open>The manager keeps one extension per protocol\<close>

lemma load_extensions_spec:
  assumes "load_extensions load paths m = Inr m'"
  shows "m' = (\<lambda>k. case m k of Some x \<Rightarrow> Some x
                    | None \<Rightarrow> find (\<lambda>x. px_protocol_id x = k) (List.map (\<lambda>p. the (load p)) paths)) \<and>
         (\<forall>p \<in> set paths. load p \<noteq> None)"
  using assms
proof (induction paths arbitrary: m)
  case Nil
  then show ?case by (auto split: option.splits)
next
  case (Cons p ps)
  obtain x where x: "load p = Some x" "m (px_protocol_id x) = None"
      "load_extensions load ps (m(px_protocol_id x \<mapsto> x)) = Inr m'"
    using Cons.prems by (auto simp: result_simps split: if_splits)
  from Cons.IH [OF x(3)] x(1,2) show ?case by (auto simp: fun_eq_iff split: option.splits)
qed

text \<open>An update is all or nothing, and the map it installs gives every protocol its own extension.\<close>

lemma on_update_extensions_cases:
  "on_update_extensions load paths m = m \<or>
   (\<forall>k. get_extension k (on_update_extensions load paths m) =
        find (\<lambda>x. px_protocol_id x = k) (List.map (\<lambda>p. the (load p)) paths))"
  by (cases "load_extensions load paths Map.empty")
    (auto simp: on_update_extensions_def get_extension_def dest: load_extensions_spec)

lemma get_extension_id:
  assumes "get_extension k (extension_manager_new load paths) = Some x"
  shows "px_protocol_id x = k"
proof -
  have "get_extension k (extension_manager_new load paths) \<noteq> None" using assms by simp
  then show ?thesis
    using on_update_extensions_cases [of load paths Map.empty] assms
    by (auto simp: extension_manager_new_def get_extension_def find_Some_iff)
qed

end
