(* ===== verification/Operation_Manager.thy ===== *)
theory Operation_Manager
  imports Extensions Transmitter_Data Op_Registry
begin

section \<open>Processing operations in the executor\<close>

text \<open>
  \<^verbatim>\<open>transmitter-module/src/executor_app/operation_manager.rs\<close>: the instructions built for an operation
  in each status, the status read back from the chain, and the loop that drives an operation until
  it is executed or given up, with the acknowledgements it sends to the block registry. \<open>executor\<close>
  holds what the manager is given: the environment of the endpoint, the loaded extensions, the payer,
  the attempt limit, and two functions of the account framework, the encoding of an instruction's
  arguments (\<^verbatim>\<open>InstructionData::data\<close>) and \<^verbatim>\<open>OpInfo::try_deserialize\<close>. One turn of the loop sees a
  \<open>turn\<close>: whether the balance gate lets it through, the account data read by the node, and the
  outcome of sending instructions.
\<close>

datatype ix_args =
    LoadArgs operation_data bytes
  | SignArgs bytes "transmitter_signature list"
  | ExecuteArgs bytes

datatype exec_fault = ExecErr executor_error | ExecPanic panic

record 'x executor =
  xe_env :: "'x env"
  xe_extensions :: extension_map
  xe_payer :: bytes
  xe_attempts :: nat
  xe_encode :: "ix_args \<Rightarrow> bytes"
  xe_deserialize :: "bytes \<Rightarrow> op_info option"

definition photon_address :: "'x executor \<Rightarrow> bytes list \<Rightarrow> exec_fault + bytes" where
  "photon_address x seeds =
     map_err ExecPanic (find_address (xe_env x) seeds (env_photon_id (xe_env x)))"

text \<open>\<^verbatim>\<open>Instruction::new_with_bytes(photon::id(), ...)\<close> in an \<^verbatim>\<open>InstructionBundle\<close>.\<close>

definition photon_bundle :: "'x executor \<Rightarrow> ix_args \<Rightarrow> account_meta list \<Rightarrow> u32 \<Rightarrow> instruction_bundle" where
  "photon_bundle x args metas cu =
     \<lparr>ib_instruction = \<lparr>ix_program_id = env_photon_id (xe_env x), ix_data = xe_encode x args,
                        ix_accounts = metas\<rparr>,
      ib_compute_units = cu\<rparr>"

definition build_load_ix ::
    "'x executor \<Rightarrow> bytes \<Rightarrow> t_operation_data \<Rightarrow> exec_fault + instruction_bundle" where
  "build_load_ix x h v =
     bindE (photon_address x [ROOT, str ''OP'', h]) (\<lambda>op_info_pda.
     bindE (photon_address x [ROOT, str ''PROTOCOL'', td_protocol_id v]) (\<lambda>protocol_info_pda.
     bindE (photon_address x [ROOT, str ''CONFIG'']) (\<lambda>config_pda.
     bindE (require (utf8_valid (td_protocol_id v)) (ExecErr MalformedData)) (\<lambda>_.
     bindE (map_err (\<lambda>e. case e of ConvErr _ \<Rightarrow> ExecErr MalformedData
                                  | ConvPanic \<Rightarrow> ExecPanic ExplicitPanic)
              (operation_try_from v)) (\<lambda>d.
     Inr (photon_bundle x (LoadArgs d h)
            [meta_new (xe_payer x) True,
             meta_new_readonly protocol_info_pda False,
             meta_new op_info_pda False,
             meta_new config_pda False,
             meta_new_readonly (env_system_program (xe_env x)) False] 200000))))))"

definition build_sign_tx ::
    "'x executor \<Rightarrow> bytes \<Rightarrow> signed_operation \<Rightarrow> exec_fault + instruction_bundle" where
  "build_sign_tx x h op =
     bindE (photon_address x [ROOT, str ''OP'', h]) (\<lambda>op_info_pda.
     bindE (photon_address x [ROOT, str ''PROTOCOL'', td_protocol_id (so_operation_data op)])
       (\<lambda>protocol_info_pda.
     Inr (photon_bundle x (SignArgs h (List.map signature_into (so_signatures op)))
            [meta_new (xe_payer x) True,
             meta_new op_info_pda False,
             meta_new_readonly protocol_info_pda False] 400000)))"

definition ext_fault_into :: "ext_fault \<Rightarrow> exec_fault" where
  "ext_fault_into f = (case f of ExtErr e \<Rightarrow> ExecErr (ExecExtension e) | ExtPanic p \<Rightarrow> ExecPanic p)"

definition build_execute_tx ::
    "'x executor \<Rightarrow> bytes \<Rightarrow> t_operation_data \<Rightarrow> exec_fault + instruction_bundle" where
  "build_execute_tx x h v =
     bindE (ok_or (get_extension (td_protocol_id v) (xe_extensions x)) (ExecErr ExtensionMng)) (\<lambda>ext.
     bindE (photon_address x [ROOT, str ''OP'', h]) (\<lambda>op_info_pda.
     bindE (photon_address x [ROOT, str ''PROTOCOL'', td_protocol_id v]) (\<lambda>protocol_info_pda.
     bindE (photon_address x [ROOT, str ''CALL_AUTHORITY'', td_protocol_id v]) (\<lambda>call_authority_pda.
     if length (td_function_selector v) < 3 then Inl (ExecErr MalformedData)
     else
       let sel = drop 2 (td_function_selector v)
       in bindE (map_err ext_fault_into (px_get_accounts ext sel (td_params v))) (\<lambda>ext_accounts.
          Inr (photon_bundle x (ExecuteArgs h)
                 ([meta_new (xe_payer x) True,
                   meta_new op_info_pda False,
                   meta_new_readonly protocol_info_pda False,
                   meta_new_readonly call_authority_pda False] @ ext_accounts)
                 (case px_compute_budget ext sel (td_params v) of None \<Rightarrow> 200000 | Some n \<Rightarrow> n)))))))"

definition build_ixs ::
    "'x executor \<Rightarrow> bytes \<Rightarrow> signed_operation \<Rightarrow> executor_op_status \<Rightarrow> exec_fault + instruction_bundle list" where
  "build_ixs x h op status =
     (case status of
        ENew \<Rightarrow>
          bindE (build_load_ix x h (so_operation_data op)) (\<lambda>l.
          bindE (build_sign_tx x h op) (\<lambda>s.
          bindE (build_execute_tx x h (so_operation_data op)) (\<lambda>e. Inr [l, s, e])))
      | ELoaded \<Rightarrow>
          bindE (build_sign_tx x h op) (\<lambda>s.
          bindE (build_execute_tx x h (so_operation_data op)) (\<lambda>e. Inr [s, e]))
      | ESigned \<Rightarrow> bindE (build_execute_tx x h (so_operation_data op)) (\<lambda>e. Inr [e])
      | _ \<Rightarrow> Inl (ExecPanic ExplicitPanic))"

subsection \<open>The loop\<close>

record turn =
  tn_balance_ok :: bool
  tn_account :: "bytes option"
  tn_send :: "instruction_bundle list \<Rightarrow> transactor_error + unit"

definition get_op_status ::
    "'x executor \<Rightarrow> bytes \<Rightarrow> bytes option \<Rightarrow> exec_fault + executor_op_status" where
  "get_op_status x h account =
     bindE (photon_address x [ROOT, str ''OP'', h]) (\<lambda>_.
     (case account of
        None \<Rightarrow> Inr ENew
      | Some data \<Rightarrow>
          (case xe_deserialize x data of
             None \<Rightarrow> Inl (ExecErr MalformedData)
           | Some i \<Rightarrow> Inr (executor_status_from (oi_status i)))))"

text \<open>The \<^verbatim>\<open>match last_op_status\<close>: an unchanged status counts as a failed attempt.\<close>

definition observe ::
    "nat \<Rightarrow> executor_op_status \<Rightarrow> executor_op_status option \<times> nat
     \<Rightarrow> executor_op_status \<times> executor_op_status option \<times> nat" where
  "observe limit st prev =
     (if fst prev = Some st then
        (if snd prev + 1 \<ge> limit then EFailed else st, Some st, snd prev + 1)
      else (st, Some st, 0))"

definition ack_executed :: "signed_operation \<Rightarrow> bytes \<Rightarrow> executor_op_status \<Rightarrow> op_acknowledge" where
  "ack_executed op h st =
     \<lparr>oa_block_number = so_eob_block_number op, oa_op_hash = h, oa_status = st\<rparr>"

text \<open>The body of the loop: the operation ends with acknowledgements and a result, or the loop goes on.\<close>

definition loop_turn ::
    "'x executor \<Rightarrow> bytes \<Rightarrow> signed_operation \<Rightarrow> turn \<Rightarrow> executor_op_status option \<times> nat
     \<Rightarrow> (op_acknowledge list \<times> (exec_fault + unit)) + executor_op_status option \<times> nat" where
  "loop_turn x h op t prev =
     (if \<not> tn_balance_ok t then Inr prev
      else
        (case get_op_status x h (tn_account t) of
           Inl (ExecErr e) \<Rightarrow> Inl ([], Inr ())
         | Inl (ExecPanic p) \<Rightarrow> Inl ([], Inl (ExecPanic p))
         | Inr read \<Rightarrow>
             let seen = observe (xe_attempts x) read prev; st = fst seen
             in if st = EExecuted \<or> st = EFailed then Inl ([ack_executed op h st], Inr ())
                else
                  (case build_ixs x h op st of
                     Inl f \<Rightarrow> Inl ([], Inl f)
                   | Inr bundles \<Rightarrow>
                       (case tn_send t bundles of
                          Inl e \<Rightarrow> Inl ([], Inl (ExecErr (ExecTransactor e)))
                        | Inr u \<Rightarrow> Inr (snd seen)))))"

partial_function (option) process_loop ::
    "'x executor \<Rightarrow> bytes \<Rightarrow> signed_operation \<Rightarrow> (nat \<Rightarrow> turn) \<Rightarrow> nat
     \<Rightarrow> executor_op_status option \<times> nat \<Rightarrow> (op_acknowledge list \<times> (exec_fault + unit)) option" where
  "process_loop x h op turns k prev =
     (case loop_turn x h op (turns k) prev of
        Inl res \<Rightarrow> Some res
      | Inr prev' \<Rightarrow> process_loop x h op turns (Suc k) prev')"

definition process_operation ::
    "'x executor \<Rightarrow> bytes \<Rightarrow> signed_operation \<Rightarrow> (nat \<Rightarrow> turn)
     \<Rightarrow> (op_acknowledge list \<times> (exec_fault + unit)) option" where
  "process_operation x h op turns = process_loop x h op turns 0 (None, 0)"

text \<open>
  One operation of \<^verbatim>\<open>execute_operations\<close>: it is announced to the registry, then processed; an error is
  logged and dropped, a panic is not caught.
\<close>

definition execute_one ::
    "'x executor \<Rightarrow> signed_operation \<Rightarrow> (nat \<Rightarrow> turn) \<Rightarrow> (panic + op_acknowledge list) option" where
  "execute_one x op turns =
     (case t_op_hash_with_message (env_keccak (xe_env x)) (so_operation_data op) of
        Inl e \<Rightarrow> Some (Inl (case e of Panic p \<Rightarrow> p | _ \<Rightarrow> ExplicitPanic))
      | Inr h \<Rightarrow>
          map_option (\<lambda>(acks, r).
             case r of
               Inl (ExecPanic p) \<Rightarrow> Inl p
             | _ \<Rightarrow> Inr (ack_executed op h ENew # acks))
            (process_operation x h op turns))"

subsection \<open>Reloading the extensions while operations are processed\<close>

text \<open>
  On \<^verbatim>\<open>SIGHUP\<close> the application reads its configuration again and sends the extension paths to the manager
  (\<^verbatim>\<open>listen_to_signals\<close> in \<^verbatim>\<open>app.rs\<close>), which replaces its extensions (\<^verbatim>\<open>listen_update\<close>). A
  \<open>signal_item\<close> is what the signal stream yields, \<open>Hup\<close> with the extension paths of the configuration read
  then, if it could be read. The signals the stream is created with are \<^verbatim>\<open>[Signal::Hup]\<close>, and every
  other item ends the loop. Opening a library is a parameter of each command, as the files may change
  between two reloads.
\<close>

datatype service_cmd = UpdateExtensions "string list"

datatype signal_item = Hup "string list option" | OtherSignal | SignalErr

fun listen_to_signals :: "signal_item list \<Rightarrow> service_cmd list" where
  "listen_to_signals (Hup (Some paths) # items) = UpdateExtensions paths # listen_to_signals items"
| "listen_to_signals (Hup None # items) = listen_to_signals items"
| "listen_to_signals (OtherSignal # items) = []"
| "listen_to_signals (SignalErr # items) = []"
| "listen_to_signals [] = []"

definition on_service_cmd ::
    "(string \<Rightarrow> protocol_ext option) \<Rightarrow> service_cmd \<Rightarrow> 'x executor \<Rightarrow> 'x executor" where
  "on_service_cmd load cmd x =
     (case cmd of UpdateExtensions paths \<Rightarrow>
        x\<lparr>xe_extensions := on_update_extensions load paths (xe_extensions x)\<rparr>)"

fun listen_update ::
    "((string \<Rightarrow> protocol_ext option) \<times> service_cmd) list \<Rightarrow> 'x executor \<Rightarrow> 'x executor" where
  "listen_update [] x = x"
| "listen_update ((load, cmd) # cmds) x = listen_update cmds (on_service_cmd load cmd x)"

definition extensions_by_id :: "extension_map \<Rightarrow> bool" where
  "extensions_by_id m \<longleftrightarrow> (\<forall>k y. m k = Some y \<longrightarrow> px_protocol_id y = k)"

lemma on_update_extensions_by_id:
  assumes "extensions_by_id m"
  shows "extensions_by_id (on_update_extensions load paths m)"
  using on_update_extensions_cases [of load paths m] assms
  by (auto simp: extensions_by_id_def get_extension_def find_Some_iff)

text \<open>However often the extensions are reloaded, a protocol is only ever served by its own extension.\<close>

theorem listen_update_by_id:
  assumes "extensions_by_id (xe_extensions x)"
  shows "extensions_by_id (xe_extensions (listen_update cmds x))"
  using assms
proof (induction cmds x rule: listen_update.induct)
  case (2 load cmd cmds x)
  then show ?case by (cases cmd) (simp add: on_service_cmd_def on_update_extensions_by_id)
qed simp

lemma listen_update_append:
  "listen_update (cs @ ds) x = listen_update ds (listen_update cs x)"
  by (induction cs x rule: listen_update.induct) simp_all

text \<open>
  A reload that cannot be loaded leaves the extensions as they were; one that can be loaded leaves
  exactly the extensions of its own paths, whatever was loaded before it.
\<close>

theorem last_reload_wins:
  "xe_extensions (listen_update (cmds @ [(load, UpdateExtensions paths)]) x) =
     (case load_extensions load paths Map.empty of
        Inl e \<Rightarrow> xe_extensions (listen_update cmds x)
      | Inr m \<Rightarrow> m)"
  by (simp add: listen_update_append on_service_cmd_def on_update_extensions_def split: sum.splits)

text \<open>Reloading touches nothing but the extensions.\<close>

lemma listen_update_frame:
  "\<exists>m. listen_update cmds x = x\<lparr>xe_extensions := m\<rparr>"
proof (induction cmds x rule: listen_update.induct)
  case (1 x)
  show ?case by (intro exI [of _ "xe_extensions x"]) simp
next
  case (2 load cmd cmds x)
  then show ?case by (auto simp: on_service_cmd_def split: service_cmd.splits)
qed

text \<open>A configuration that cannot be read does not stop later reloads, a broken stream does.\<close>

lemma listen_to_signals_reads:
  assumes "\<forall>i \<in> set items. \<exists>c. i = Hup c"
  shows "listen_to_signals items = [UpdateExtensions p. Hup (Some p) \<leftarrow> items]"
  using assms by (induction items rule: listen_to_signals.induct) auto

end
