(* ===== verification/Executor_Pipeline.thy ===== *)
theory Executor_Pipeline
  imports Operation_Manager
begin

section \<open>The executor drives the endpoint\<close>

text \<open>
  The instructions the operation manager builds, run on the endpoint program. \<open>process_instruction\<close> is
  the program's entry point: the arguments are decoded (\<open>decode\<close>, the account framework's inverse of
  \<^verbatim>\<open>InstructionData::data\<close>) and the accounts are taken in the order of the instruction's struct; what
  is left over are the remaining accounts. The first part proves that an operation goes through all
  three steps, the second that the processing loop settles, and when it does not acknowledge.
\<close>

fun entry_call :: "ix_args \<Rightarrow> account_info list \<Rightarrow> call option" where
  "entry_call (LoadArgs d h) (e # p # oi # c # s # rest) =
     Some (LoadOperation
       \<lparr>lo_executor = e, lo_protocol_info = p, lo_op_info = oi, lo_config = c, lo_system_program = s\<rparr> d h)"
| "entry_call (SignArgs h sigs) (e # oi # p # rest) =
     Some (SignOperation \<lparr>sg_executor = e, sg_op_info = oi, sg_protocol_info = p\<rparr> h sigs)"
| "entry_call (ExecuteArgs h) (e # oi # p # c # rest) =
     Some (ExecuteOperation
       \<lparr>ec_executor = e, ec_op_info = oi, ec_protocol_info = p, ec_call_authority = c\<rparr> rest h)"
| "entry_call _ _ = None"

definition process_instruction ::
    "'x env \<Rightarrow> (bytes \<Rightarrow> ix_args option) \<Rightarrow> instruction \<Rightarrow> 'x world \<Rightarrow> err + 'x world" where
  "process_instruction env decode ix w =
     bindE (ok_or (decode (ix_data ix)) ProgramFailed) (\<lambda>args.
     bindE (ok_or (entry_call args (List.map info_of (ix_accounts ix))) ProgramFailed) (\<lambda>c.
     exec_call env c w))"

fun process_all ::
    "'x env \<Rightarrow> (bytes \<Rightarrow> ix_args option) \<Rightarrow> instruction_bundle list \<Rightarrow> 'x world \<Rightarrow> err + 'x world" where
  "process_all env decode [] w = Inr w"
| "process_all env decode (b # bs) w =
     bindE (process_instruction env decode (ib_instruction b) w) (process_all env decode bs)"

subsection \<open>What an operation needs to go through\<close>

text \<open>
  The state the endpoint must be in: it serves the protocol (the configuration and the protocol are
  registered, and the payer is one of the protocol's executors), and, for a new operation, the operation's
  account is free and can be created.
\<close>

definition endpoint_serves ::
    "'x executor \<Rightarrow> operation_data \<Rightarrow> bytes \<Rightarrow> bytes \<Rightarrow> protocol_info \<Rightarrow> 'x world \<Rightarrow> bool" where
  "endpoint_serves x d h op_pda p w \<longleftrightarrow>
     (let env = xe_env x in
       (\<exists>b. env_find_pda env [ROOT, str ''OP'', h] (env_photon_id env) = Some (op_pda, b)) \<and>
       (\<exists>k b c. env_find_pda env [ROOT, str ''CONFIG''] (env_photon_id env) = Some (k, b) \<and>
                accounts w k = Some (AConfig c)) \<and>
       (\<exists>k b. env_find_pda env [ROOT, str ''PROTOCOL'', od_protocol_id d] (env_photon_id env) = Some (k, b) \<and>
              accounts w k = Some (AProtocol p)) \<and>
       xe_payer x \<in> set (pi_executors p))"

definition endpoint_ready ::
    "'x executor \<Rightarrow> operation_data \<Rightarrow> bytes \<Rightarrow> bytes \<Rightarrow> protocol_info \<Rightarrow> 'x world \<Rightarrow> bool" where
  "endpoint_ready x d h op_pda p w \<longleftrightarrow>
     endpoint_serves x d h op_pda p w \<and> accounts w op_pda = None \<and>
     env_create_account (xe_env x) (xe_payer x) op_pda (OpInfo_len (env_borsh_op (xe_env x)) d) (foreign w) \<noteq> None"

lemma endpoint_serves_update:
  assumes "endpoint_serves x d h op_pda p w" "accounts w' = (accounts w)(op_pda \<mapsto> AOp i)"
    and "\<forall>a. accounts w op_pda = Some a \<longrightarrow> (\<exists>j. a = AOp j)"
  shows "endpoint_serves x d h op_pda p w'"
proof -
  have "accounts w' k = Some a" if "accounts w k = Some a" "\<forall>j. a \<noteq> AOp j" for k a
    using assms(2,3) that by auto
  then show ?thesis using assms(1) by (fastforce simp: endpoint_serves_def Let_def)
qed

text \<open>The operation itself: it is for this chain and for the protocol's program, and its hash is \<open>h\<close>.\<close>

definition operation_fits ::
    "'x executor \<Rightarrow> operation_data \<Rightarrow> bytes \<Rightarrow> protocol_info \<Rightarrow> bool" where
  "operation_fits x d h p \<longleftrightarrow>
     op_hash_with_message (env_keccak (xe_env x)) d = Inr h \<and>
     od_dest_chain_id d = SOLANA_CHAIN_ID (env_network (xe_env x)) \<and>
     pi_protocol_address p = od_protocol_addr d \<and>
     length (od_protocol_id d) = 32 \<and> od_protocol_id d \<noteq> replicate 32 0"

text \<open>The signatures recover, and the transmitters among the signers reach the target.\<close>

definition signatures_suffice ::
    "'x executor \<Rightarrow> bytes \<Rightarrow> transmitter_signature list \<Rightarrow> protocol_info \<Rightarrow> bool" where
  "signatures_suffice x h sigs p \<longleftrightarrow>
     (\<exists>ts. mapE (ecrecover (env_keccak (xe_env x)) (env_recover (xe_env x)) h) sigs = Inr ts \<and>
           unat (pi_consensus_target_rate p) \<le>
             consensus_rate (card (set ts \<inter> set (transmitters_of p))) (length (transmitters_of p)) \<and>
           card (set ts \<inter> set (transmitters_of p)) \<le> 16) \<and>
     transmitters_of p \<noteq> [] \<and> 0 < unat (pi_consensus_target_rate p)"

text \<open>The extension finds the accounts, and the program accepts the call.\<close>

definition call_succeeds :: "'x executor \<Rightarrow> t_operation_data \<Rightarrow> bool" where
  "call_succeeds x v \<longleftrightarrow>
     (\<exists>ext accs. get_extension (td_protocol_id v) (xe_extensions x) = Some ext \<and>
        extension_contract (td_protocol_addr v) ext \<and>
        px_get_accounts ext (drop 2 (td_function_selector v)) (td_params v) = Inr accs \<and> accs \<noteq> []) \<and>
     (\<forall>i infos seeds w. ix_program_id i = td_protocol_addr v \<longrightarrow>
        (\<exists>w'. env_invoke_signed (xe_env x) i infos seeds w = Inr w'))"

definition loaded_op :: "operation_data \<Rightarrow> op_info" where
  "loaded_op d = op_info_zeroed\<lparr>oi_op_data := d, oi_status := StInit\<rparr>"

lemma signers_of_loaded [simp]: "signers_of (loaded_op d) = []"
  by (simp add: signers_of_def loaded_op_def op_info_zeroed_def)

lemma photon_address_Inr [result_simps]:
  "photon_address x seeds = Inr k \<longleftrightarrow>
   (\<exists>b. env_find_pda (xe_env x) seeds (env_photon_id (xe_env x)) = Some (k, b))"
  by (simp add: photon_address_def result_simps)

subsection \<open>The three steps\<close>

lemma load_step:
  assumes dec: "decode (xe_encode x (LoadArgs d h)) = Some (LoadArgs d h)"
    and build: "build_load_ix x h v = Inr b" and d: "operation_try_from v = Inr d"
    and ready: "endpoint_ready x d h op_pda p w" and fits: "operation_fits x d h p"
  shows "\<exists>w'. process_instruction (xe_env x) decode (ib_instruction b) w = Inr w' \<and>
           accounts w' = (accounts w)(op_pda \<mapsto> AOp (loaded_op d)) \<and>
           events w' = events w @ [ProposalLoaded h (xe_payer x)]"
proof -
  have "od_protocol_id d = td_protocol_id v"
    using d by (auto simp: operation_try_from_def result_simps)
  then show ?thesis
    using build d ready fits
    by (auto simp: build_load_ix_def photon_bundle_def process_instruction_def dec endpoint_ready_def
        endpoint_serves_def operation_fits_def load_operation_def load_operation_accounts_def init_account_def result_simps
        check_defs check_seeds_def load_protocol_def load_config_def load_op_def Let_def loaded_op_def
        op_info_zeroed_def)
qed

lemma sign_step:
  assumes dec: "decode (xe_encode x (SignArgs h (List.map signature_into (so_signatures op)))) =
      Some (SignArgs h (List.map signature_into (so_signatures op)))"
    and build: "build_sign_tx x h op = Inr b"
    and pid: "od_protocol_id d = td_protocol_id (so_operation_data op)"
    and serves: "endpoint_serves x d h op_pda p w1"
    and suffice: "signatures_suffice x h (List.map signature_into (so_signatures op)) p"
    and accs: "accounts w1 op_pda = Some (AOp (loaded_op d))"
  shows "\<exists>w2 signers. process_instruction (xe_env x) decode (ib_instruction b) w1 = Inr w2 \<and>
           accounts w2 = (accounts w1)(op_pda \<mapsto>
             AOp ((loaded_op d)\<lparr>oi_unique_signers := signers, oi_status := StSigned\<rparr>)) \<and>
           events w2 = events w1 @ [ProposalApproved h (xe_payer x)]"
proof -
  obtain k b1 b2 where k: "env_find_pda (xe_env x) [ROOT, str ''PROTOCOL'', od_protocol_id d]
        (env_photon_id (xe_env x)) = Some (k, b1)" "accounts w1 k = Some (AProtocol p)"
      "env_find_pda (xe_env x) [ROOT, str ''OP'', h] (env_photon_id (xe_env x)) = Some (op_pda, b2)"
      "xe_payer x \<in> set (pi_executors p)"
    using serves by (auto simp: endpoint_serves_def Let_def)
  then have ne: "k \<noteq> op_pda" using accs by auto
  define a where "a = \<lparr>sg_executor = info_of (meta_new (xe_payer x) True),
    sg_op_info = info_of (meta_new op_pda False), sg_protocol_info = info_of (meta_new_readonly k False)\<rparr>"
  have proc: "process_instruction (xe_env x) decode (ib_instruction b) w1 =
      bindE (sign_operation (xe_env x) a h (List.map signature_into (so_signatures op)) w1) (\<lambda>(w', r). Inr w')"
    using build k(1,3) pid
    by (auto simp: build_sign_tx_def photon_bundle_def process_instruction_def dec result_simps a_def)
  have acc: "sign_operation_accounts (xe_env x) a h w1 = Inr (loaded_op d, p)"
    using k accs ne
    by (simp add: sign_operation_accounts_def a_def check_defs check_seeds_def load_op_def
        load_protocol_def loaded_op_def)
  obtain ts where ts: "mapE (ecrecover (env_keccak (xe_env x)) (env_recover (xe_env x)) h)
        (List.map signature_into (so_signatures op)) = Inr ts"
      "unat (pi_consensus_target_rate p) \<le>
         consensus_rate (card (set ts \<inter> set (transmitters_of p))) (length (transmitters_of p))"
      "card (set ts \<inter> set (transmitters_of p)) \<le> 16" "transmitters_of p \<noteq> []"
      "0 < unat (pi_consensus_target_rate p)"
    using suffice by (auto simp: signatures_suffice_def)
  have "\<exists>signers. sign_operation (xe_env x) a h (List.map signature_into (so_signatures op)) w1 =
      Inr (store (sg_op_info a) (AOp ((loaded_op d)\<lparr>oi_unique_signers := signers, oi_status := StSigned\<rparr>))
             (emit (ProposalApproved h (ai_key (sg_executor a))) w1), True)"
    by (rule sign_operation_completes [OF acc ts(4) _ _ ts(1)])
      (use ts in \<open>simp_all add: consensus_rate_def\<close>)
  then show ?thesis using proc accs by (auto simp: a_def)
qed

text \<open>The call of the protocol's program for an operation: at the operation's address, with its selector and
  parameters, signed as the call authority of its protocol.\<close>

definition calls_protocol :: "'x env \<Rightarrow> bytes \<Rightarrow> operation_data \<Rightarrow> 'x world \<Rightarrow> 'x world \<Rightarrow> bool" where
  "calls_protocol env h d w w' \<longleftrightarrow>
     (\<exists>meth payload metas infos bump.
        call_payload env h d = Inr (meth, payload) \<and>
        env_invoke_signed env
          \<lparr>ix_program_id = od_protocol_addr d, ix_data = sighash (env_sha256 env) (str ''global'') meth @ payload,
           ix_accounts = metas\<rparr>
          infos [ROOT, str ''CALL_AUTHORITY'', od_protocol_id d, [bump]] w = Inr w')"

lemma execute_operation_runs:
  assumes "execute_operation_accounts env a h w = Inr (i, bump)"
    "execute_infos a (od_protocol_addr (oi_op_data i)) remaining = Inr infos"
    "call_payload env h (oi_op_data i) = Inr (m, payload)"
    "\<forall>ix infos seeds w. ix_program_id ix = od_protocol_addr (oi_op_data i) \<longrightarrow>
       (\<exists>w'. env_invoke_signed env ix infos seeds w = Inr w')"
  shows "\<exists>w' wc. execute_operation env a remaining h w = Inr w' \<and>
           accounts w' (ai_key (ec_op_info a)) = Some (AOp (i\<lparr>oi_status := StExecuted\<rparr>)) \<and>
           calls_protocol env h (oi_op_data i) w wc \<and>
           events w' = events wc @ [ProposalExecuted h (ai_key (ec_executor a))]"
proof -
  let ?d = "oi_op_data i"
  define ix where "ix = \<lparr>ix_program_id = od_protocol_addr ?d,
    ix_data = sighash (env_sha256 env) (str ''global'') m @ payload,
    ix_accounts = List.map meta_of (filter (\<lambda>i. ai_key i \<noteq> od_protocol_addr ?d) infos)\<rparr>"
  have "ix_program_id ix = od_protocol_addr ?d" by (simp add: ix_def)
  then obtain w1 where
    w1: "env_invoke_signed env ix infos [ROOT, str ''CALL_AUTHORITY'', od_protocol_id ?d, [bump]] w = Inr w1"
    using assms(4) by blast
  then have "calls_protocol env h ?d w w1"
    using assms(3) unfolding calls_protocol_def ix_def by blast
  moreover from w1 have "execute_operation env a remaining h w =
      Inr (store (ec_op_info a) (AOp (i\<lparr>oi_status := StExecuted\<rparr>))
             (emit (ProposalExecuted h (ai_key (ec_executor a))) w1))"
    using assms(1-3) by (simp add: execute_operation_def Let_def ix_def)
  ultimately show ?thesis by auto
qed

lemma execute_step:
  assumes dec: "decode (xe_encode x (ExecuteArgs h)) = Some (ExecuteArgs h)"
    and build: "build_execute_tx x h v = Inr b" and d: "operation_try_from v = Inr d"
    and serves: "endpoint_serves x d h op_pda p w2" and call: "call_succeeds x v"
    and accs: "accounts w2 op_pda = Some (AOp i)"
    and i: "oi_status i = StSigned" "oi_op_data i = d"
  shows "\<exists>w3 wc. process_instruction (xe_env x) decode (ib_instruction b) w2 = Inr w3 \<and>
           accounts w3 op_pda = Some (AOp (i\<lparr>oi_status := StExecuted\<rparr>)) \<and>
           calls_protocol (xe_env x) h d w2 wc \<and> events w3 = events wc @ [ProposalExecuted h (xe_payer x)]"
proof -
  have dv: "od_protocol_id d = td_protocol_id v" "od_protocol_addr d = td_protocol_addr v"
    using d by (auto simp: operation_try_from_def result_simps split: if_splits)
  obtain k b1 b2 where k: "env_find_pda (xe_env x) [ROOT, str ''PROTOCOL'', od_protocol_id d]
        (env_photon_id (xe_env x)) = Some (k, b1)" "accounts w2 k = Some (AProtocol p)"
      "env_find_pda (xe_env x) [ROOT, str ''OP'', h] (env_photon_id (xe_env x)) = Some (op_pda, b2)"
      "xe_payer x \<in> set (pi_executors p)"
    using serves by (auto simp: endpoint_serves_def Let_def)
  then have ne: "k \<noteq> op_pda" using accs by auto
  obtain ext metas where ext: "get_extension (td_protocol_id v) (xe_extensions x) = Some ext"
      "extension_contract (td_protocol_addr v) ext"
      "px_get_accounts ext (drop 2 (td_function_selector v)) (td_params v) = Inr metas" "metas \<noteq> []"
    and cpi: "\<forall>i infos seeds w. ix_program_id i = td_protocol_addr v \<longrightarrow>
        (\<exists>w'. env_invoke_signed (xe_env x) i infos seeds w = Inr w')"
    using call by (auto simp: call_succeeds_def)
  obtain ca b3 where ca: "env_find_pda (xe_env x) [ROOT, str ''CALL_AUTHORITY'', td_protocol_id v]
      (env_photon_id (xe_env x)) = Some (ca, b3)"
    using build by (auto simp: build_execute_tx_def result_simps)
  define a where "a = \<lparr>ec_executor = info_of (meta_new (xe_payer x) True),
    ec_op_info = info_of (meta_new op_pda False), ec_protocol_info = info_of (meta_new_readonly k False),
    ec_call_authority = info_of (meta_new_readonly ca False)\<rparr>"
  have proc: "process_instruction (xe_env x) decode (ib_instruction b) w2 =
      execute_operation (xe_env x) a (List.map info_of metas) h w2"
    using build k(1,3) dv ca ext(1,3)
    by (auto simp: build_execute_tx_def photon_bundle_def process_instruction_def dec result_simps a_def
        Let_def split: if_splits)
  have acc: "execute_operation_accounts (xe_env x) a h w2 = Inr (i, b3)"
    using k accs ne ca dv i
    by (simp add: execute_operation_accounts_def a_def check_defs check_seeds_def load_op_def load_protocol_def)
  obtain infos where infos: "execute_infos a (od_protocol_addr d) (List.map info_of metas) = Inr infos"
    using extension_contract.infos_accepted [OF ext(2,3,4)] dv(2) by auto
  obtain m payload where pl: "call_payload (xe_env x) h d = Inr (m, payload)"
    using d by (auto simp: operation_try_from_def selector_try_from_def call_payload_def result_simps
        split: if_splits list.splits)
  show ?thesis
    unfolding proc using execute_operation_runs [OF acc infos [folded i(2)] pl [folded i(2)]] cpi dv(2) i(2)
    by (simp add: a_def)
qed

lemma three_instructions_complete:
  assumes "build_ixs x h op ENew = Inr bs" and "operation_try_from (so_operation_data op) = Inr d"
    and "\<forall>a \<in> {LoadArgs d h, SignArgs h (List.map signature_into (so_signatures op)), ExecuteArgs h}.
           decode (xe_encode x a) = Some a"
    and "endpoint_ready x d h op_pda p w" and "operation_fits x d h p"
    and "signatures_suffice x h (List.map signature_into (so_signatures op)) p"
    and "call_succeeds x (so_operation_data op)"
  shows "\<exists>w' i wa wc. process_all (xe_env x) decode bs w = Inr w' \<and>
           accounts w' op_pda = Some (AOp i) \<and> oi_status i = StExecuted \<and> oi_op_data i = d \<and>
           calls_protocol (xe_env x) h d wa wc \<and> events w' = events wc @ [ProposalExecuted h (xe_payer x)]"
proof -
  obtain l s e where b: "build_load_ix x h (so_operation_data op) = Inr l" "build_sign_tx x h op = Inr s"
      "build_execute_tx x h (so_operation_data op) = Inr e" "bs = [l, s, e]"
    using assms(1) by (auto simp: build_ixs_def result_simps)
  have dec: "decode (xe_encode x (LoadArgs d h)) = Some (LoadArgs d h)"
      "decode (xe_encode x (SignArgs h (List.map signature_into (so_signatures op)))) =
         Some (SignArgs h (List.map signature_into (so_signatures op)))"
      "decode (xe_encode x (ExecuteArgs h)) = Some (ExecuteArgs h)"
    using assms(3) by simp_all
  have pid: "od_protocol_id d = td_protocol_id (so_operation_data op)"
    using assms(2) by (auto simp: operation_try_from_def result_simps split: if_splits)
  obtain w1 where w1: "process_instruction (xe_env x) decode (ib_instruction l) w = Inr w1"
      "accounts w1 = (accounts w)(op_pda \<mapsto> AOp (loaded_op d))"
    using load_step [OF _ b(1) assms(2,4,5)] dec(1) by blast
  have serves1: "endpoint_serves x d h op_pda p w1"
    using endpoint_serves_update [OF _ w1(2)] assms(4) by (simp add: endpoint_ready_def)
  obtain w2 signers where w2: "process_instruction (xe_env x) decode (ib_instruction s) w1 = Inr w2"
      "accounts w2 = (accounts w1)(op_pda \<mapsto>
         AOp ((loaded_op d)\<lparr>oi_unique_signers := signers, oi_status := StSigned\<rparr>))"
    using sign_step [where decode = decode, OF dec(2) b(2) pid serves1 assms(6)] w1(2) by auto
  have serves2: "endpoint_serves x d h op_pda p w2"
    using endpoint_serves_update [OF serves1 w2(2)] w1(2) by simp
  obtain w3 wc where "process_instruction (xe_env x) decode (ib_instruction e) w2 = Inr w3"
      "accounts w3 op_pda = Some (AOp ((loaded_op d)
         \<lparr>oi_unique_signers := signers, oi_status := StExecuted\<rparr>))"
      "calls_protocol (xe_env x) h d w2 wc" "events w3 = events wc @ [ProposalExecuted h (xe_payer x)]"
    using execute_step [where decode = decode, OF dec(3) b(3) assms(2) serves2 assms(7)] w2(2)
    by (auto simp: loaded_op_def)
  with b(4) w1(1) w2(1) show ?thesis
    by (intro exI [of _ w3] exI [of _ "(loaded_op d)\<lparr>oi_unique_signers := signers, oi_status := StExecuted\<rparr>"]
        exI [of _ w2] exI [of _ wc]) (simp add: loaded_op_def)
qed

text \<open>The executor completes an operation. Take an operation that converts and fits the protocol, an
  endpoint that is ready for it, signatures that reach the target, an extension for the protocol that
  keeps its contract, and a protocol program that accepts the call. Then the three instructions that
  are built for a new operation, in the order they are sent, all succeed on the endpoint; the protocol's
  program is called with the selector and the parameters of the operation; the operation ends
  \<^verbatim>\<open>Executed\<close> with its data unchanged, and the last event reports the execution.\<close>

theorem executor_completes_operation:
  assumes "build_ixs x h op ENew = Inr bs" and "operation_try_from (so_operation_data op) = Inr d"
    and "\<forall>a \<in> {LoadArgs d h, SignArgs h (List.map signature_into (so_signatures op)), ExecuteArgs h}.
           decode (xe_encode x a) = Some a"
    and "endpoint_ready x d h op_pda p w" and "operation_fits x d h p"
    and "signatures_suffice x h (List.map signature_into (so_signatures op)) p"
    and "call_succeeds x (so_operation_data op)"
  shows "\<exists>w' i wa wc. process_all (xe_env x) decode bs w = Inr w' \<and>
           accounts w' op_pda = Some (AOp i) \<and> oi_status i = StExecuted \<and> oi_op_data i = d \<and>
           calls_protocol (xe_env x) h d wa wc \<and> events w' = events wc @ [ProposalExecuted h (xe_payer x)]"
  by (rule three_instructions_complete [OF assms])

definition t_gov :: t_operation_data where
  "t_gov = \<lparr>td_protocol_id = gov_protocol_id, td_meta = replicate 32 0, td_src_chain_id = 0,
     td_src_block_number = 0, td_src_op_tx_id = [], td_nonce = 0, td_dest_chain_id = 100000000000000000000,
     td_protocol_addr = replicate 32 7, td_function_selector = [0, 4] @ gov_selector AddExecutor,
     td_params = replicate 32 5, td_reserved = []\<rparr>"

definition signed_gov :: signed_operation where
  "signed_gov = \<lparr>so_operation_data = t_gov,
     so_signatures = [\<lparr>ts_v = 27, ts_r = key 1, ts_s = key 1\<rparr>], so_eob_block_number = 9\<rparr>"

definition sample_executor :: "unit executor" where
  "sample_executor =
     \<lparr>xe_env = sample_env, xe_extensions = [gov_protocol_id \<mapsto> gov_extension sample_env], xe_payer = key 4,
      xe_attempts = 3,
      xe_encode = (\<lambda>a. case a of LoadArgs _ _ \<Rightarrow> [0] | SignArgs _ _ \<Rightarrow> [1] | ExecuteArgs _ \<Rightarrow> [2]),
      xe_deserialize = (\<lambda>data. if data = [] then None else Some (op_info_1 StSigned))\<rparr>"

definition sample_decode :: "bytes \<Rightarrow> ix_args option" where
  "sample_decode bs =
     (if bs = [0] then Some (LoadArgs op_1 hash_1) else if bs = [1] then Some (SignArgs hash_1 [sig_1])
      else Some (ExecuteArgs hash_1))"

lemma t_gov_converts: "operation_try_from t_gov = Inr op_1"
  by (simp add: t_gov_def operation_try_from_def selector_try_from_def op_1_def op_data_zeroed_def)

lemma t_gov_utf8: "utf8_valid gov_protocol_id"
  by (rule utf8_valid_ascii) (simp add: gov_protocol_id_def GOV_PROTOCOL_ID_def str_def list_all_iff)

lemma sample_gov_accounts:
  "\<exists>accs. gov_get_accounts sample_env (gov_selector AddExecutor) (replicate 32 5) = Inr accs \<and> accs \<noteq> []"
proof -
  have "gov_try_from (selector_u32 (gov_selector AddExecutor)) = Inr AddExecutor"
    using selector_u32_code [of AddExecutor "[]"] by (simp only: gov_try_from_iff append_Nil2)
  moreover have "length (gov_selector AddExecutor) = 4" by (simp add: gov_selector_def)
  moreover from this have "gov_selector AddExecutor \<noteq> []" by (metis list.size(3) zero_neq_numeral)
  ultimately show ?thesis
    by (auto simp: gov_get_accounts_def ext_address_def find_address_def)
qed

lemma sample_build: "\<exists>bs. build_ixs sample_executor hash_1 signed_gov ENew = Inr bs"
  using sample_gov_accounts t_gov_utf8 t_gov_converts
  by (auto simp: build_ixs_def build_load_ix_def build_sign_tx_def build_execute_tx_def sample_executor_def
      signed_gov_def photon_address_def find_address_def get_extension_def gov_extension_def t_gov_def)

lemma sample_ready:
  "od_protocol_id d = gov_protocol_id \<Longrightarrow> endpoint_ready sample_executor d hash_1 (op_key hash_1) gov_info_1 w_init"
  by (simp add: endpoint_ready_def endpoint_serves_def sample_executor_def w_init_def gov_info_1_def)

lemma sample_fits:
  assumes "od_protocol_id d = gov_protocol_id" "op_hash_with_message (pad 32) d = Inr hash_1"
    and "od_dest_chain_id d = 100000000000000000000" "od_protocol_addr d = replicate 32 7"
  shows "operation_fits sample_executor d hash_1 gov_info_1"
  using assms zero_protocol by (simp add: operation_fits_def sample_executor_def gov_info_1_def)

lemma sample_suffice: "signatures_suffice sample_executor hash_1 [sig_1] gov_info_1"
  by (simp add: signatures_suffice_def sample_executor_def sample_env_def sample_recover transmitters_1 rate_1
      consensus_rate_def RATE_DECIMALS_def)

lemma sample_call:
  assumes "td_protocol_id v = gov_protocol_id" "td_protocol_addr v = replicate 32 7"
    and "td_function_selector v = [0, 4] @ gov_selector AddExecutor" "td_params v = replicate 32 5"
  shows "call_succeeds sample_executor v"
proof -
  have "extension_contract (replicate 32 7) (gov_extension sample_env)"
    using gov.extension_contract_axioms [of sample_env] by simp
  then show ?thesis
    using sample_gov_accounts assms
    by (auto simp: call_succeeds_def sample_executor_def get_extension_def gov_extension_def)
qed

theorem executor_completes_operation_witness:
  "\<exists>bs w' i. build_ixs sample_executor hash_1 signed_gov ENew = Inr bs \<and>
     process_all sample_env sample_decode bs w_init = Inr w' \<and>
     accounts w' (op_key hash_1) = Some (AOp i) \<and> oi_status i = StExecuted"
proof -
  obtain bs where bs: "build_ixs sample_executor hash_1 signed_gov ENew = Inr bs"
    using sample_build by blast
  have sigs: "List.map signature_into (so_signatures signed_gov) = [sig_1]"
    by (simp add: signed_gov_def signature_into_def sig_1_def)
  have op: "so_operation_data signed_gov = t_gov" by (simp add: signed_gov_def)
  have env: "xe_env sample_executor = sample_env" by (simp add: sample_executor_def)
  have dec: "\<forall>a \<in> {LoadArgs op_1 hash_1, SignArgs hash_1 [sig_1], ExecuteArgs hash_1}.
      sample_decode (xe_encode sample_executor a) = Some a"
    by (simp add: sample_executor_def sample_decode_def)
  have d: "od_protocol_id op_1 = gov_protocol_id" "od_dest_chain_id op_1 = 100000000000000000000"
      "od_protocol_addr op_1 = replicate 32 7" by (simp_all add: op_1_def)
  have "call_succeeds sample_executor t_gov" by (rule sample_call) (simp_all add: t_gov_def)
  with executor_completes_operation [OF bs, of op_1 sample_decode "op_key hash_1" gov_info_1 w_init]
    bs dec sample_ready [OF d(1)] sample_fits [OF d(1) op_1_hash d(2,3)] sample_suffice t_gov_converts
  show ?thesis by (auto simp: sigs env op)
qed

subsection \<open>The processing loop settles\<close>

fun exec_rank :: "executor_op_status \<Rightarrow> nat" where
  "exec_rank ENew = 0"
| "exec_rank ELoaded = 1"
| "exec_rank ESigned = 2"
| "exec_rank EExecuted = 3"
| "exec_rank EFailed = 4"

lemma get_op_status_not_failed: "get_op_status x h account \<noteq> Inr EFailed"
proof -
  have "executor_status_from st \<noteq> EFailed" for st by (cases st) simp_all
  then show ?thesis by (auto simp: get_op_status_def result_simps split: option.splits)
qed

lemma process_loop_body:
  "process_loop x h op turns k prev =
     (if \<not> tn_balance_ok (turns k) then process_loop x h op turns (Suc k) prev
      else
        (case get_op_status x h (tn_account (turns k)) of
           Inl (ExecErr e) \<Rightarrow> Some ([], Inr ())
         | Inl (ExecPanic p) \<Rightarrow> Some ([], Inl (ExecPanic p))
         | Inr read \<Rightarrow>
             let seen = observe (xe_attempts x) read prev; st = fst seen
             in if st = EExecuted \<or> st = EFailed then Some ([ack_executed op h st], Inr ())
                else
                  (case build_ixs x h op st of
                     Inl f \<Rightarrow> Some ([], Inl f)
                   | Inr bundles \<Rightarrow>
                       (case tn_send (turns k) bundles of
                          Inl e \<Rightarrow> Some ([], Inl (ExecErr (ExecTransactor e)))
                        | Inr u \<Rightarrow> process_loop x h op turns (Suc k) (snd seen)))))"
  by (subst process_loop.simps)
     (simp add: loop_turn_def Let_def split: sum.split exec_fault.split)

lemmas process_loop_induct =
  process_loop.raw_induct [of _ "(((((x, h), op), turns), k), prev)", unfolded prod.case, rotated, consumes 1]
  for x h op turns k prev

subsection \<open>The turns of a run\<close>

text \<open>
  \<open>loop_state\<close> is what the loop carries into its \<open>k\<close>-th turn, if it gets there; \<open>ends_at\<close> is its last turn, with
  the result of the run; \<open>readings\<close> are the turns that asked for the status of the operation. The result of a
  run is that of its last turn, and there is only one last turn.
\<close>

fun loop_state ::
    "'x executor \<Rightarrow> bytes \<Rightarrow> signed_operation \<Rightarrow> (nat \<Rightarrow> turn) \<Rightarrow> nat \<Rightarrow> (executor_op_status option \<times> nat) option" where
  "loop_state x h op turns 0 = Some (None, 0)"
| "loop_state x h op turns (Suc k) =
     (case loop_state x h op turns k of
        None \<Rightarrow> None
      | Some prev \<Rightarrow> (case loop_turn x h op (turns k) prev of Inl res \<Rightarrow> None | Inr prev' \<Rightarrow> Some prev'))"

definition ends_at ::
    "'x executor \<Rightarrow> bytes \<Rightarrow> signed_operation \<Rightarrow> (nat \<Rightarrow> turn) \<Rightarrow> nat
     \<Rightarrow> op_acknowledge list \<times> (exec_fault + unit) \<Rightarrow> bool" where
  "ends_at x h op turns j res \<longleftrightarrow>
     (case loop_state x h op turns j of None \<Rightarrow> False | Some prev \<Rightarrow> loop_turn x h op (turns j) prev = Inl res)"

definition readings :: "(nat \<Rightarrow> turn) \<Rightarrow> nat \<Rightarrow> nat list" where
  "readings turns n = filter (\<lambda>i. tn_balance_ok (turns i)) [0..<n]"

lemma readings_Suc:
  "readings turns (Suc n) = (if tn_balance_ok (turns n) then readings turns n @ [n] else readings turns n)"
  by (simp add: readings_def)

lemma process_loop_ends:
  assumes "process_loop x h op turns k prev = Some res" "loop_state x h op turns k = Some prev"
  shows "\<exists>j. ends_at x h op turns j res"
  using assms
proof (induction rule: process_loop_induct)
  case (1 loop x h op turns k prev res)
  show ?case
  proof (cases "loop_turn x h op (turns k) prev")
    case (Inl r)
    with 1 have "ends_at x h op turns k res" by (simp add: ends_at_def)
    then show ?thesis ..
  next
    case (Inr prev')
    with 1 show ?thesis by simp
  qed
qed

lemma process_from_state:
  "loop_state x h op turns j = Some prev \<Longrightarrow> process_operation x h op turns = process_loop x h op turns j prev"
proof (induction j arbitrary: prev)
  case (Suc j)
  then obtain before where "loop_state x h op turns j = Some before" "loop_turn x h op (turns j) before = Inr prev"
    by (auto split: option.splits sum.splits)
  with Suc.IH [OF this(1)] show ?case by (subst (asm) process_loop.simps) simp
qed (simp add: process_operation_def)

lemma process_operation_ends:
  "process_operation x h op turns = Some res \<longleftrightarrow> (\<exists>j. ends_at x h op turns j res)"
proof
  assume "process_operation x h op turns = Some res"
  then show "\<exists>j. ends_at x h op turns j res"
    using process_loop_ends [of x h op turns 0 "(None, 0)" res] by (simp add: process_operation_def)
next
  assume "\<exists>j. ends_at x h op turns j res"
  then obtain j prev where "loop_state x h op turns j = Some prev" "loop_turn x h op (turns j) prev = Inl res"
    by (auto simp: ends_at_def split: option.splits)
  then show "process_operation x h op turns = Some res"
    using process_from_state [of x h op turns j prev] by (simp add: process_loop.simps)
qed

lemma loop_state_stops:
  assumes "ends_at x h op turns j res"
  shows "loop_state x h op turns (Suc j + d) = None"
  using assms by (induction d) (auto simp: ends_at_def split: option.splits)

lemma ends_at_unique:
  assumes "ends_at x h op turns i r" "ends_at x h op turns j s"
  shows "i = j"
proof (rule ccontr)
  assume "i \<noteq> j"
  then obtain d where "j = Suc i + d \<or> i = Suc j + d" by (metis less_imp_add_positive linorder_neqE_nat add_Suc_shift gr0_conv_Suc add_Suc)
  then show False
    using assms loop_state_stops [OF assms(1), of d] loop_state_stops [OF assms(2), of d]
    by (auto simp: ends_at_def)
qed

subsection \<open>What the last turn saw\<close>

text \<open>The last \<open>n\<close> readings before turn \<open>k\<close> all gave the status \<open>s\<close>.\<close>

definition read_last ::
    "'x executor \<Rightarrow> bytes \<Rightarrow> (nat \<Rightarrow> turn) \<Rightarrow> nat \<Rightarrow> nat \<Rightarrow> executor_op_status \<Rightarrow> bool" where
  "read_last x h turns k n s \<longleftrightarrow>
     n \<le> length (readings turns k) \<and>
     (\<forall>i \<in> set (take n (rev (readings turns k))). get_op_status x h (tn_account (turns i)) = Inr s)"

lemma read_last_Suc:
  "read_last x h turns (Suc k) (Suc n) s \<longleftrightarrow>
     (if tn_balance_ok (turns k) then get_op_status x h (tn_account (turns k)) = Inr s \<and> read_last x h turns k n s
      else read_last x h turns k (Suc n) s)"
  by (auto simp: read_last_def readings_Suc)

lemma read_last_0 [simp]: "read_last x h turns k 0 s"
  by (simp add: read_last_def)

text \<open>What the loop carries: the status it saw at its last readings, and how often it saw it again.\<close>

definition tallies ::
    "'x executor \<Rightarrow> bytes \<Rightarrow> (nat \<Rightarrow> turn) \<Rightarrow> nat \<Rightarrow> executor_op_status option \<times> nat \<Rightarrow> bool" where
  "tallies x h turns k prev \<longleftrightarrow>
     (case fst prev of
        None \<Rightarrow> True
      | Some s \<Rightarrow> s \<noteq> EExecuted \<and> snd prev < max 1 (xe_attempts x) \<and> read_last x h turns k (Suc (snd prev)) s)"

lemma turn_tallies:
  assumes "tallies x h turns k prev" "loop_turn x h op (turns k) prev = Inr prev'"
  shows "tallies x h turns (Suc k) prev'"
proof (cases "tn_balance_ok (turns k)")
  case False
  with assms show ?thesis by (auto simp: loop_turn_def tallies_def read_last_Suc split: option.splits)
next
  case True
  with assms(2) obtain s where s: "get_op_status x h (tn_account (turns k)) = Inr s"
      "prev' = snd (observe (xe_attempts x) s prev)"
      "fst (observe (xe_attempts x) s prev) \<noteq> EExecuted" "fst (observe (xe_attempts x) s prev) \<noteq> EFailed"
    by (auto simp: loop_turn_def Let_def split: sum.splits exec_fault.splits if_splits)
  with assms(1) True show ?thesis
    by (auto simp: tallies_def read_last_Suc observe_def split: if_splits option.splits)
qed

lemma loop_state_tallies: "loop_state x h op turns k = Some prev \<Longrightarrow> tallies x h turns k prev"
  by (induction k arbitrary: prev)
     (auto simp: tallies_def [of _ _ _ 0] intro: turn_tallies split: option.splits sum.splits)

text \<open>A run makes at most one report, about what its last turn read.\<close>

lemma ends_at_reports:
  assumes "ends_at x h op turns j (acks, r)"
  obtains "acks = []"
  | "acks = [ack_executed op h EExecuted]" "r = Inr ()" "tn_balance_ok (turns j)"
    "get_op_status x h (tn_account (turns j)) = Inr EExecuted"
  | s where "acks = [ack_executed op h EFailed]" "r = Inr ()" "tn_balance_ok (turns j)" "s \<noteq> EExecuted"
    "get_op_status x h (tn_account (turns j)) = Inr s" "read_last x h turns (Suc j) (Suc (max 1 (xe_attempts x))) s"
proof -
  from assms obtain prev where st: "loop_state x h op turns j = Some prev"
    and t: "loop_turn x h op (turns j) prev = Inl (acks, r)"
    by (auto simp: ends_at_def split: option.splits)
  show thesis
  proof (cases "acks = []")
    case False
    with t obtain s where s: "tn_balance_ok (turns j)" "get_op_status x h (tn_account (turns j)) = Inr s" "r = Inr ()"
        "acks = [ack_executed op h (fst (observe (xe_attempts x) s prev))]"
      and ends: "fst (observe (xe_attempts x) s prev) = EExecuted \<or> fst (observe (xe_attempts x) s prev) = EFailed"
      by (auto simp: loop_turn_def Let_def split: sum.splits exec_fault.splits if_splits)
    have "s \<noteq> EFailed" using s(2) get_op_status_not_failed by metis
    with ends consider
      "fst (observe (xe_attempts x) s prev) = EExecuted" "s = EExecuted"
      | "fst (observe (xe_attempts x) s prev) = EFailed" "fst prev = Some s" "xe_attempts x \<le> Suc (snd prev)"
      by (auto simp: observe_def split: if_splits)
    then show thesis
    proof cases
      case 1
      with s that(2) show thesis by simp
    next
      case 2
      then have c: "s \<noteq> EExecuted" "snd prev < max 1 (xe_attempts x)" "read_last x h turns j (Suc (snd prev)) s"
        using loop_state_tallies [OF st] by (simp_all add: tallies_def)
      with 2(3) have "Suc (snd prev) = max 1 (xe_attempts x)" by linarith
      with c(3) s(1,2) have "read_last x h turns (Suc j) (Suc (max 1 (xe_attempts x))) s"
        by (simp add: read_last_Suc)
      with 2 s c(1) that(3) show thesis by simp
    qed
  qed (rule that(1))
qed

text \<open>Turns in which nothing external fails; \<open>st\<close> are the statuses read, which never go back.\<close>

definition turns_ok ::
    "'x executor \<Rightarrow> bytes \<Rightarrow> signed_operation \<Rightarrow> (nat \<Rightarrow> turn) \<Rightarrow> (nat \<Rightarrow> executor_op_status) \<Rightarrow> bool" where
  "turns_ok x h op turns st \<longleftrightarrow>
     (\<forall>k. tn_balance_ok (turns k) \<and> get_op_status x h (tn_account (turns k)) = Inr (st k) \<and>
          exec_rank (st k) \<le> exec_rank (st (Suc k)) \<and> (\<forall>bs. tn_send (turns k) bs = Inr ())) \<and>
     (\<forall>s \<in> {ENew, ELoaded, ESigned}. \<exists>bs. build_ixs x h op s = Inr bs)"

lemma turns_ok_status: "turns_ok x h op turns st \<Longrightarrow> st k \<noteq> EFailed"
  unfolding turns_ok_def by (metis get_op_status_not_failed)

lemma process_step:
  assumes "turns_ok x h op turns st"
  shows "process_loop x h op turns k prev =
    (let seen = observe (xe_attempts x) (st k) prev
     in if fst seen = EExecuted \<or> fst seen = EFailed then Some ([ack_executed op h (fst seen)], Inr ())
        else process_loop x h op turns (Suc k) (snd seen))"
proof -
  have t: "tn_balance_ok (turns k)" "get_op_status x h (tn_account (turns k)) = Inr (st k)"
      "\<And>bs. tn_send (turns k) bs = Inr ()"
      "\<And>s. s \<noteq> EExecuted \<Longrightarrow> s \<noteq> EFailed \<Longrightarrow> \<exists>bs. build_ixs x h op s = Inr bs"
    using assms unfolding turns_ok_def by (auto, metis executor_op_status.exhaust)
  let ?s = "fst (observe (xe_attempts x) (st k) prev)"
  show ?thesis
  proof (cases "?s = EExecuted \<or> ?s = EFailed")
    case True
    then show ?thesis by (subst process_loop_body) (auto simp: t Let_def)
  next
    case False
    then obtain bs where "build_ixs x h op ?s = Inr bs" using t(4) by blast
    with False show ?thesis by (subst process_loop_body) (simp add: t Let_def)
  qed
qed

text \<open>How the loop can end: executed, or the status did not move for \<open>max 1 attempts + 1\<close> readings.\<close>

definition settled :: "nat \<Rightarrow> (nat \<Rightarrow> executor_op_status) \<Rightarrow> executor_op_status \<Rightarrow> bool" where
  "settled attempts st s \<longleftrightarrow>
     s = EExecuted \<and> (\<exists>k. st k = EExecuted) \<or>
     s = EFailed \<and> (\<exists>k. st k \<noteq> EExecuted \<and> (\<forall>j \<le> max 1 attempts. st (k + j) = st k))"

definition run_before :: "nat \<Rightarrow> (nat \<Rightarrow> executor_op_status) \<Rightarrow> nat \<Rightarrow> nat \<Rightarrow> bool" where
  "run_before attempts st k n \<longleftrightarrow>
     n \<le> k \<and> n < max 1 attempts \<and> st k \<noteq> EExecuted \<and> (\<forall>j \<le> n. st (k - n + j) = st k)"

lemma exec_rank_inj: "exec_rank a = exec_rank b \<Longrightarrow> a = b"
  by (cases a; cases b) simp_all

lemma turn_budget: "r' < r \<Longrightarrow> n < b \<Longrightarrow> r' * b < r * b - n" for r r' n b :: nat
proof -
  assume "r' < r" "n < b"
  then have "Suc r' * b \<le> r * b" by (intro mult_le_mono1) simp
  with \<open>n < b\<close> show ?thesis by simp
qed

lemma turn_budget_same: "0 < r \<Longrightarrow> n < b \<Longrightarrow> r * b - Suc n < r * b - n" for r n b :: nat
  using turn_budget [of 0 r n b] by simp

text \<open>One more reading of the same status: it is one too many, or the run gets longer.\<close>

lemma run_extends:
  assumes "run_before attempts st k n" "st (Suc k) = st k"
  shows "\<forall>j \<le> Suc n. st (k - n + j) = st k"
  using assms by (auto simp: run_before_def le_Suc_eq)

lemma stuck_fails:
  assumes ok: "turns_ok x h op turns st" and run: "run_before (xe_attempts x) st k n"
    and same: "st (Suc k) = st k" and "Suc n \<ge> xe_attempts x"
  shows "process_loop x h op turns (Suc k) (Some (st k), n) = Some ([ack_executed op h EFailed], Inr ()) \<and>
           settled (xe_attempts x) st EFailed"
proof -
  have n: "n < max 1 (xe_attempts x)" "st k \<noteq> EExecuted" "\<forall>j \<le> n. st (k - n + j) = st k"
    using run by (auto simp: run_before_def)
  have "max 1 (xe_attempts x) = Suc n" using n(1) assms(4) by linarith
  then have "settled (xe_attempts x) st EFailed"
    using run_extends [OF run same] n(2,3) unfolding settled_def by (metis le0 add.right_neutral)
  with process_step [OF ok, of "Suc k" "(Some (st k), n)"] same assms(4) show ?thesis
    by (auto simp: observe_def)
qed

lemma run_longer:
  assumes "run_before attempts st k n" "st (Suc k) = st k" "Suc n < attempts"
  shows "run_before attempts st (Suc k) (Suc n)"
  using run_extends [OF assms(1,2)] assms by (auto simp: run_before_def)

lemma turn_budget_changed:
  assumes "exec_rank s \<le> exec_rank s'" "s' \<noteq> s" "exec_rank s \<le> 2" "n < b"
  shows "(4 - exec_rank s') * b < (4 - exec_rank s) * b - n"
proof (rule turn_budget [OF _ assms(4)])
  have "exec_rank s < exec_rank s'" using assms(1,2) exec_rank_inj [of s' s] by fastforce
  with assms(3) show "4 - exec_rank s' < 4 - exec_rank s" by linarith
qed

lemma settles_from:
  assumes ok: "turns_ok x h op turns st" and run: "run_before (xe_attempts x) st k n"
  shows "\<exists>s. process_loop x h op turns (Suc k) (Some (st k), n) = Some ([ack_executed op h s], Inr ()) \<and>
           settled (xe_attempts x) st s"
  using run
proof (induction "(4 - exec_rank (st k)) * (xe_attempts x + 2) - n" arbitrary: k n rule: less_induct)
  case less
  let ?A = "xe_attempts x" and ?s = "st (Suc k)"
  have mono: "exec_rank (st k) \<le> exec_rank ?s" using ok by (simp add: turns_ok_def)
  note step = process_step [OF ok, of "Suc k" "(Some (st k), n)"]
  have n: "n < max 1 ?A" "n \<le> k" "st k \<noteq> EExecuted"
    using less.prems by (auto simp: run_before_def)
  have rank: "exec_rank (st k) \<le> 2"
    using n(3) turns_ok_status [OF ok, of k] by (cases "st k") auto
  have again: "\<exists>s. process_loop x h op turns (Suc (Suc k)) (Some ?s, m) =
      Some ([ack_executed op h s], Inr ()) \<and> settled ?A st s"
    if "run_before ?A st (Suc k) m"
      "(4 - exec_rank ?s) * (?A + 2) - m < (4 - exec_rank (st k)) * (?A + 2) - n" for m
    using that by (rule less.hyps [rotated])
  show ?case
  proof (cases "?s = st k")
    case True
    show ?thesis
    proof (cases "Suc n \<ge> ?A")
      case fail: True
      from stuck_fails [OF ok less.prems True fail] show ?thesis by blast
    next
      case False
      have longer: "run_before ?A st (Suc k) (Suc n)"
        using run_longer [OF less.prems True] False by simp
      have "(4 - exec_rank ?s) * (?A + 2) - Suc n < (4 - exec_rank (st k)) * (?A + 2) - n"
        unfolding True using rank n(1) by (intro turn_budget_same) auto
      from again [OF longer this] show ?thesis
        using step True False n(3) turns_ok_status [OF ok, of k] by (simp add: observe_def Let_def)
    qed
  next
    case changed: False
    show ?thesis
    proof (cases "?s = EExecuted")
      case True
      then show ?thesis using step n(3) by (auto simp: observe_def settled_def)
    next
      case False
      have fresh: "run_before ?A st (Suc k) 0" using False by (simp add: run_before_def)
      have "(4 - exec_rank ?s) * (?A + 2) - 0 < (4 - exec_rank (st k)) * (?A + 2) - n"
        unfolding minus_nat.diff_0 using n(1) by (intro turn_budget_changed [OF mono changed rank]) auto
      from again [OF fresh this] show ?thesis
        using step changed False turns_ok_status [OF ok, of "Suc k"] by (simp add: observe_def Let_def)
    qed
  qed
qed

text \<open>C26: An operation is settled. As long as the balance gate lets it through, the account is readable,
  the instructions can be built and sent, and the on-chain status never goes back, the loop ends with
  exactly one acknowledgement: \<^verbatim>\<open>Executed\<close> when that status was read, or \<^verbatim>\<open>Failed\<close> when the status did not
  move for \<open>max 1 executor_attempts\<close> repetitions.\<close>

theorem operation_is_settled:
  assumes "turns_ok x h op turns st"
  shows "\<exists>s. process_operation x h op turns = Some ([ack_executed op h s], Inr ()) \<and>
           settled (xe_attempts x) st s"
proof (cases "st 0 = EExecuted")
  case True
  then show ?thesis
    using process_step [OF assms, of 0 "(None, 0)"]
    by (auto simp: process_operation_def observe_def settled_def)
next
  case False
  then have "run_before (xe_attempts x) st 0 0" by (simp add: run_before_def)
  then show ?thesis
    using settles_from [OF assms] process_step [OF assms, of 0 "(None, 0)"] False
      turns_ok_status [OF assms, of 0]
    by (simp add: process_operation_def observe_def Let_def)
qed

definition sample_turns :: "nat \<Rightarrow> turn" where
  "sample_turns k =
     \<lparr>tn_balance_ok = True, tn_account = (if k = 0 then None else Some [1]), tn_send = (\<lambda>bs. Inr ())\<rparr>"

theorem operation_is_settled_witness:
  "\<exists>s. process_operation sample_executor hash_1 signed_gov sample_turns =
         Some ([ack_executed signed_gov hash_1 s], Inr ()) \<and>
       settled 3 (\<lambda>k. if k = 0 then ENew else ESigned) s"
proof -
  have "\<exists>bs. build_ixs sample_executor hash_1 signed_gov s = Inr bs"
    if "s \<in> {ENew, ELoaded, ESigned}" for s
    using that sample_build by (auto simp: build_ixs_def result_simps)
  moreover have "get_op_status sample_executor hash_1 (tn_account (sample_turns k)) =
      Inr (if k = 0 then ENew else ESigned)" for k
    by (simp add: get_op_status_def sample_turns_def sample_executor_def photon_address_def find_address_def
        op_info_1_def)
  ultimately have "turns_ok sample_executor hash_1 signed_gov sample_turns (\<lambda>k. if k = 0 then ENew else ESigned)"
    by (simp add: turns_ok_def sample_turns_def)
  from operation_is_settled [OF this] show ?thesis by (simp add: sample_executor_def)
qed

subsection \<open>Operations that cannot be built\<close>

definition finishes :: "u64 \<Rightarrow> bytes \<Rightarrow> reg_event \<Rightarrow> bool" where
  "finishes b h ev \<longleftrightarrow>
     (\<exists>a. ev = RAck a \<and> oa_block_number a = b \<and> oa_op_hash a = h \<and>
          (oa_status a = EExecuted \<or> oa_status a = EFailed))"

lemma pending_kept:
  assumes "(b, h) \<in> p" "\<forall>ev \<in> set evs. \<not> finishes b h ev"
  shows "(b, h) \<in> foldl pending_step p evs"
  using assms
proof (induction evs arbitrary: p)
  case (Cons ev evs)
  have "(b, h) \<in> pending_step p ev"
  proof (cases ev)
    case (RAck a)
    then show ?thesis using Cons.prems by (cases "oa_status a") (auto simp: finishes_def)
  qed (use Cons.prems in simp)
  with Cons show ?case by simp
qed simp

lemma pending_after_new:
  assumes "oa_status a = ENew" "\<forall>ev \<in> set post. \<not> finishes (oa_block_number a) (oa_op_hash a) (snd ev)"
  shows "(oa_block_number a, oa_op_hash a) \<in> pending (pre @ (t, RAck a) # post)"
  unfolding pending_def
  using pending_kept [of "oa_block_number a" "oa_op_hash a" _ "List.map snd post"] assms by simp

text \<open>C27: An operation that cannot be built stalls the acknowledgement of blocks. When \<open>build_ixs\<close> fails on
  the first status read (no extension for the protocol, a malformed selector or address), the
  operation is announced to the registry and never reported again; and from then on, unless some other
  report finishes it, no poll returns its block or any later one.\<close>

theorem unbuildable_operation_stalls:
  assumes "t_op_hash_with_message (env_keccak (xe_env x)) (so_operation_data op) = Inr h"
    and "tn_balance_ok (turns 0)" and "get_op_status x h (tn_account (turns 0)) = Inr st"
    and "build_ixs x h op st = Inl (ExecErr e)"
  shows "execute_one x op turns = Some (Inr [ack_executed op h ENew]) \<and>
    (\<forall>pre t post timeout bs r now b r'.
       reg_run (pre @ (t, RAck (ack_executed op h ENew)) # post) (op_registry_new timeout) = (bs, r) \<longrightarrow>
       (\<forall>ev \<in> set post. \<not> finishes (so_eob_block_number op) h (snd ev)) \<longrightarrow>
       get_block_to_ack now r = (Some b, r') \<longrightarrow> unat b < unat (so_eob_block_number op))"
proof (intro conjI allI impI)
  have "st \<noteq> EExecuted" "st \<noteq> EFailed" using assms(4) by (auto simp: build_ixs_def)
  then have "process_operation x h op turns = Some ([], Inl (ExecErr e))"
    unfolding process_operation_def
    by (subst process_loop_body) (simp add: assms(2-4) observe_def Let_def)
  then show "execute_one x op turns = Some (Inr [ack_executed op h ENew])"
    by (simp add: execute_one_def assms(1))
next
  fix pre t post timeout bs r now b r'
  assume "reg_run (pre @ (t, RAck (ack_executed op h ENew)) # post) (op_registry_new timeout) = (bs, r)"
    and "\<forall>ev \<in> set post. \<not> finishes (so_eob_block_number op) h (snd ev)"
    and "get_block_to_ack now r = (Some b, r')"
  then show "unat b < unat (so_eob_block_number op)"
    using poll_below_pending pending_after_new [of "ack_executed op h ENew" post pre t]
    by (simp add: ack_executed_def)
qed

lemma t_gov_hash: "t_op_hash_with_message (pad 32) t_gov = Inr hash_1"
proof -
  have "op_data_evm op_1 = Inr (t_op_data_evm t_gov)"
    by (simp add: op_data_evm_def t_op_data_evm_def t_gov_def op_1_def op_data_zeroed_def gov_selector_def)
  then show ?thesis
    using op_1_hash
    by (simp add: t_op_hash_with_message_def t_op_hash_def op_hash_with_message_def op_hash_def hash_1_def)
qed

theorem unbuildable_operation_stalls_witness:
  "execute_one (sample_executor\<lparr>xe_extensions := Map.empty\<rparr>) signed_gov sample_turns =
     Some (Inr [ack_executed signed_gov hash_1 ENew])"
proof -
  note t_gov_hash
  moreover have "build_ixs (sample_executor\<lparr>xe_extensions := Map.empty\<rparr>) hash_1 signed_gov ENew =
      Inl (ExecErr ExtensionMng)"
    using t_gov_utf8 t_gov_converts
    by (simp add: build_ixs_def build_load_ix_def build_sign_tx_def build_execute_tx_def
        sample_executor_def photon_address_def find_address_def get_extension_def signed_gov_def)
      (simp add: t_gov_def t_gov_utf8)
  moreover have "get_op_status (sample_executor\<lparr>xe_extensions := Map.empty\<rparr>) hash_1
      (tn_account (sample_turns 0)) = Inr ENew"
    by (simp add: get_op_status_def sample_turns_def sample_executor_def photon_address_def find_address_def)
  ultimately show ?thesis
    using unbuildable_operation_stalls [of "sample_executor\<lparr>xe_extensions := Map.empty\<rparr>" signed_gov hash_1
        sample_turns ENew ExtensionMng]
    by (simp add: sample_executor_def signed_gov_def sample_turns_def)
qed

end
