(* ===== verification/Executor_App.thy ===== *)
theory Executor_App
  imports Consumer Block_Updater Executor_Pipeline
begin

section \<open>The executor application\<close>

text \<open>
  \<^verbatim>\<open>transmitter-module/src/executor_app/app.rs\<close> with \<^verbatim>\<open>execute_operations\<close> of \<^verbatim>\<open>operation_manager.rs\<close>: the
  consumer puts operations into a channel of 64 places, up to 64 of them are processed concurrently, their
  acknowledgements go to the registry of blocks, and the block it chooses is written to the database. All
  run in one \<^verbatim>\<open>select!\<close>, so the application is a step relation over the state of its parts. The processing
  of an operation is \<open>process_operation\<close> with the turns the node gives it; its acknowledgement, if any, is sent
  when it ends. The reload of extensions, which changes the executor between two steps, is left to
  \<open>listen_update\<close>. \<open>xp_taken\<close> records the operations that were taken from the channel, with their hashes, and
  \<open>xp_ended\<close> those whose processing ended, each with the turns that the node gave to this very run.
\<close>

definition OP_DATA_SENDER_CAPACITY :: nat where "OP_DATA_SENDER_CAPACITY = 64"

datatype exec_stop = ConsumerReturned | ExecPanicked panic

record exec_app =
  xp_consumer :: consumer
  xp_channel :: "signed_operation list"
  xp_running :: "(signed_operation \<times> bytes) list"
  xp_updater :: block_updater
  xp_stop :: "exec_stop option"
  xp_taken :: "(signed_operation \<times> bytes) list"
  xp_ended :: "(signed_operation \<times> bytes \<times> (nat \<Rightarrow> turn)) list"

definition exec_app_new :: exec_app where
  "exec_app_new =
     \<lparr>xp_consumer = \<lparr>cs_acked = [], cs_receiver = True, cs_sent = []\<rparr>, xp_channel = [], xp_running = [],
      xp_updater = block_updater_new, xp_stop = None, xp_taken = [], xp_ended = []\<rparr>"

definition notify_updater :: "op_acknowledge list \<Rightarrow> block_updater \<Rightarrow> block_updater" where
  "notify_updater acks u = u\<lparr>bu_incoming := bu_incoming u @ acks\<rparr>"

text \<open>A delivery that the consumer takes while the channel has room.\<close>

definition on_delivery ::
    "(bytes \<Rightarrow> transmitter_msg_versioned option) \<Rightarrow> delivery \<Rightarrow> exec_app \<Rightarrow> exec_app" where
  "on_delivery from_str d s =
     (let c = process_operation_data from_str d (xp_consumer s) in
      s\<lparr>xp_consumer := c,
        xp_channel := xp_channel s @ drop (length (cs_sent (xp_consumer s))) (cs_sent c)\<rparr>)"

text \<open>The head of the closure of \<^verbatim>\<open>for_each_concurrent\<close>: the operation is hashed and announced.\<close>

definition take_operation :: "'x executor \<Rightarrow> exec_app \<Rightarrow> exec_app" where
  "take_operation x s =
     (case xp_channel s of
        [] \<Rightarrow> s
      | op # rest \<Rightarrow>
          (case t_op_hash_with_message (env_keccak (xe_env x)) (so_operation_data op) of
             Inl e \<Rightarrow> s\<lparr>xp_stop := Some (ExecPanicked (case e of Panic p \<Rightarrow> p | _ \<Rightarrow> ExplicitPanic))\<rparr>
           | Inr h \<Rightarrow>
               s\<lparr>xp_channel := rest, xp_running := xp_running s @ [(op, h)], xp_taken := xp_taken s @ [(op, h)],
                 xp_updater := notify_updater [ack_executed op h ENew] (xp_updater s)\<rparr>))"

text \<open>The end of the closure for the \<open>i\<close>-th operation in progress, whose run had these turns.\<close>

definition end_operation ::
    "nat \<Rightarrow> (nat \<Rightarrow> turn) \<Rightarrow> op_acknowledge list \<times> (exec_fault + unit) \<Rightarrow> exec_app \<Rightarrow> exec_app" where
  "end_operation i turns res s =
     (case snd res of
        Inl (ExecPanic p) \<Rightarrow> s\<lparr>xp_stop := Some (ExecPanicked p)\<rparr>
      | _ \<Rightarrow> s\<lparr>xp_running := take i (xp_running s) @ drop (Suc i) (xp_running s),
               xp_ended := xp_ended s @ [(fst (xp_running s ! i), snd (xp_running s ! i), turns)],
               xp_updater := notify_updater (fst res) (xp_updater s)\<rparr>)"

inductive exec_step ::
    "'x executor \<Rightarrow> (bytes \<Rightarrow> transmitter_msg_versioned option) \<Rightarrow> exec_app \<Rightarrow> exec_app \<Rightarrow> bool"
    for x from_str where
  deliver: "xp_stop s = None \<Longrightarrow> length (xp_channel s) < OP_DATA_SENDER_CAPACITY \<Longrightarrow>
     exec_step x from_str s (on_delivery from_str d s)"
| begins: "xp_stop s = None \<Longrightarrow> length (xp_running s) < OP_DATA_SENDER_CAPACITY \<Longrightarrow>
     exec_step x from_str s (take_operation x s)"
| ends: "xp_stop s = None \<Longrightarrow> i < length (xp_running s) \<Longrightarrow> xp_running s ! i = (op, h) \<Longrightarrow>
     process_operation x h op turns = Some res \<Longrightarrow>
     exec_step x from_str s (end_operation i turns res s)"
| acknowledge: "xp_stop s = None \<Longrightarrow>
     exec_step x from_str s (s\<lparr>xp_updater := process_acknowledges now (xp_updater s)\<rparr>)"
| poll: "xp_stop s = None \<Longrightarrow>
     exec_step x from_str s (s\<lparr>xp_updater := write_acknowledges now (xp_updater s)\<rparr>)"
| store: "xp_stop s = None \<Longrightarrow>
     exec_step x from_str s (s\<lparr>xp_updater := on_last_processed_block ok (xp_updater s)\<rparr>)"
| consumer_ends: "xp_stop s = None \<Longrightarrow> exec_step x from_str s (s\<lparr>xp_stop := Some ConsumerReturned\<rparr>)"

inductive exec_reachable ::
    "'x executor \<Rightarrow> (bytes \<Rightarrow> transmitter_msg_versioned option) \<Rightarrow> exec_app \<Rightarrow> bool"
    for x from_str where
  start: "exec_reachable x from_str exec_app_new"
| step: "exec_reachable x from_str s \<Longrightarrow> exec_step x from_str s s' \<Longrightarrow> exec_reachable x from_str s'"

subsection \<open>What an acknowledgement stands for\<close>

text \<open>
  What the run of an operation on its turns came to: its last reading was \<^verbatim>\<open>Executed\<close>, or it gave the operation
  up, having read the same other status at its last \<open>max 1 executor_attempts + 1\<close> readings.
\<close>

definition read_executed :: "'x executor \<Rightarrow> signed_operation \<Rightarrow> bytes \<Rightarrow> (nat \<Rightarrow> turn) \<Rightarrow> bool" where
  "read_executed x op h turns \<longleftrightarrow>
     (\<exists>j. ends_at x h op turns j ([ack_executed op h EExecuted], Inr ()) \<and> tn_balance_ok (turns j) \<and>
        get_op_status x h (tn_account (turns j)) = Inr EExecuted)"

definition gave_up :: "'x executor \<Rightarrow> signed_operation \<Rightarrow> bytes \<Rightarrow> (nat \<Rightarrow> turn) \<Rightarrow> bool" where
  "gave_up x op h turns \<longleftrightarrow>
     (\<exists>j s. ends_at x h op turns j ([ack_executed op h EFailed], Inr ()) \<and> s \<noteq> EExecuted \<and>
        read_last x h turns (Suc j) (Suc (max 1 (xe_attempts x))) s)"

definition reported :: "'x executor \<Rightarrow> signed_operation \<Rightarrow> bytes \<Rightarrow> (nat \<Rightarrow> turn) \<Rightarrow> op_acknowledge \<Rightarrow> bool" where
  "reported x op h turns a \<longleftrightarrow>
     a = ack_executed op h EExecuted \<and> read_executed x op h turns \<or>
     a = ack_executed op h EFailed \<and> gave_up x op h turns"

lemma process_operation_reported:
  assumes "process_operation x h op turns = Some res" "a \<in> set (fst res)"
  shows "reported x op h turns a"
proof -
  obtain j where j: "ends_at x h op turns j (fst res, snd res)" using assms(1) process_operation_ends by fastforce
  then show ?thesis
  proof (cases rule: ends_at_reports)
    case 1
    with assms(2) show ?thesis by simp
  next
    case 2
    with j assms(2) show ?thesis by (auto simp: reported_def read_executed_def)
  next
    case (3 s)
    with j assms(2) show ?thesis by (auto simp: reported_def gave_up_def)
  qed
qed

subsection \<open>Every acknowledgement is justified\<close>

text \<open>It announces an operation that was taken, or reports a run that ended, as that run went.\<close>

definition justified ::
    "'x executor \<Rightarrow> (signed_operation \<times> bytes) list \<Rightarrow> (signed_operation \<times> bytes \<times> (nat \<Rightarrow> turn)) list
     \<Rightarrow> op_acknowledge \<Rightarrow> bool" where
  "justified x taken ended a \<longleftrightarrow>
     (\<exists>(op, h) \<in> set taken. a = ack_executed op h ENew) \<or>
     (\<exists>(op, h, turns) \<in> set ended. reported x op h turns a)"

lemma justified_more: "justified x taken ended a \<Longrightarrow> justified x (taken @ ts) (ended @ es) a"
  by (auto simp: justified_def)

lemmas justified_taken = justified_more [where es = "[]", simplified]
  and justified_ended = justified_more [where ts = "[]", simplified]

fun ack_in :: "reg_event \<Rightarrow> op_acknowledge set" where
  "ack_in (RAck a) = {a}"
| "ack_in RPoll = {}"

definition updater_acks :: "block_updater \<Rightarrow> op_acknowledge set" where
  "updater_acks u = set (bu_incoming u) \<union> (\<Union>e \<in> set (bu_history u). ack_in (snd e))"

lemma updater_acks_notify [simp]: "updater_acks (notify_updater acks u) = updater_acks u \<union> set acks"
  by (auto simp: updater_acks_def notify_updater_def)

lemma updater_acks_tasks [simp]:
  "updater_acks (process_acknowledges now u) = updater_acks u"
  "updater_acks (write_acknowledges now u) = updater_acks u"
  "updater_acks (on_last_processed_block ok u) = updater_acks u"
  by (auto simp: updater_acks_def process_acknowledges_def write_acknowledges_def on_last_processed_block_def
      split: list.splits prod.splits)

lemma updater_reachable_notify:
  assumes "updater_reachable u"
  shows "updater_reachable (notify_updater acks u)"
proof (induction acks rule: rev_induct)
  case Nil
  with assms show ?case by (simp add: notify_updater_def)
next
  case (snoc a acks)
  from updater_reachable.step [OF snoc incoming [of _ a]] show ?case by (simp add: notify_updater_def)
qed

definition exec_inv :: "'x executor \<Rightarrow> exec_app \<Rightarrow> bool" where
  "exec_inv x s \<longleftrightarrow>
     updater_reachable (xp_updater s)
     \<and> (\<forall>a \<in> updater_acks (xp_updater s). justified x (xp_taken s) (xp_ended s) a)
     \<and> set (xp_running s) \<subseteq> set (xp_taken s)
     \<and> (\<forall>(op, h, turns) \<in> set (xp_ended s). (op, h) \<in> set (xp_taken s))
     \<and> (\<forall>(op, h) \<in> set (xp_taken s).
          t_op_hash_with_message (env_keccak (xe_env x)) (so_operation_data op) = Inr h)
     \<and> cs_sent (xp_consumer s) = List.map fst (xp_taken s) @ xp_channel s
     \<and> length (xp_channel s) \<le> OP_DATA_SENDER_CAPACITY \<and> length (xp_running s) \<le> OP_DATA_SENDER_CAPACITY"

lemma delivery_keeps:
  assumes "exec_inv x s" "length (xp_channel s) < OP_DATA_SENDER_CAPACITY"
  shows "exec_inv x (on_delivery from_str d s)"
proof -
  have "length (decoded from_str d) \<le> 1"
    by (auto simp: decoded_def split: option.split transmitter_msg_versioned.split transmitter_msg_impl.split)
  then show ?thesis
    using assms
    by (auto simp: exec_inv_def on_delivery_def Let_def process_operation_data_eq take_in_def)
qed

lemma take_keeps:
  assumes "exec_inv x s" "length (xp_running s) < OP_DATA_SENDER_CAPACITY"
  shows "exec_inv x (take_operation x s)"
proof -
  have "justified x (taken @ [(op, h)]) ended (ack_executed op h ENew)" for taken ended op h
    by (simp add: justified_def)
  with assms show ?thesis
    by (cases "xp_channel s")
       (auto simp: exec_inv_def take_operation_def updater_reachable_notify justified_taken split: sum.splits)
qed

lemma end_keeps:
  assumes "exec_inv x s" "i < length (xp_running s)" "xp_running s ! i = (op, h)"
    and "process_operation x h op turns = Some res"
  shows "exec_inv x (end_operation i turns res s)"
proof (cases "\<exists>p. snd res = Inl (ExecPanic p)")
  case True
  with assms(1) show ?thesis by (auto simp: end_operation_def exec_inv_def)
next
  case False
  have "(op, h) \<in> set (xp_taken s)" using assms(1-3) nth_mem by (force simp: exec_inv_def)
  moreover have "justified x (xp_taken s) (xp_ended s @ [(op, h, turns)]) a" if "a \<in> set (fst res)" for a
    using process_operation_reported [OF assms(4) that] by (auto simp: justified_def)
  moreover have "set (take i (xp_running s) @ drop (Suc i) (xp_running s)) \<subseteq> set (xp_running s)"
    by (auto dest: in_set_takeD in_set_dropD)
  moreover have "length (take i (xp_running s) @ drop (Suc i) (xp_running s)) \<le> length (xp_running s)" by simp
  moreover from False have "end_operation i turns res s =
      s\<lparr>xp_running := take i (xp_running s) @ drop (Suc i) (xp_running s),
        xp_ended := xp_ended s @ [(op, h, turns)], xp_updater := notify_updater (fst res) (xp_updater s)\<rparr>"
    using assms(3) by (auto simp: end_operation_def split: sum.splits exec_fault.splits)
  ultimately show ?thesis
    using assms(1) unfolding exec_inv_def by (auto simp: updater_reachable_notify justified_ended)
qed

lemma exec_step_keeps:
  assumes "exec_step x from_str s s'" "exec_inv x s"
  shows "exec_inv x s'"
  using assms(1)
proof (cases rule: exec_step.cases)
  case (deliver d)
  with assms(2) show ?thesis by (simp add: delivery_keeps)
next
  case begins
  with assms(2) show ?thesis by (simp add: take_keeps)
next
  case (ends i op h turns res)
  with end_keeps [OF assms(2)] show ?thesis by blast
next
  case (acknowledge now)
  with assms(2) show ?thesis
    by (auto simp: exec_inv_def intro: updater_reachable.step updater_step.acknowledge)
next
  case (poll now)
  with assms(2) show ?thesis by (auto simp: exec_inv_def intro: updater_reachable.step updater_step.poll)
next
  case (store ok)
  with assms(2) show ?thesis by (auto simp: exec_inv_def intro: updater_reachable.step updater_step.store)
next
  case consumer_ends
  with assms(2) show ?thesis by (simp add: exec_inv_def)
qed

lemma exec_reachable_inv: "exec_reachable x from_str s \<Longrightarrow> exec_inv x s"
proof (induction rule: exec_reachable.induct)
  case start
  show ?case
    by (auto simp: exec_inv_def exec_app_new_def updater_acks_def block_updater_new_def
        intro: updater_reachable.start [unfolded block_updater_new_def])
qed (rule exec_step_keeps)

subsection \<open>The stored block\<close>

text \<open>C39: A stored block is settled. When the database holds block \<open>b\<close>, a poll of the registry chose \<open>b\<close>; and for
  every operation of block \<open>b\<close> or an earlier one whose announcement the registry had processed before that
  poll, the run of an operation with that block and hash had ended, and had reported before the poll:
  either its last reading was \<^verbatim>\<open>Executed\<close>, or it gave the operation up after reading the same other status at
  its last \<open>max 1 executor_attempts + 1\<close> readings. (An operation of such a block that is taken later is not
  covered: the registry does not know of it when it chooses.)\<close>

theorem stored_block_settled:
  assumes "exec_reachable x from_str s" "bu_stored (xp_updater s) = Some b"
  shows "\<exists>before now after. bu_history (xp_updater s) = before @ (now, RPoll) # after
    \<and> fst (get_block_to_ack now (registry_after before)) = Some b
    \<and> (\<forall>t a. (t, RAck a) \<in> set before \<longrightarrow> oa_status a = ENew \<longrightarrow> unat (oa_block_number a) \<le> unat b \<longrightarrow>
         (\<exists>op h turns t' f. (op, h) \<in> set (xp_taken s) \<and> (op, h, turns) \<in> set (xp_ended s)
            \<and> oa_block_number a = so_eob_block_number op \<and> oa_op_hash a = h
            \<and> (t', RAck f) \<in> set before
            \<and> (f = ack_executed op h EExecuted \<and> read_executed x op h turns
               \<or> f = ack_executed op h EFailed \<and> gave_up x op h turns)))"
proof -
  have inv: "exec_inv x s" by (rule exec_reachable_inv [OF assms(1)])
  have up: "updater_inv (xp_updater s)" using inv updater_reachable_inv by (simp add: exec_inv_def)
  obtain before now after where h: "bu_history (xp_updater s) = before @ (now, RPoll) # after"
      "fst (get_block_to_ack now (registry_after before)) = Some b"
    using up assms(2) by (auto simp: updater_inv_def polled_in_def)
  have "\<exists>op h turns t' f. (op, h) \<in> set (xp_taken s) \<and> (op, h, turns) \<in> set (xp_ended s)
      \<and> oa_block_number a = so_eob_block_number op \<and> oa_op_hash a = h
      \<and> (t', RAck f) \<in> set before \<and> reported x op h turns f"
    if a: "(t, RAck a) \<in> set before" "oa_status a = ENew" "unat (oa_block_number a) \<le> unat b" for t a
  proof -
    have "unat b < unat (oa_block_number a)" if "(oa_block_number a, oa_op_hash a) \<in> Op_Registry.pending before"
      using poll_below_pending [OF prod.collapse [symmetric] _ that] h(2) by (metis prod.collapse)
    then have "(oa_block_number a, oa_op_hash a) \<notin> Op_Registry.pending before" using a(3) by fastforce
    moreover obtain pre post where "before = pre @ (t, RAck a) # post" using a(1) by (meson split_list)
    ultimately obtain ev where "ev \<in> set post" and fin: "finishes (oa_block_number a) (oa_op_hash a) (snd ev)"
      using pending_after_new [OF a(2), of post pre t] by blast
    then have "(fst ev, snd ev) \<in> set before" using \<open>before = pre @ (t, RAck a) # post\<close> by simp
    moreover from fin obtain f where f: "snd ev = RAck f" "oa_block_number f = oa_block_number a"
      "oa_op_hash f = oa_op_hash a" "oa_status f = EExecuted \<or> oa_status f = EFailed"
      by (auto simp: finishes_def)
    ultimately have ev: "(fst ev, RAck f) \<in> set before" by simp
    then have "f \<in> updater_acks (xp_updater s)" using h(1) by (force simp: updater_acks_def)
    then have "justified x (xp_taken s) (xp_ended s) f" using inv by (simp add: exec_inv_def)
    then obtain op h turns where r: "(op, h, turns) \<in> set (xp_ended s)" "reported x op h turns f"
      using f(4) by (auto simp: justified_def ack_executed_def)
    moreover have "(op, h) \<in> set (xp_taken s)" using r(1) inv by (auto simp: exec_inv_def)
    moreover have "oa_block_number a = so_eob_block_number op" "oa_op_hash a = h"
      using r(2) f(2,3) by (auto simp: reported_def ack_executed_def)
    ultimately show ?thesis using ev by blast
  qed
  with h show ?thesis unfolding reported_def by blast
qed

definition done_executor :: "unit executor" where
  "done_executor = sample_executor\<lparr>xe_deserialize := \<lambda>_. Some (op_info_1 StExecuted)\<rparr>"

definition sample_from_str :: "bytes \<Rightarrow> transmitter_msg_versioned option" where
  "sample_from_str bs = Some (V1 (MsgSignedOperation signed_gov))"

definition done_turns :: "nat \<Rightarrow> turn" where
  "done_turns k = \<lparr>tn_balance_ok = True, tn_account = Some [1], tn_send = \<lambda>bs. Inr ()\<rparr>"

definition sample_exec :: exec_app where
  "sample_exec =
     (let s1 = take_operation done_executor
                 (on_delivery sample_from_str \<lparr>dl_tag = 0, dl_data = [], dl_ack_ok = True\<rparr> exec_app_new);
          s2 = end_operation 0 done_turns ([ack_executed signed_gov hash_1 EExecuted], Inr ()) s1
      in s2\<lparr>xp_updater := on_last_processed_block True (write_acknowledges 10000
              (process_acknowledges 1 (process_acknowledges 0 (xp_updater s2))))\<rparr>)"

lemma done_process:
  "process_operation done_executor hash_1 signed_gov done_turns =
     Some ([ack_executed signed_gov hash_1 EExecuted], Inr ())"
proof -
  have "get_op_status done_executor hash_1 (Some [1]) = Inr EExecuted"
    by (simp add: get_op_status_def done_executor_def sample_executor_def photon_address_def find_address_def
        op_info_1_def)
  then show ?thesis
    unfolding process_operation_def by (subst process_loop_body) (simp add: observe_def Let_def done_turns_def)
qed

lemma done_hash:
  "t_op_hash_with_message (env_keccak (xe_env done_executor)) (so_operation_data signed_gov) = Inr hash_1"
  using t_gov_hash by (simp add: done_executor_def sample_executor_def signed_gov_def)

lemma sample_exec_stages:
  "take_operation done_executor (on_delivery sample_from_str \<lparr>dl_tag = 0, dl_data = [], dl_ack_ok = True\<rparr> exec_app_new) =
     \<lparr>xp_consumer = \<lparr>cs_acked = [0], cs_receiver = True, cs_sent = [signed_gov]\<rparr>, xp_channel = [],
      xp_running = [(signed_gov, hash_1)],
      xp_updater = notify_updater [ack_executed signed_gov hash_1 ENew] block_updater_new, xp_stop = None,
      xp_taken = [(signed_gov, hash_1)], xp_ended = []\<rparr>"
  by (simp add: take_operation_def on_delivery_def process_operation_data_def sample_from_str_def exec_app_new_def
      done_hash)

lemma sample_exec_reachable: "exec_reachable done_executor sample_from_str sample_exec"
proof -
  let ?reach = "exec_reachable done_executor sample_from_str"
  let ?s0 = "on_delivery sample_from_str \<lparr>dl_tag = 0, dl_data = [], dl_ack_ok = True\<rparr> exec_app_new"
  define s1 where "s1 = take_operation done_executor ?s0"
  define s2 where "s2 = end_operation 0 done_turns ([ack_executed signed_gov hash_1 EExecuted], Inr ()) s1"
  have "?reach ?s0"
    by (rule exec_reachable.step [OF exec_reachable.start deliver])
       (simp_all add: exec_app_new_def OP_DATA_SENDER_CAPACITY_def)
  then have r1: "?reach s1" unfolding s1_def
    by (rule exec_reachable.step [OF _ begins])
       (simp_all add: exec_app_new_def on_delivery_def Let_def OP_DATA_SENDER_CAPACITY_def)
  have "?reach s2" unfolding s2_def
    by (rule exec_reachable.step [OF r1 ends [OF _ _ _ done_process]])
       (simp_all add: s1_def sample_exec_stages)
  moreover have "xp_stop s2 = None" by (simp add: s2_def s1_def sample_exec_stages end_operation_def)
  ultimately have "?reach (s2\<lparr>xp_updater := process_acknowledges 0 (xp_updater s2)\<rparr>)"
    by (intro exec_reachable.step [OF _ exec_step.acknowledge])
  then have "?reach (s2\<lparr>xp_updater := process_acknowledges 1 (process_acknowledges 0 (xp_updater s2))\<rparr>)"
    using exec_reachable.step [OF _ exec_step.acknowledge [of _ done_executor sample_from_str 1]] \<open>xp_stop s2 = None\<close>
    by fastforce
  then have "?reach (s2\<lparr>xp_updater := write_acknowledges 10000 (process_acknowledges 1 (process_acknowledges 0 (xp_updater s2)))\<rparr>)"
    using exec_reachable.step [OF _ exec_step.poll [of _ done_executor sample_from_str 10000]] \<open>xp_stop s2 = None\<close>
    by fastforce
  then have "?reach (s2\<lparr>xp_updater := on_last_processed_block True (write_acknowledges 10000
      (process_acknowledges 1 (process_acknowledges 0 (xp_updater s2))))\<rparr>)"
    using exec_reachable.step [OF _ exec_step.store [of _ done_executor sample_from_str True]] \<open>xp_stop s2 = None\<close>
    by fastforce
  then show ?thesis by (simp add: sample_exec_def s1_def s2_def Let_def)
qed

lemma sample_exec_stored:
  "bu_stored (xp_updater sample_exec) = Some (so_eob_block_number signed_gov)"
  "bu_history (xp_updater sample_exec) =
     [(0, RAck (ack_executed signed_gov hash_1 ENew)), (1, RAck (ack_executed signed_gov hash_1 EExecuted)), (10000, RPoll)]"
  "xp_ended sample_exec = [(signed_gov, hash_1, done_turns)]"
  by (simp_all add: sample_exec_def Let_def sample_exec_stages end_operation_def notify_updater_def ack_executed_def
      on_last_processed_block_def write_acknowledges_def process_acknowledges_def
      block_updater_new_def op_registry_new_def on_acknowledge_def on_new_operation_def
      on_executed_operation_def get_block_to_ack_def ack_loop.simps bm_first_def bm_pop_def
      BLOCK_COLLECTING_TIMEOUT_SEC_def)

lemma stored_block_settled_witness:
  "bu_stored (xp_updater sample_exec) = Some (so_eob_block_number signed_gov)
   \<and> read_executed done_executor signed_gov hash_1 done_turns"
proof -
  obtain before now after where
    split: "bu_history (xp_updater sample_exec) = before @ (now, RPoll) # after" and
    all: "\<forall>t a. (t, RAck a) \<in> set before \<longrightarrow> oa_status a = ENew \<longrightarrow>
       unat (oa_block_number a) \<le> unat (so_eob_block_number signed_gov) \<longrightarrow>
         (\<exists>op h turns t' f. (op, h) \<in> set (xp_taken sample_exec) \<and> (op, h, turns) \<in> set (xp_ended sample_exec)
            \<and> oa_block_number a = so_eob_block_number op \<and> oa_op_hash a = h
            \<and> (t', RAck f) \<in> set before
            \<and> (f = ack_executed op h EExecuted \<and> read_executed done_executor op h turns
               \<or> f = ack_executed op h EFailed \<and> gave_up done_executor op h turns))"
    using stored_block_settled [OF sample_exec_reachable sample_exec_stored(1)] by blast
  have before: "before = [(0, RAck (ack_executed signed_gov hash_1 ENew)), (1, RAck (ack_executed signed_gov hash_1 EExecuted))]"
    using split by (auto simp: sample_exec_stored(2) Cons_eq_append_conv)
  have new: "(0, RAck (ack_executed signed_gov hash_1 ENew)) \<in> set before"
      "oa_status (ack_executed signed_gov hash_1 ENew) = ENew"
      "unat (oa_block_number (ack_executed signed_gov hash_1 ENew)) \<le> unat (so_eob_block_number signed_gov)"
    by (simp_all add: before ack_executed_def)
  have "\<exists>t' f. (t', RAck f) \<in> set before
      \<and> (f = ack_executed signed_gov hash_1 EExecuted \<and> read_executed done_executor signed_gov hash_1 done_turns
         \<or> f = ack_executed signed_gov hash_1 EFailed \<and> gave_up done_executor signed_gov hash_1 done_turns)"
    using all [rule_format, OF new] by (simp only: sample_exec_stored(3)) auto
  moreover have "(t', RAck (ack_executed signed_gov hash_1 EFailed)) \<notin> set before" for t'
    by (simp add: before ack_executed_def)
  ultimately show ?thesis using sample_exec_stored(1) by blast
qed

end
