(* ===== verification/Consumer_Task.thy ===== *)
theory Consumer_Task
  imports Consumer
begin

section \<open>Polling and reconnecting\<close>

text \<open>
  \<^verbatim>\<open>RabbitmqConsumer::execute\<close>: after the queue is declared, a \<^verbatim>\<open>select!\<close> runs the polling loop beside
  \<^verbatim>\<open>process_reconnect\<close>, which waits for the close notification, connects again and replaces the stored
  connection. \<^verbatim>\<open>notify_waiters\<close> wakes only a task that waits in \<^verbatim>\<open>notified()\<close>, so a closing while the task
  connects, or waits for the lock to store the new connection (the polling loop holds it while it hands
  operations over), is not remembered. The callbacks are registered before the connection is stored, so
  the closing of a connection that is not stored yet notifies too.
\<close>

datatype 'e reconnect_phase =
    Waiting bool
  | Reconnecting
  | Storing bool
  | ReconnectFailed "'e connect_fault"

record 'e consumer_task =
  ct_consumer :: consumer
  ct_connection :: "bool option"
  ct_phase :: "'e reconnect_phase"

text \<open>\<open>ct_connection\<close> is the stored connection and whether its channel is open; \<open>Storing up\<close> has connected.\<close>

definition consumer_task_new :: "'e consumer_task" where
  "consumer_task_new =
     \<lparr>ct_consumer = \<lparr>cs_acked = [], cs_receiver = True, cs_sent = []\<rparr>, ct_connection = Some True,
      ct_phase = Waiting False\<rparr>"

text \<open>The broker closes the stored connection, or the one that is about to be stored.\<close>

definition stored_closes :: "'e consumer_task \<Rightarrow> 'e consumer_task" where
  "stored_closes t =
     (let t' = t\<lparr>ct_connection := map_option (\<lambda>_. False) (ct_connection t)\<rparr> in
      case ct_phase t of Waiting _ \<Rightarrow> t'\<lparr>ct_phase := Waiting True\<rparr> | _ \<Rightarrow> t')"

definition store_connection :: "bool \<Rightarrow> 'e consumer_task \<Rightarrow> 'e consumer_task" where
  "store_connection up t = t\<lparr>ct_connection := Some up, ct_phase := Waiting False\<rparr>"

inductive consumer_step ::
    "(bytes \<Rightarrow> transmitter_msg_versioned option) \<Rightarrow> 'e consumer_task \<Rightarrow> 'e consumer_task \<Rightarrow> bool"
    for from_str where
  polls: "(\<forall>f. ct_phase t \<noteq> ReconnectFailed f) \<Longrightarrow>
     poll from_str (ct_connection t) (gets :: nat \<Rightarrow> 'e + delivery option) k (ct_consumer t) = Some (c, k') \<Longrightarrow>
     consumer_step from_str t (t\<lparr>ct_consumer := c\<rparr>)"
| closes: "ct_connection t = Some True \<Longrightarrow> consumer_step from_str t (stored_closes t)"
| new_closes: "ct_phase t = Storing True \<Longrightarrow> consumer_step from_str t (t\<lparr>ct_phase := Storing False\<rparr>)"
| notified: "ct_phase t = Waiting True \<Longrightarrow> consumer_step from_str t (t\<lparr>ct_phase := Reconnecting\<rparr>)"
| connected: "ct_phase t = Reconnecting \<Longrightarrow> consumer_step from_str t (t\<lparr>ct_phase := Storing True\<rparr>)"
| failed: "ct_phase t = Reconnecting \<Longrightarrow> consumer_step from_str t (t\<lparr>ct_phase := ReconnectFailed e\<rparr>)"
| stored: "ct_phase t = Storing up \<Longrightarrow> consumer_step from_str t (store_connection up t)"

inductive consumer_reachable ::
    "(bytes \<Rightarrow> transmitter_msg_versioned option) \<Rightarrow> 'e consumer_task \<Rightarrow> bool"
    for from_str where
  start: "consumer_reachable from_str consumer_task_new"
| step: "consumer_reachable from_str t \<Longrightarrow> consumer_step from_str t t' \<Longrightarrow> consumer_reachable from_str t'"

subsection \<open>A closing that is noticed, and one that is not\<close>

definition live :: "'e consumer_task \<Rightarrow> bool" where
  "live t \<longleftrightarrow> ct_connection t = Some True \<and> ct_phase t = Waiting False"

definition dead :: "'e consumer_task \<Rightarrow> bool" where
  "dead t \<longleftrightarrow> ct_connection t = Some False \<and> ct_phase t = Waiting False"

text \<open>A closing while the task waits is repaired by one connection.\<close>

lemma noticed_close_recovers:
  assumes "live t"
  shows "\<exists>t'. (consumer_step from_str)\<^sup>*\<^sup>* (stored_closes t) t' \<and> live t' \<and> ct_consumer t' = ct_consumer t"
proof -
  let ?a = "stored_closes t"
  let ?b = "?a\<lparr>ct_phase := Reconnecting\<rparr>" and ?c = "?a\<lparr>ct_phase := Storing True\<rparr>"
  have "ct_phase ?a = Waiting True" "ct_consumer ?a = ct_consumer t"
    using assms by (simp_all add: live_def stored_closes_def Let_def)
  then have "consumer_step from_str ?a ?b" "consumer_step from_str ?b ?c"
    "consumer_step from_str ?c (store_connection True ?c)"
    using notified [of ?a from_str] connected [of ?b from_str] stored [of ?c True from_str] by simp_all
  then have "(consumer_step from_str)\<^sup>*\<^sup>* ?a (store_connection True ?c)" by (meson converse_rtranclp_into_rtranclp rtranclp.rtrancl_refl)
  with \<open>ct_consumer ?a = ct_consumer t\<close> show ?thesis
    by (intro exI [of _ "store_connection True ?c"]) (simp add: live_def store_connection_def)
qed

lemma dead_step:
  assumes "consumer_step from_str t t'" "dead t"
  shows "t' = t"
  using assms by (auto simp: dead_def poll_def elim!: consumer_step.cases)

text \<open>The executor can stop consuming for good. If a new connection closes after it was opened and before
  it is stored, which can take as long as the polling loop holds the lock, its close notification finds
  nobody waiting. From then on the stored connection is closed, the executor never connects again, and
  whatever the broker does, no delivery is acknowledged or handed over any more; the process stays up.\<close>

theorem missed_close_ends_consuming:
  assumes "consumer_reachable from_str t" "ct_phase t = Storing True"
    and "(consumer_step from_str)\<^sup>*\<^sup>* (store_connection False (t\<lparr>ct_phase := Storing False\<rparr>)) t'"
  shows "consumer_reachable from_str (store_connection False (t\<lparr>ct_phase := Storing False\<rparr>))
    \<and> ct_connection t' = Some False \<and> ct_phase t' = Waiting False \<and> ct_consumer t' = ct_consumer t"
proof -
  let ?d = "store_connection False (t\<lparr>ct_phase := Storing False\<rparr>)"
  have "consumer_reachable from_str (t\<lparr>ct_phase := Storing False\<rparr>)"
    using consumer_reachable.step [OF assms(1) new_closes [OF assms(2)]] .
  from consumer_reachable.step [OF this stored [of _ False]]
  have "consumer_reachable from_str ?d" by simp
  moreover have "dead ?d" by (simp add: dead_def store_connection_def)
  from assms(3) this have "t' = ?d \<and> dead t'"
    by (induction rule: rtranclp_induct) (use dead_step in blast)+
  ultimately show ?thesis by (simp add: dead_def store_connection_def)
qed

lemma missed_close_ends_consuming_witness:
  "\<exists>t :: nat consumer_task. ct_phase t = Storing True
     \<and> ct_connection (store_connection False (t\<lparr>ct_phase := Storing False\<rparr>)) = Some False
     \<and> consumer_reachable (\<lambda>_. None) (store_connection False (t\<lparr>ct_phase := Storing False\<rparr>))"
proof -
  let ?a = "stored_closes consumer_task_new :: nat consumer_task"
  let ?b = "?a\<lparr>ct_phase := Reconnecting\<rparr>" and ?c = "?a\<lparr>ct_phase := Storing True\<rparr>" and ?f = "\<lambda>_. None"
  have "ct_phase ?a = Waiting True" by (simp add: consumer_task_new_def stored_closes_def Let_def)
  then have "consumer_step ?f consumer_task_new ?a" "consumer_step ?f ?a ?b" "consumer_step ?f ?b ?c"
    using closes [of consumer_task_new ?f] notified [of ?a ?f] connected [of ?b ?f]
    by (simp_all add: consumer_task_new_def)
  then have c: "consumer_reachable ?f ?c" by (meson consumer_reachable.intros)
  from missed_close_ends_consuming [OF c _ rtranclp.rtrancl_refl] show ?thesis
    by (intro exI [of _ ?c]) simp
qed

end
