(* ===== verification/Round_Robin.thy ===== *)
theory Round_Robin
  imports Photon_Util
begin

section \<open>Round-robin pools\<close>

text \<open>
  \<^verbatim>\<open>solana-transactor/src/round_robin.rs\<close>. A reference into the pool is its index. The modulus of an
  empty pool divides by zero, which panics. \<open>item_picker\<close> is what a client relies on: the index it
  is given is in range and its measure is the greatest of the pool.
\<close>

record 'a round_robin =
  rr_pool :: "'a list"
  rr_current :: nat

definition round_robin_new :: "'a list \<Rightarrow> 'a round_robin" where
  "round_robin_new xs = \<lparr>rr_pool = xs, rr_current = 0\<rparr>"

definition rr_len :: "'a round_robin \<Rightarrow> nat" where
  "rr_len rr = length (rr_pool rr)"

definition rr_is_empty :: "'a round_robin \<Rightarrow> bool" where
  "rr_is_empty rr \<longleftrightarrow> rr_pool rr = []"

definition pull_next :: "'a round_robin \<Rightarrow> panic + 'a option \<times> 'a round_robin" where
  "pull_next rr =
     (if rr_pool rr = [] then Inl DivisionByZero
      else Inr (if rr_current rr < rr_len rr then Some (rr_pool rr ! rr_current rr) else None,
                rr\<lparr>rr_current := (rr_current rr + 1) mod rr_len rr\<rparr>))"

text \<open>The loop of \<^verbatim>\<open>pull_by_max\<close> from index \<open>i\<close>; the measure itself may panic.\<close>

fun max_scan ::
    "('a \<Rightarrow> panic + u64) \<Rightarrow> nat \<Rightarrow> 'a list \<Rightarrow> nat \<Rightarrow> u64 \<Rightarrow> panic + nat \<times> u64" where
  "max_scan f i [] current_index current_max = Inr (current_index, current_max)"
| "max_scan f i (a # as) current_index current_max =
     bindE (f a) (\<lambda>x.
     if x > current_max then max_scan f (Suc i) as i x
     else max_scan f (Suc i) as current_index current_max)"

definition pull_by_max ::
    "('a \<Rightarrow> panic + u64) \<Rightarrow> 'a round_robin \<Rightarrow> panic + (nat \<times> u64) \<times> 'a round_robin" where
  "pull_by_max f rr =
     bindE (max_scan f 0 (rr_pool rr) 0 0) (\<lambda>(i, m).
     if rr_pool rr = [] then Inl DivisionByZero
     else Inr ((i, m), rr\<lparr>rr_current := (i + 1) mod rr_len rr\<rparr>))"

subsection \<open>Rotation\<close>

fun pull_many :: "nat \<Rightarrow> 'a round_robin \<Rightarrow> panic + 'a option list" where
  "pull_many 0 rr = Inr []"
| "pull_many (Suc n) rr =
     bindE (pull_next rr) (\<lambda>(x, rr'). bindE (pull_many n rr') (\<lambda>xs. Inr (x # xs)))"

lemma pull_many_rotates:
  assumes "rr_current rr < rr_len rr"
  shows "pull_many n rr =
           Inr (List.map (\<lambda>k. Some (rr_pool rr ! ((rr_current rr + k) mod rr_len rr))) [0..<n])"
  using assms
proof (induction n arbitrary: rr)
  case (Suc n)
  let ?rr = "rr\<lparr>rr_current := (rr_current rr + 1) mod rr_len rr\<rparr>"
  have ne: "rr_pool rr \<noteq> []" using Suc.prems by (auto simp: rr_len_def)
  then have "pull_next rr = Inr (Some (rr_pool rr ! rr_current rr), ?rr)"
    using Suc.prems by (simp add: pull_next_def)
  moreover have "pull_many n ?rr =
      Inr (List.map (\<lambda>k. Some (rr_pool rr ! ((rr_current rr + Suc k) mod rr_len rr))) [0..<n])"
    using Suc.IH [of ?rr] ne by (simp add: rr_len_def mod_simps)
  ultimately show ?case
    using Suc.prems by (simp add: map_upt_Suc del: upt_Suc)
qed simp

subsection \<open>The greatest measure\<close>

lemma max_scan_spec:
  assumes "\<And>a. a \<in> set as \<Longrightarrow> f a = Inr (g a)"
  shows "\<exists>ci cm. max_scan f i as c m = Inr (ci, cm) \<and> m \<le> cm \<and> (\<forall>a \<in> set as. g a \<le> cm) \<and>
           (ci = c \<and> cm = m \<or> (\<exists>j < length as. ci = i + j \<and> cm = g (as ! j)))"
  using assms
proof (induction as arbitrary: i c m)
  case (Cons a as)
  show ?case
  proof (cases "g a > m")
    case True
    then show ?thesis
      using Cons.prems Cons.IH [of "Suc i" i "g a"]
      by simp (smt (verit, ccfv_threshold) Suc_less_eq2 add_Suc_right add_0_right le_cases3 less_imp_le nth_Cons_0 nth_Cons_Suc order_trans zero_less_Suc)
  next
    case False
    then show ?thesis
      using Cons.prems Cons.IH [of "Suc i" c m]
      by simp (smt (verit, ccfv_threshold) Suc_less_eq2 add_Suc_right linorder_not_less nth_Cons_Suc order_trans)
  qed
qed simp

lemma pull_by_max_spec:
  assumes "rr_pool rr \<noteq> []" "\<And>a. a \<in> set (rr_pool rr) \<Longrightarrow> f a = Inr (g a)"
  shows "\<exists>i rr'. pull_by_max f rr = Inr ((i, g (rr_pool rr ! i)), rr') \<and> i < rr_len rr \<and>
           (\<forall>a \<in> set (rr_pool rr). g a \<le> g (rr_pool rr ! i)) \<and> rr_pool rr' = rr_pool rr"
proof -
  obtain i m where scan: "max_scan f 0 (rr_pool rr) 0 0 = Inr (i, m)"
      and top: "\<forall>a \<in> set (rr_pool rr). g a \<le> m"
      and at: "i = 0 \<and> m = 0 \<or> (\<exists>j < length (rr_pool rr). i = j \<and> m = g (rr_pool rr ! j))"
    using max_scan_spec [of "rr_pool rr" f g 0 0 0] assms(2) by auto
  have "i < length (rr_pool rr)" "m = g (rr_pool rr ! i)"
    using at top assms(1) by (auto dest: bspec [of _ _ "rr_pool rr ! 0"])
  with scan top assms(1) show ?thesis by (auto simp: pull_by_max_def rr_len_def)
qed

subsection \<open>The contract of a pool\<close>

locale item_picker =
  fixes items :: "'p \<Rightarrow> 'a list"
    and pick :: "('a \<Rightarrow> panic + u64) \<Rightarrow> 'p \<Rightarrow> panic + (nat \<times> u64) \<times> 'p"
  assumes pick_max:
    "items p \<noteq> [] \<Longrightarrow> (\<forall>a \<in> set (items p). f a = Inr (g a)) \<Longrightarrow>
     \<exists>i p'. pick f p = Inr ((i, g (items p ! i)), p') \<and> i < length (items p) \<and>
            (\<forall>a \<in> set (items p). g a \<le> g (items p ! i)) \<and> items p' = items p"
begin

text \<open>Picking by the time that has passed since the last use picks the least recently used item.\<close>

lemma pick_oldest:
  assumes "items p \<noteq> []" "\<forall>a \<in> set (items p). used a \<le> now"
    "\<forall>a \<in> set (items p). f a = Inr (now - used a)"
  shows "\<exists>i p'. pick f p = Inr ((i, now - used (items p ! i)), p') \<and> i < length (items p) \<and>
           (\<forall>a \<in> set (items p). used (items p ! i) \<le> used a) \<and> items p' = items p"
proof -
  obtain i p' where i: "pick f p = Inr ((i, now - used (items p ! i)), p')" "i < length (items p)"
      "\<forall>a \<in> set (items p). now - used a \<le> now - used (items p ! i)" "items p' = items p"
    using pick_max [of p f "\<lambda>a. now - used a"] assms by blast
  have "used (items p ! i) \<le> used a" if "a \<in> set (items p)" for a
  proof -
    have "used (items p ! i) \<le> now" "used a \<le> now" "now - used a \<le> now - used (items p ! i)"
      using i(2,3) assms(2) that by auto
    then show ?thesis by (simp add: word_le_nat_alt unat_sub)
  qed
  with i show ?thesis by blast
qed

end

interpretation rr: item_picker rr_pool pull_by_max
proof unfold_locales
  fix p :: "'a round_robin" and f :: "'a \<Rightarrow> panic + u64" and g
  assume "rr_pool p \<noteq> []" "\<forall>a \<in> set (rr_pool p). f a = Inr (g a)"
  then show "\<exists>i p'. pull_by_max f p = Inr ((i, g (rr_pool p ! i)), p') \<and> i < length (rr_pool p) \<and>
      (\<forall>a \<in> set (rr_pool p). g a \<le> g (rr_pool p ! i)) \<and> rr_pool p' = rr_pool p"
    using pull_by_max_spec [of p f g] by (simp add: rr_len_def)
qed

end
