(* ===== verification/Rpc_Pool.thy ===== *)
theory Rpc_Pool
  imports Round_Robin Ix_Compiler
begin

section \<open>The pool of RPC nodes\<close>

text \<open>
  \<^verbatim>\<open>solana-transactor/src/rpc_pool.rs\<close>: the least recently used node is picked for a request, the
  request waits for the node's rate limit, and the looping variants retry with longer and longer
  pauses until a request succeeds. What happens outside during one request is an \<open>rpc_call\<close>: the clock
  when the node is picked and when the request ends (milliseconds), the node's version reply and
  whether the client accepts it, and the reply to the request itself. URLs and versions are types of
  their crates and stay type variables; \<open>parse\<close> is the URL parser. A duration is in nanoseconds.
\<close>

record rpc_entry =
  re_url :: string
  re_ratelimit :: u64

record ('u, 'v) rpc =
  rpc_url :: 'u
  last_accessed :: u64
  min_timeout :: nat
  cached_version :: "'v option"

record ('u, 'v) rpc_pool =
  read_rpcs :: "('u, 'v) rpc round_robin"
  write_rpcs :: "('u, 'v) rpc round_robin"

definition rpc_of_entry :: "(string \<Rightarrow> 'u option) \<Rightarrow> u64 \<Rightarrow> rpc_entry \<Rightarrow> tx_fault + ('u, 'v) rpc" where
  "rpc_of_entry parse now e =
     (if re_ratelimit e = 0 then Inl (TxPanic DivisionByZero)
      else
        bindE (ok_or (parse (re_url e)) (TxErr (InvalidRpc (re_url e)))) (\<lambda>url.
        Inr \<lparr>rpc_url = url, last_accessed = now, min_timeout = 1000000000 div unat (re_ratelimit e),
             cached_version = None\<rparr>))"

text \<open>\<open>clock i\<close> is the \<open>i\<close>-th reading of \<^verbatim>\<open>now()\<close>.\<close>

definition rpc_pool_new ::
    "(string \<Rightarrow> 'u option) \<Rightarrow> (nat \<Rightarrow> u64) \<Rightarrow> rpc_entry list \<Rightarrow> rpc_entry list
     \<Rightarrow> tx_fault + ('u, 'v) rpc_pool" where
  "rpc_pool_new parse clock reads writes =
     (if reads = [] then Inl (TxErr NoReadRpcs)
      else if writes = [] then Inl (TxErr NoWriteRpcs)
      else
        bindE (mapE (\<lambda>(i, e). rpc_of_entry parse (clock i) e) (List.enumerate 0 reads)) (\<lambda>rs.
        bindE (mapE (\<lambda>(i, e). rpc_of_entry parse (clock i) e)
                 (List.enumerate (length reads) writes)) (\<lambda>ws.
        Inr \<lparr>read_rpcs = round_robin_new rs, write_rpcs = round_robin_new ws\<rparr>)))"

record ('u, 'v, 'o) rpc_call =
  rc_now :: u64
  rc_version :: "'u \<Rightarrow> 'v option"
  rc_accepts :: "'v \<Rightarrow> bool"
  rc_reply :: "'u \<Rightarrow> 'v option \<Rightarrow> 'o"
  rc_done :: u64

text \<open>
  The version that stays cached, and the one the client is told. \<open>rc_version\<close> is \<open>None\<close> when the
  request for the version or its parsing fails; the request then goes on without one.
\<close>

definition set_client_rpc_version ::
    "('u, 'v, 'o) rpc_call \<Rightarrow> 'u \<Rightarrow> 'v option \<Rightarrow> panic + 'v option" where
  "set_client_rpc_version call url cached =
     (case (case cached of None \<Rightarrow> rc_version call url | Some v \<Rightarrow> Some v) of
        None \<Rightarrow> Inr None
      | Some v \<Rightarrow> if rc_accepts call v then Inr (Some v) else Inl ExpectFailed)"

text \<open>\<^verbatim>\<open>_now - x.last_accessed\<close> is checked.\<close>

definition elapsed_since :: "u64 \<Rightarrow> ('u, 'v) rpc \<Rightarrow> panic + u64" where
  "elapsed_since now r =
     (if last_accessed r \<le> now then Inr (now - last_accessed r) else Inl ArithmeticOverflow)"

text \<open>One request: the node it used, the milliseconds it slept first, and the reply.\<close>

definition with_rpc ::
    "('u, 'v, 'o) rpc_call \<Rightarrow> ('u, 'v) rpc round_robin
     \<Rightarrow> panic + (nat \<times> nat \<times> 'o) \<times> ('u, 'v) rpc round_robin" where
  "with_rpc call rr =
     bindE (pull_by_max (elapsed_since (rc_now call)) rr) (\<lambda>((i, elapsed), rr1).
     let r = rr_pool rr1 ! i;
         min_ms = min_timeout r div 1000000;
         slept = (if unat elapsed < min_ms then min_ms - unat elapsed else 0)
     in bindE (set_client_rpc_version call (rpc_url r) (cached_version r)) (\<lambda>version.
        Inr ((i, slept, rc_reply call (rpc_url r) version),
             rr1\<lparr>rr_pool := (rr_pool rr1)
                   [i := r\<lparr>cached_version := version, last_accessed := rc_done call\<rparr>]\<rparr>)))"

definition with_read_rpc ::
    "('u, 'v, 'o) rpc_call \<Rightarrow> ('u, 'v) rpc_pool \<Rightarrow> panic + (nat \<times> nat \<times> 'o) \<times> ('u, 'v) rpc_pool" where
  "with_read_rpc call p =
     bindE (with_rpc call (read_rpcs p)) (\<lambda>(out, rr). Inr (out, p\<lparr>read_rpcs := rr\<rparr>))"

definition with_write_rpc ::
    "('u, 'v, 'o) rpc_call \<Rightarrow> ('u, 'v) rpc_pool \<Rightarrow> panic + (nat \<times> nat \<times> 'o) \<times> ('u, 'v) rpc_pool" where
  "with_write_rpc call p =
     bindE (with_rpc call (write_rpcs p)) (\<lambda>(out, rr). Inr (out, p\<lparr>write_rpcs := rr\<rparr>))"

definition num_read_rpcs :: "('u, 'v) rpc_pool \<Rightarrow> nat" where
  "num_read_rpcs p = rr_len (read_rpcs p)"

definition num_write_rpcs :: "('u, 'v) rpc_pool \<Rightarrow> nat" where
  "num_write_rpcs p = rr_len (write_rpcs p)"

text \<open>
  The retry loop over the requests \<open>calls k\<close>, \<open>calls (k + 1)\<close>, \<open>...\<close>: \<open>i\<close> counts the failures, \<open>x\<close> the
  pauses, and \<open>waits\<close> collects the pauses in seconds, latest first. The counters are 64-bit and
  checked. It has no bound: a loop that never succeeds is \<open>None\<close>.
\<close>

definition u64_checked :: "nat \<Rightarrow> panic + nat" where
  "u64_checked n = (if n < 2 ^ 64 then Inr n else Inl ArithmeticOverflow)"

definition after_failure :: "nat \<Rightarrow> nat \<Rightarrow> nat \<Rightarrow> nat list \<Rightarrow> panic + nat \<times> nat \<times> nat list" where
  "after_failure n i x waits =
     bindE (u64_checked (i + 1)) (\<lambda>i'.
     if i' mod n = 0 then
       bindE (u64_checked (x * 6 + n * 3)) (\<lambda>to_wait.
       bindE (u64_checked (x + 1)) (\<lambda>x'. Inr (i', x', to_wait # waits)))
     else Inr (i', x, waits))"

partial_function (option) with_rpc_loop ::
    "(nat \<Rightarrow> ('u, 'v, 'e + 'o) rpc_call) \<Rightarrow> nat \<Rightarrow> nat \<Rightarrow> nat \<Rightarrow> nat list \<Rightarrow> ('u, 'v) rpc round_robin
     \<Rightarrow> (panic + 'o \<times> nat list \<times> ('u, 'v) rpc round_robin) option" where
  "with_rpc_loop calls k i x waits rr =
     (case with_rpc (calls k) rr of
        Inl p \<Rightarrow> Some (Inl p)
      | Inr (out, rr') \<Rightarrow>
          (case snd (snd out) of
             Inr v \<Rightarrow> Some (Inr (v, waits, rr'))
           | Inl e \<Rightarrow>
               (case after_failure (rr_len rr') i x waits of
                  Inl p \<Rightarrow> Some (Inl p)
                | Inr s \<Rightarrow> with_rpc_loop calls (Suc k) (fst s) (fst (snd s)) (snd (snd s)) rr')))"

definition with_read_rpc_loop ::
    "(nat \<Rightarrow> ('u, 'v, 'e + 'o) rpc_call) \<Rightarrow> ('u, 'v) rpc_pool
     \<Rightarrow> (panic + 'o \<times> nat list \<times> ('u, 'v) rpc_pool) option" where
  "with_read_rpc_loop calls p =
     map_option (\<lambda>res. bindE res (\<lambda>(v, waits, rr). Inr (v, rev waits, p\<lparr>read_rpcs := rr\<rparr>)))
       (with_rpc_loop calls 0 0 0 [] (read_rpcs p))"

definition with_write_rpc_loop ::
    "(nat \<Rightarrow> ('u, 'v, 'e + 'o) rpc_call) \<Rightarrow> ('u, 'v) rpc_pool
     \<Rightarrow> (panic + 'o \<times> nat list \<times> ('u, 'v) rpc_pool) option" where
  "with_write_rpc_loop calls p =
     map_option (\<lambda>res. bindE res (\<lambda>(v, waits, rr). Inr (v, rev waits, p\<lparr>write_rpcs := rr\<rparr>)))
       (with_rpc_loop calls 0 0 0 [] (write_rpcs p))"

subsection \<open>One request\<close>

definition pool_ready :: "u64 \<Rightarrow> ('u, 'v) rpc round_robin \<Rightarrow> bool" where
  "pool_ready now rr \<longleftrightarrow> rr_pool rr \<noteq> [] \<and> (\<forall>r \<in> set (rr_pool rr). last_accessed r \<le> now)"

lemma set_client_rpc_version_ok:
  "(\<And>v. rc_accepts call v) \<Longrightarrow> \<exists>version. set_client_rpc_version call url cached = Inr version"
  by (auto simp: set_client_rpc_version_def split: option.splits)

lemma with_rpc_step:
  assumes "pool_ready (rc_now call) rr" "\<And>v. rc_accepts call v"
  shows "\<exists>i slept version rr'.
           with_rpc call rr = Inr ((i, slept, rc_reply call (rpc_url (rr_pool rr ! i)) version), rr') \<and>
           i < rr_len rr \<and>
           (\<forall>r \<in> set (rr_pool rr). last_accessed (rr_pool rr ! i) \<le> last_accessed r) \<and>
           unat (last_accessed (rr_pool rr ! i)) + min_timeout (rr_pool rr ! i) div 1000000
             \<le> unat (rc_now call) + slept \<and>
           rr_pool rr' = (rr_pool rr)[i := (rr_pool rr ! i)
                           \<lparr>cached_version := version, last_accessed := rc_done call\<rparr>]"
proof -
  let ?now = "rc_now call"
  obtain i rr1 where i: "pull_by_max (elapsed_since ?now) rr =
        Inr ((i, ?now - last_accessed (rr_pool rr ! i)), rr1)"
      "i < length (rr_pool rr)"
      "\<forall>r \<in> set (rr_pool rr). last_accessed (rr_pool rr ! i) \<le> last_accessed r"
      "rr_pool rr1 = rr_pool rr"
    using rr.pick_oldest [of rr last_accessed ?now "elapsed_since ?now"] assms(1)
    unfolding pool_ready_def elapsed_since_def by (metis (no_types, lifting))
  have le: "last_accessed (rr_pool rr ! i) \<le> ?now"
    using assms(1) i(2) by (simp add: pool_ready_def)
  obtain version where
    "set_client_rpc_version call (rpc_url (rr_pool rr ! i)) (cached_version (rr_pool rr ! i)) = Inr version"
    using set_client_rpc_version_ok [OF assms(2)] by metis
  moreover define slept where
    "slept = min_timeout (rr_pool rr ! i) div 1000000 - unat (?now - last_accessed (rr_pool rr ! i))"
  ultimately have "with_rpc call rr =
      Inr ((i, slept, rc_reply call (rpc_url (rr_pool rr ! i)) version),
           rr1\<lparr>rr_pool := (rr_pool rr)[i := (rr_pool rr ! i)
                 \<lparr>cached_version := version, last_accessed := rc_done call\<rparr>]\<rparr>)"
    by (simp add: with_rpc_def Let_def i(1,4))
  moreover have "unat (last_accessed (rr_pool rr ! i)) + min_timeout (rr_pool rr ! i) div 1000000
      \<le> unat ?now + slept"
    using le by (simp add: slept_def word_le_nat_alt unat_sub)
  ultimately show ?thesis
    using i(2,3) by (intro exI conjI) (assumption | simp add: rr_len_def)+
qed

subsection \<open>A run of requests\<close>

fun rpc_run ::
    "('u, 'v, 'o) rpc_call list \<Rightarrow> ('u, 'v) rpc round_robin
     \<Rightarrow> panic + (nat \<times> nat \<times> 'o) list \<times> ('u, 'v) rpc round_robin" where
  "rpc_run [] rr = Inr ([], rr)"
| "rpc_run (call # calls) rr =
     bindE (with_rpc call rr) (\<lambda>(out, rr').
     bindE (rpc_run calls rr') (\<lambda>(outs, rr''). Inr (out # outs, rr'')))"

text \<open>The clock of a sequence of requests that follow each other, each of at least a millisecond.\<close>

fun clock_ok :: "u64 \<Rightarrow> ('u, 'v, 'o) rpc_call list \<Rightarrow> bool" where
  "clock_ok t [] \<longleftrightarrow> True"
| "clock_ok t (c # cs) \<longleftrightarrow> t \<le> rc_now c \<and> rc_now c < rc_done c \<and> clock_ok (rc_done c) cs"

text \<open>\<open>U\<close> are the nodes used since \<open>t0\<close>: exactly those were accessed later than \<open>t0\<close>.\<close>

definition used_since :: "u64 \<Rightarrow> nat set \<Rightarrow> ('u, 'v) rpc round_robin \<Rightarrow> bool" where
  "used_since t0 U rr \<longleftrightarrow>
     (\<forall>j < rr_len rr. j \<in> U \<longleftrightarrow> t0 < last_accessed (rr_pool rr ! j))"

lemma oldest_unused:
  assumes "used_since t0 U rr" "i < rr_len rr" "finite U" "card U < rr_len rr"
    "\<forall>r \<in> set (rr_pool rr). last_accessed (rr_pool rr ! i) \<le> last_accessed r"
  shows "i \<notin> U"
proof -
  obtain j where j: "j < rr_len rr" "j \<notin> U"
    using assms(3,4) by (metis card_lessThan card_mono finite_lessThan lessThan_iff linorder_not_less subsetI)
  then have "last_accessed (rr_pool rr ! j) \<le> t0"
    using assms(1) by (simp add: used_since_def linorder_not_less)
  moreover have "last_accessed (rr_pool rr ! i) \<le> last_accessed (rr_pool rr ! j)"
    using assms(5) j(1) by (simp add: rr_len_def)
  ultimately show ?thesis using assms(1,2) by (auto simp: used_since_def linorder_not_less)
qed

lemma used_since_step:
  assumes "used_since t0 U rr" "i < rr_len rr" "t0 < last_accessed r"
    "rr_pool rr' = (rr_pool rr)[i := r]"
  shows "used_since t0 (insert i U) rr'"
  using assms by (auto simp: used_since_def rr_len_def nth_list_update)

lemma pool_ready_step:
  assumes "pool_ready t rr" "t \<le> t'" "last_accessed r = t'" "rr_pool rr' = (rr_pool rr)[i := r]"
  shows "pool_ready t' rr'"
proof -
  have "set (rr_pool rr') \<subseteq> insert r (set (rr_pool rr))"
    using assms(4) set_update_subset_insert by simp
  then have "last_accessed x \<le> t'" if "x \<in> set (rr_pool rr')" for x
    using assms that by (auto simp: pool_ready_def intro: order_trans)
  with assms show ?thesis by (simp add: pool_ready_def)
qed

text \<open>A request that keeps to the rate of the node it uses.\<close>

definition keeps_rate ::
    "('u, 'v) rpc list \<Rightarrow> ('u, 'v, 'o) rpc_call \<Rightarrow> nat \<times> nat \<times> 'o \<Rightarrow> bool" where
  "keeps_rate pool c out \<longleftrightarrow>
     fst out < length pool \<and>
     unat (last_accessed (pool ! fst out)) + min_timeout (pool ! fst out) div 1000000
       \<le> unat (rc_now c) + fst (snd out)"

lemma rpc_run_spec:
  assumes "pool_ready t rr" "clock_ok t calls" "t0 \<le> t" "used_since t0 U rr" "finite U"
    "card U + length calls \<le> rr_len rr" "\<forall>c \<in> set calls. \<forall>v. rc_accepts c v"
    "length pool = rr_len rr" "\<forall>j < rr_len rr. j \<notin> U \<longrightarrow> pool ! j = rr_pool rr ! j"
  shows "\<exists>outs rr'. rpc_run calls rr = Inr (outs, rr') \<and> list_all2 (keeps_rate pool) calls outs \<and>
           distinct (List.map fst outs) \<and> set (List.map fst outs) \<inter> U = {}"
  using assms
proof (induction calls arbitrary: t rr U)
  case (Cons c cs)
  have ready: "pool_ready (rc_now c) rr"
    using Cons.prems by (auto simp: pool_ready_def)
  obtain i slept out version rr' where step: "with_rpc c rr = Inr ((i, slept, out), rr')" "i < rr_len rr"
      "\<forall>r \<in> set (rr_pool rr). last_accessed (rr_pool rr ! i) \<le> last_accessed r"
      "rr_pool rr' = (rr_pool rr)[i := (rr_pool rr ! i)
                           \<lparr>cached_version := version, last_accessed := rc_done c\<rparr>]"
      "unat (last_accessed (rr_pool rr ! i)) + min_timeout (rr_pool rr ! i) div 1000000
         \<le> unat (rc_now c) + slept"
    using with_rpc_step [OF ready] Cons.prems by auto
  have fresh: "i \<notin> U"
    using oldest_unused [OF _ step(2) _ _ step(3)] Cons.prems by simp
  have len: "rr_len rr' = rr_len rr" using step(4) by (simp add: rr_len_def)
  have rate: "keeps_rate pool c (i, slept, out)"
    using step(2,5) fresh Cons.prems by (simp add: keeps_rate_def)
  have "pool_ready (rc_done c) rr'"
    using Cons.prems(2) by (intro pool_ready_step [OF ready _ _ step(4)]) auto
  moreover have "used_since t0 (insert i U) rr'"
    using used_since_step [OF _ step(2) _ step(4)] Cons.prems by auto
  moreover have "t0 \<le> rc_done c"
    using Cons.prems(2,3) by (auto intro: order_trans less_imp_le)
  moreover have "\<forall>j < rr_len rr'. j \<notin> insert i U \<longrightarrow> pool ! j = rr_pool rr' ! j"
    using Cons.prems(9) step(4) len by simp
  ultimately obtain outs rr'' where rest: "rpc_run cs rr' = Inr (outs, rr'')"
      "list_all2 (keeps_rate pool) cs outs"
      "distinct (List.map fst outs)" "set (List.map fst outs) \<inter> insert i U = {}"
    using Cons.IH [of "rc_done c" rr' "insert i U"] Cons.prems fresh len by auto
  with step(1) fresh rate show ?case by auto
qed simp

text \<open>C21: Requests spread over the nodes and keep to their rate. In a sequence of requests that follow
  each other, no longer than the pool, every request is served (none panics) by a node of its own, no
  sooner than that node's minimal interval after its previous use.\<close>

theorem requests_rotate:
  assumes "pool_ready t rr" and "clock_ok t calls" and "length calls \<le> rr_len rr"
    and "\<forall>c \<in> set calls. \<forall>v. rc_accepts c v"
  shows "\<exists>outs rr'. rpc_run calls rr = Inr (outs, rr') \<and> list_all2 (keeps_rate (rr_pool rr)) calls outs \<and>
           distinct (List.map fst outs)"
proof -
  have "used_since t {} rr"
    using assms(1) by (auto simp: used_since_def pool_ready_def rr_len_def linorder_not_less)
  from rpc_run_spec [OF assms(1,2) order_refl this finite.emptyI _ assms(4), of "rr_pool rr"]
  obtain outs rr' where "rpc_run calls rr = Inr (outs, rr')"
      "list_all2 (keeps_rate (rr_pool rr)) calls outs" "distinct (List.map fst outs)"
    using assms(3) by (auto simp: rr_len_def [symmetric])
  then show ?thesis by blast
qed

definition sample_rpc :: "nat \<Rightarrow> u64 \<Rightarrow> (nat, nat) rpc" where
  "sample_rpc u t = \<lparr>rpc_url = u, last_accessed = t, min_timeout = 100000000, cached_version = None\<rparr>"

definition sample_call :: "u64 \<Rightarrow> (nat \<Rightarrow> 'o) \<Rightarrow> (nat, nat, 'o) rpc_call" where
  "sample_call t reply =
     \<lparr>rc_now = t, rc_version = (\<lambda>u. Some u), rc_accepts = (\<lambda>v. True), rc_reply = (\<lambda>u v. reply u),
      rc_done = t + 5\<rparr>"

definition sample_rr :: "(nat, nat) rpc round_robin" where
  "sample_rr = round_robin_new [sample_rpc 7 1000, sample_rpc 8 990]"

lemmas sample_rpc_simps = sample_rpc_def sample_call_def sample_rr_def round_robin_new_def rr_len_def

theorem requests_rotate_witness:
  "\<exists>outs rr'. rpc_run [sample_call 1000 (\<lambda>u. u), sample_call 1010 (\<lambda>u. u)] sample_rr = Inr (outs, rr') \<and>
     list_all2 (keeps_rate (rr_pool sample_rr)) [sample_call 1000 (\<lambda>u. u), sample_call 1010 (\<lambda>u. u)] outs \<and>
     distinct (List.map fst outs)"
  by (rule requests_rotate [where t = 1000]) (simp_all add: sample_rpc_simps pool_ready_def)

subsection \<open>The retry loop\<close>

definition pauses :: "nat \<Rightarrow> nat \<Rightarrow> nat list" where
  "pauses n k = List.map (\<lambda>j. j * 6 + n * 3) [0..<k div n]"

lemma after_failure_pauses:
  assumes "0 < n" "n < 2 ^ 32" "k < 2 ^ 32"
  shows "after_failure n k (k div n) (rev (pauses n k)) = Inr (Suc k, Suc k div n, rev (pauses n (Suc k)))"
proof -
  have "k div n < 2 ^ 32" using assms(3) div_le_dividend [of k n] by linarith
  with assms have "u64_checked (k + 1) = Inr (Suc k)" "u64_checked (k div n + 1) = Inr (Suc (k div n))"
      "u64_checked (k div n * 6 + n * 3) = Inr (k div n * 6 + n * 3)"
    by (simp_all add: u64_checked_def)
  then show ?thesis
    by (simp add: after_failure_def pauses_def div_Suc)
qed

definition calls_ok :: "(nat \<Rightarrow> ('u, 'v, 'e + 'o) rpc_call) \<Rightarrow> nat \<Rightarrow> bool" where
  "calls_ok calls K \<longleftrightarrow>
     (\<forall>k. rc_now (calls k) \<le> rc_done (calls k) \<and> rc_done (calls k) \<le> rc_now (calls (Suc k)) \<and>
          (\<forall>v. rc_accepts (calls k) v)) \<and>
     (\<forall>k < K. \<forall>u v. isl (rc_reply (calls k) u v)) \<and>
     (\<forall>u v. \<not> isl (rc_reply (calls K) u v))"

lemma with_rpc_loop_returns:
  assumes "calls_ok calls K" "K < 2 ^ 32" "n < 2 ^ 32" "k \<le> K"
    "pool_ready (rc_now (calls k)) rr" "rr_len rr = n"
  shows "\<exists>y u v rr'. with_rpc_loop calls k k (k div n) (rev (pauses n k)) rr =
             Some (Inr (y, rev (pauses n K), rr')) \<and> rc_reply (calls K) u v = Inr y"
  using assms(4-6)
proof (induction "K - k" arbitrary: k rr)
  case 0
  then have "k = K" by simp
  obtain i slept version rr' where
    step: "with_rpc (calls K) rr = Inr ((i, slept, rc_reply (calls K) (rpc_url (rr_pool rr ! i)) version), rr')"
    using with_rpc_step [OF 0(3)] assms(1) \<open>k = K\<close> unfolding calls_ok_def by metis
  moreover obtain y where "rc_reply (calls K) (rpc_url (rr_pool rr ! i)) version = Inr y"
    using assms(1) by (metis calls_ok_def sum.collapse(2))
  ultimately show ?case
    using \<open>k = K\<close> by (auto simp: with_rpc_loop.simps [of _ K])
next
  case (Suc d)
  then have k: "k < K" by simp
  obtain i slept version rr' where
    step: "with_rpc (calls k) rr = Inr ((i, slept, rc_reply (calls k) (rpc_url (rr_pool rr ! i)) version), rr')"
    and pool: "rr_pool rr' = (rr_pool rr)[i := (rr_pool rr ! i)
                 \<lparr>cached_version := version, last_accessed := rc_done (calls k)\<rparr>]"
    using with_rpc_step [OF Suc(4)] assms(1) unfolding calls_ok_def by metis
  have reply: "\<exists>e. rc_reply (calls k) (rpc_url (rr_pool rr ! i)) version = Inl e"
    using assms(1) k by (metis calls_ok_def isl_def)
  have n: "0 < n" "rr_len rr' = n"
    using Suc(4,5) pool by (auto simp: pool_ready_def rr_len_def)
  have "pool_ready (rc_now (calls (Suc k))) rr'"
  proof -
    have "pool_ready (rc_done (calls k)) rr'"
      using assms(1) by (intro pool_ready_step [OF Suc(4) _ _ pool]) (auto simp: calls_ok_def)
    then show ?thesis using assms(1) by (auto simp: pool_ready_def calls_ok_def intro: order_trans)
  qed
  moreover have "after_failure n k (k div n) (rev (pauses n k)) =
      Inr (Suc k, Suc k div n, rev (pauses n (Suc k)))"
    using after_failure_pauses n(1) assms(2,3) k by simp
  ultimately show ?case
    using Suc(1) [of "Suc k" rr'] Suc(2) k step reply n by (auto simp: with_rpc_loop.simps [of _ k])
qed

text \<open>C22: The retry loop returns. If the nodes' clocks do not run backwards and the first successful
  request is the one after \<open>K\<close> failures, the loop over the read nodes ends with that request's reply,
  and it paused after every full round over the \<open>n\<close> nodes, \<open>3n\<close> seconds after the first and six more
  after each further one.\<close>

theorem read_loop_returns:
  assumes "calls_ok calls K" and "pool_ready (rc_now (calls 0)) (read_rpcs p)"
    and "K < 2 ^ 32" and "num_read_rpcs p < 2 ^ 32"
  shows "\<exists>y u v p'. with_read_rpc_loop calls p =
             Some (Inr (y, List.map (\<lambda>j. 6 * j + 3 * num_read_rpcs p) [0..<K div num_read_rpcs p], p')) \<and>
           rc_reply (calls K) u v = Inr y \<and> write_rpcs p' = write_rpcs p"
proof -
  obtain y u v rr' where
    loop: "with_rpc_loop calls 0 0 0 [] (read_rpcs p) = Some (Inr (y, rev (pauses (num_read_rpcs p) K), rr'))"
    and y: "rc_reply (calls K) u v = Inr y"
    using with_rpc_loop_returns [OF assms(1,3,4), of 0 "read_rpcs p"] assms(2)
    by (auto simp: num_read_rpcs_def pauses_def)
  show ?thesis
    by (intro exI conjI, simp add: with_read_rpc_loop_def loop pauses_def mult.commute)
      (use y in simp_all)
qed

definition sample_calls :: "nat \<Rightarrow> (nat, nat, nat + nat) rpc_call" where
  "sample_calls k =
     (sample_call 2000 (\<lambda>u. if k < 3 then Inl k else Inr u))\<lparr>rc_done := 2000\<rparr>"

theorem read_loop_returns_witness:
  "\<exists>y u v p'. with_read_rpc_loop sample_calls \<lparr>read_rpcs = sample_rr, write_rpcs = sample_rr\<rparr> =
       Some (Inr (y, [6], p')) \<and>
     rc_reply (sample_calls 3) u v = Inr y \<and> write_rpcs p' = sample_rr"
proof -
  have "calls_ok sample_calls 3"
    by (simp add: calls_ok_def sample_calls_def sample_call_def)
  moreover have "pool_ready (rc_now (sample_calls 0)) sample_rr"
    by (simp add: pool_ready_def sample_calls_def sample_rpc_simps)
  moreover have "rr_len sample_rr = 2" by (simp add: sample_rpc_simps)
  ultimately show ?thesis
    using read_loop_returns [of sample_calls 3 "\<lparr>read_rpcs = sample_rr, write_rpcs = sample_rr\<rparr>"]
    by (simp add: num_read_rpcs_def)
qed

end
