(* ===== verification/Transactor.thy ===== *)
theory Transactor
  imports Ix_Compiler Rpc_Pool "HOL-Library.AList"
begin

section \<open>Sending transactions\<close>

text \<open>
  \<^verbatim>\<open>solana-transactor/src/transactor.rs\<close>: a message is signed with the latest block hash, submitted, and
  its status polled; when no submitted transaction shows up, the message is signed again with a new
  block hash. A background task checks finalization and sends again what was not finalized. The answers
  of the nodes (through the pool) and the clock are fields of \<open>net\<close>, indexed by the number of
  questions asked so far. Every loop that waits for an answer may run forever and is a partial function.
\<close>

text \<open>
  \<open>nt_sign\<close> is \<^verbatim>\<open>VersionedTransaction::try_new\<close> on the message with the block hash; \<open>nt_status\<close> answers with
  the outcome of the transaction (\<open>True\<close> for success) if it is known; \<open>nt_order\<close> is the iteration order of
  the hash map; times are in nanoseconds.
\<close>

record ('b, 't, 's, 'h) net =
  nt_blockhash :: "nat \<Rightarrow> 'h"
  nt_sign :: "'b \<Rightarrow> 'h \<Rightarrow> string + 't"
  nt_submit :: "nat \<Rightarrow> 't \<Rightarrow> string + 's"
  nt_status :: "nat \<Rightarrow> 's \<Rightarrow> string + bool option"
  nt_final_status :: "nat \<Rightarrow> 's \<Rightarrow> string + bool option"
  nt_clock :: "nat \<Rightarrow> nat"
  nt_order :: "nat \<Rightarrow> 's list \<Rightarrow> 's list"
  nt_write_rpcs :: nat

subsection \<open>Confirmation\<close>

partial_function (option) check_tx_status :: "('b, 't, 's, 'h) net \<Rightarrow> 's \<Rightarrow> nat \<Rightarrow> (bool \<times> nat) option" where
  "check_tx_status net s k =
     (case nt_status net k s of
        Inr (Some _) \<Rightarrow> Some (True, Suc k)
      | Inl e \<Rightarrow> check_tx_status net s (Suc k)
      | Inr None \<Rightarrow> Some (False, Suc k))"

text \<open>The innermost loop of \<^verbatim>\<open>send_with_level_confirmed\<close>: the transaction is handed to several nodes.\<close>

partial_function (option) submit_loop :: "('b, 't, 's, 'h) net \<Rightarrow> 't \<Rightarrow> nat \<Rightarrow> nat \<Rightarrow> ('s \<times> nat) option" where
  "submit_loop net tx i k =
     (case nt_submit net k tx of
        Inr s \<Rightarrow>
          if i \<ge> nt_write_rpcs net \<or> i \<ge> 2 then Some (s, Suc k)
          else submit_loop net tx (Suc i) (Suc k)
      | Inl e \<Rightarrow> submit_loop net tx i (Suc k))"

definition EXPIRY :: nat where "EXPIRY = 30 * 10 ^ 9"

text \<open>The \<^verbatim>\<open>for\<close> over the waiting signatures.\<close>

fun check_queue ::
    "('b, 't, 's, 'h) net \<Rightarrow> 's list \<Rightarrow> ('s \<times> nat) list \<Rightarrow> nat \<Rightarrow> ('s option \<times> ('s \<times> nat) list \<times> nat) option" where
  "check_queue net [] queue k = Some (None, queue, k)"
| "check_queue net (s # ss) queue k =
     (case map_of queue s of
        None \<Rightarrow> check_queue net ss queue k
      | Some t \<Rightarrow>
          if nt_clock net k - t > EXPIRY then check_queue net ss (AList.delete s queue) (Suc k)
          else
            (case check_tx_status net s (Suc k) of
               None \<Rightarrow> None
             | Some (True, k') \<Rightarrow> Some (Some s, queue, k')
             | Some (False, k') \<Rightarrow> check_queue net ss queue k'))"

partial_function (option) await_blockhash :: "('b, 't, 's, 'h) net \<Rightarrow> 'h \<Rightarrow> nat \<Rightarrow> ('h \<times> nat) option" where
  "await_blockhash net current k =
     (if nt_blockhash net k \<noteq> current then Some (nt_blockhash net k, Suc k)
      else await_blockhash net current (Suc k))"

text \<open>
  The outer loop. Besides the result and the number of questions it returns the signatures of all
  transactions submitted for the message.
\<close>

partial_function (option) send_loop ::
    "('b, 't, 's, 'h) net \<Rightarrow> 'b \<Rightarrow> 'h \<Rightarrow> ('s \<times> nat) list \<Rightarrow> nat \<Rightarrow> ('t \<times> 's) list
     \<Rightarrow> ((transactor_error + 's) \<times> nat \<times> ('t \<times> 's) list) option" where
  "send_loop net msg current queue k submitted =
     (case nt_sign net msg current of
        Inl e \<Rightarrow> Some (Inl (FailedToSign e), k, submitted)
      | Inr tx \<Rightarrow>
          (case submit_loop net tx 0 k of
             None \<Rightarrow> None
           | Some (s, k1) \<Rightarrow>
               (case check_queue net
                       (nt_order net (Suc k1) (List.map fst (AList.update s (nt_clock net k1) queue)))
                       (AList.update s (nt_clock net k1) queue) (Suc k1) of
                  None \<Rightarrow> None
                | Some (Some found, queue', k2) \<Rightarrow> Some (Inr found, k2, submitted @ [(tx, s)])
                | Some (None, queue', k2) \<Rightarrow>
                    (case await_blockhash net current k2 of
                       None \<Rightarrow> None
                     | Some (h, k3) \<Rightarrow> send_loop net msg h queue' k3 (submitted @ [(tx, s)])))))"

definition send_with_level_confirmed ::
    "('b, 't, 's, 'h) net \<Rightarrow> 'b \<Rightarrow> nat \<Rightarrow> ((transactor_error + 's) \<times> nat \<times> ('t \<times> 's) list) option" where
  "send_with_level_confirmed net msg k = send_loop net msg (nt_blockhash net k) [] (Suc k) []"

subsection \<open>Finalization\<close>

record ('b, 's) finalization_task =
  ft_signature :: 's
  ft_bundle :: 'b

datatype ('b, 's) channel_message = Task "('b, 's) finalization_task" | Stop

text \<open>\<^verbatim>\<open>send_bundle\<close> returns the signature and the message put into the finalizer's channel, if any.\<close>

definition send_bundle ::
    "('b, 't, 's, 'h) net \<Rightarrow> 'b \<Rightarrow> bool \<Rightarrow> nat
     \<Rightarrow> ((transactor_error + 's \<times> ('b, 's) channel_message list) \<times> nat) option" where
  "send_bundle net msg finalize k =
     map_option (\<lambda>(r, k', _).
        (bindE r (\<lambda>s. Inr (s, if finalize then [Task \<lparr>ft_signature = s, ft_bundle = msg\<rparr>] else [])), k'))
       (send_with_level_confirmed net msg k)"

text \<open>The 20 questions of \<^verbatim>\<open>finalize\<close>, five seconds apart.\<close>

fun finalized_within :: "('b, 't, 's, 'h) net \<Rightarrow> nat \<Rightarrow> 's \<Rightarrow> nat \<Rightarrow> bool \<times> nat" where
  "finalized_within net 0 s k = (False, k)"
| "finalized_within net (Suc n) s k =
     (case nt_final_status net k s of
        Inr (Some _) \<Rightarrow> (True, Suc k)
      | Inl e \<Rightarrow> finalized_within net n s (Suc k)
      | Inr None \<Rightarrow> finalized_within net n s (Suc k))"

definition finalize ::
    "('b, 't, 's, 'h) net \<Rightarrow> ('b, 's) finalization_task \<Rightarrow> nat
     \<Rightarrow> ((transactor_error + ('b, 's) channel_message list) \<times> nat) option" where
  "finalize net task k =
     (let (ok, k') = finalized_within net 20 (ft_signature task) k in
      if ok then Some (Inr [], k')
      else map_option (\<lambda>(r, k''). (map_sum id snd r, k'')) (send_bundle net (ft_bundle task) True k'))"

text \<open>
  \<^verbatim>\<open>run_finalizer_loop\<close> on the messages in its channel; what \<^verbatim>\<open>finalize\<close> sends goes behind them. It stops at
  \<^verbatim>\<open>Stop\<close> (the rest of the channel is returned, unprocessed), waits when the channel is empty
  (\<open>Inr []\<close> and \<open>False\<close>), and panics on an error.
\<close>

partial_function (option) run_finalizer_loop ::
    "('b, 't, 's, 'h) net \<Rightarrow> ('b, 's) channel_message list \<Rightarrow> nat
     \<Rightarrow> (panic + bool \<times> ('b, 's) channel_message list) option" where
  "run_finalizer_loop net queue k =
     (case queue of
        [] \<Rightarrow> Some (Inr (False, []))
      | Stop # rest \<Rightarrow> Some (Inr (True, rest))
      | Task t # rest \<Rightarrow>
          (case finalize net t k of
             None \<Rightarrow> None
           | Some (Inl e, k') \<Rightarrow> Some (Inl ExpectFailed)
           | Some (Inr sent, k') \<Rightarrow> run_finalizer_loop net (rest @ sent) k'))"

text \<open>\<^verbatim>\<open>await_all_tx\<close>: ask the finalizer to stop after what is queued, and wait for it.\<close>

definition await_all_tx ::
    "('b, 't, 's, 'h) net \<Rightarrow> ('b, 's) channel_message list \<Rightarrow> nat
     \<Rightarrow> (panic + bool \<times> ('b, 's) channel_message list) option" where
  "await_all_tx net queue k = run_finalizer_loop net (queue @ [Stop]) k"

subsection \<open>Bundles and instructions\<close>

fun send_bundles ::
    "('b, 't, 's, 'h) net \<Rightarrow> 'b list \<Rightarrow> bool \<Rightarrow> nat
     \<Rightarrow> ((transactor_error + unit) \<times> ('b, 's) channel_message list \<times> nat) option" where
  "send_bundles net [] fin k = Some (Inr (), [], k)"
| "send_bundles net (b # bs) fin k =
     (case send_bundle net b fin k of
        None \<Rightarrow> None
      | Some (Inl e, k') \<Rightarrow> Some (Inl e, [], k')
      | Some (Inr (s, ms), k') \<Rightarrow>
          map_option (\<lambda>(r, ms', k''). (r, ms @ ms', k'')) (send_bundles net bs fin k'))"

text \<open>
  \<^verbatim>\<open>send_all_instructions\<close> with \<^verbatim>\<open>parallel_limit = 1\<close>, as the executor calls it: the messages one after the
  other; a message that fails is logged. The last component has the outcome of each message.
\<close>

fun send_each ::
    "('b, 't, 's, 'h) net \<Rightarrow> 'b list \<Rightarrow> bool \<Rightarrow> nat
     \<Rightarrow> (('b \<times> (transactor_error + unit)) list \<times> nat) option" where
  "send_each net [] fin k = Some ([], k)"
| "send_each net (b # bs) fin k =
     (case send_bundles net [b] fin k of
        None \<Rightarrow> None
      | Some (r, ms, k') \<Rightarrow> map_option (\<lambda>(rs, k''). ((b, r) # rs, k'')) (send_each net bs fin k'))"

definition send_all_instructions ::
    "'b compiler_env \<Rightarrow> ('b, 't, 's, 'h) net \<Rightarrow> bytes \<Rightarrow> u64 option \<Rightarrow> alt_account list \<Rightarrow> instruction_bundle list
     \<Rightarrow> bool \<Rightarrow> nat \<Rightarrow> ((tx_fault + unit) \<times> ('b \<times> (transactor_error + unit)) list) option" where
  "send_all_instructions env net payer price alts bs fin k =
     (case compile_all env payer price alts bs of
        Inl e \<Rightarrow> Some (Inl e, [])
      | Inr messages \<Rightarrow> map_option (\<lambda>(rs, k'). (Inr (), rs)) (send_each net messages fin k))"

subsection \<open>What a confirmation means\<close>

lemma check_tx_status_sound:
  assumes "check_tx_status net s k = Some (True, k')"
  shows "\<exists>j outcome. nt_status net j s = Inr (Some outcome)"
proof -
  have "fst r \<longrightarrow> (\<exists>j outcome. nt_status net j s = Inr (Some outcome))" if "check_tx_status net s k = Some r" for r
    using that
    by (induction rule: check_tx_status.raw_induct [rotated, consumes 1])
       (auto split: sum.splits option.splits)
  from this [OF assms] show ?thesis by simp
qed

lemma submit_loop_sound:
  "submit_loop net tx i k = Some r \<Longrightarrow> \<exists>j. nt_submit net j tx = Inr (fst r)"
  by (induction rule: submit_loop.raw_induct [rotated, consumes 1]) (auto split: sum.splits if_splits)

lemma check_queue_sound:
  assumes "check_queue net ss queue k = Some (r, queue', k')"
  shows "fst ` set queue' \<subseteq> fst ` set queue"
    and "r = Some s \<Longrightarrow> s \<in> fst ` set queue \<and> (\<exists>j outcome. nt_status net j s = Inr (Some outcome))"
proof -
  have "fst ` set queue' \<subseteq> fst ` set queue \<and>
    (\<forall>s. r = Some s \<longrightarrow> s \<in> fst ` set queue \<and> (\<exists>j outcome. nt_status net j s = Inr (Some outcome)))"
    using assms
  proof (induction ss arbitrary: queue k)
    case (Cons s ss)
    show ?case
    proof (cases "map_of queue s")
      case None
      with Cons.prems have "check_queue net ss queue k = Some (r, queue', k')" by simp
      from Cons.IH [OF this] show ?thesis .
    next
      case (Some t)
      then have s: "s \<in> fst ` set queue" by (metis domI dom_map_of_conv_image_fst)
      show ?thesis
      proof (cases "nt_clock net k - t > EXPIRY")
        case True
        with Some Cons.prems have "check_queue net ss (AList.delete s queue) (Suc k) = Some (r, queue', k')" by simp
        from Cons.IH [OF this] show ?thesis using dom_delete_subset [of s queue] by blast
      next
        case False
        with Some Cons.prems obtain b k1 where c: "check_tx_status net s (Suc k) = Some (b, k1)"
          by (auto split: option.splits)
        with False Some Cons s show ?thesis
          by (cases b) (auto dest: check_tx_status_sound)
      qed
    qed
  qed simp
  then show "fst ` set queue' \<subseteq> fst ` set queue"
    and "r = Some s \<Longrightarrow> s \<in> fst ` set queue \<and> (\<exists>j outcome. nt_status net j s = Inr (Some outcome))"
    by blast+
qed

text \<open>A transaction that was made from the message and accepted by a node under this signature.\<close>

definition was_submitted :: "('b, 't, 's, 'h) net \<Rightarrow> 'b \<Rightarrow> 't \<times> 's \<Rightarrow> bool" where
  "was_submitted net msg p \<longleftrightarrow>
     (\<exists>h j. nt_sign net msg h = Inr (fst p) \<and> nt_submit net j (fst p) = Inr (snd p))"

definition send_state_ok :: "('b, 't, 's, 'h) net \<Rightarrow> 'b \<Rightarrow> ('s \<times> nat) list \<Rightarrow> ('t \<times> 's) list \<Rightarrow> bool" where
  "send_state_ok net msg queue submitted \<longleftrightarrow>
     fst ` set queue \<subseteq> snd ` set submitted \<and> list_all (was_submitted net msg) submitted"

lemma send_state_step:
  assumes "send_state_ok net msg queue submitted" "nt_sign net msg h = Inr tx" "submit_loop net tx 0 k = Some (s, k1)"
  shows "send_state_ok net msg (AList.update s t queue) (submitted @ [(tx, s)])"
proof -
  have "was_submitted net msg (tx, s)"
    using assms(2) submit_loop_sound [OF assms(3)] by (auto simp: was_submitted_def)
  with assms(1) show ?thesis
    by (auto simp: send_state_ok_def dom_update)
qed

lemma send_loop_sound:
  assumes "send_loop net msg h queue k submitted = Some r" "send_state_ok net msg queue submitted"
  shows "list_all (was_submitted net msg) (snd (snd r))
    \<and> (\<forall>s. fst r = Inr s \<longrightarrow> s \<in> snd ` set (snd (snd r)) \<and> (\<exists>j outcome. nt_status net j s = Inr (Some outcome)))"
  using assms
proof (induction rule: send_loop.raw_induct [rotated, consumes 1])
  case (1 f net msg h queue k submitted r)
  show ?case
  proof (cases "nt_sign net msg h")
    case (Inl e)
    with 1 show ?thesis by (auto simp: send_state_ok_def)
  next
    case (Inr tx)
    with 1(2) obtain s k1 where s: "submit_loop net tx 0 k = Some (s, k1)" by (auto split: option.splits)
    let ?q = "AList.update s (nt_clock net k1) queue" and ?sub = "submitted @ [(tx, s)]"
    have ok: "send_state_ok net msg ?q ?sub" by (rule send_state_step [OF 1(3) Inr s])
    from 1(2) Inr s obtain found q' k2 where
      c: "check_queue net (nt_order net (Suc k1) (List.map fst ?q)) ?q (Suc k1) = Some (found, q', k2)"
      by (auto split: option.splits)
    note sound = check_queue_sound [OF c]
    show ?thesis
    proof (cases found)
      case None
      with 1(2) Inr s c obtain h' k3 where "f net msg h' q' k3 ?sub = Some r" by (auto split: option.splits)
      moreover have "send_state_ok net msg q' ?sub" using ok sound(1) by (auto simp: send_state_ok_def)
      ultimately show ?thesis by (rule 1(1))
    next
      case (Some s')
      with 1(2) Inr s c have "r = (Inr s', k2, ?sub)" by simp
      with ok sound(2) [OF Some] show ?thesis by (auto simp: send_state_ok_def)
    qed
  qed
qed

text \<open>C32: A confirmed signature belongs to the message. When sending returns a signature, it is that of a
  transaction made from this message with some block hash and accepted by a node, and a node has
  reported a status for it; and every transaction submitted on the way was made from this message.\<close>

theorem confirmed_signature_was_sent:
  assumes "send_with_level_confirmed net msg k = Some (Inr s, k', submitted)"
  shows "list_all (was_submitted net msg) submitted \<and> s \<in> snd ` set submitted
    \<and> (\<exists>j outcome. nt_status net j s = Inr (Some outcome))"
  using send_loop_sound [OF assms [unfolded send_with_level_confirmed_def]] by (simp add: send_state_ok_def)

subsection \<open>A network that answers\<close>

text \<open>
  A network on which a message gets through: every message can be signed, a node accepts a transaction
  again and again (with errors in between), the first answer about the status of a signature that is not
  an error has a status, the hash map lists its keys, and no step takes as long as a signature lives.
\<close>

definition healthy :: "('b, 't, 's, 'h) net \<Rightarrow> bool" where
  "healthy net \<longleftrightarrow>
     (\<forall>msg h. \<exists>tx. nt_sign net msg h = Inr tx) \<and>
     (\<forall>tx k. \<exists>j \<ge> k. \<exists>s. nt_submit net j tx = Inr s) \<and>
     (\<forall>s k. \<exists>j \<ge> k. (\<exists>outcome. nt_status net j s = Inr (Some outcome)) \<and>
        (\<forall>i. k \<le> i \<and> i < j \<longrightarrow> (\<exists>e. nt_status net i s = Inl e))) \<and>
     (\<forall>k ss. set (nt_order net k ss) = set ss) \<and>
     (\<forall>k. nt_clock net (Suc k) - nt_clock net k \<le> EXPIRY)"

lemma submit_errors:
  assumes "\<forall>i < n. \<exists>e. nt_submit net (k + i) tx = Inl e"
  shows "submit_loop net tx c k = submit_loop net tx c (k + n)"
  using assms
proof (induction n arbitrary: k)
  case (Suc n)
  from Suc.prems obtain e where "nt_submit net k tx = Inl e" by (metis add.right_neutral zero_less_Suc)
  then have "submit_loop net tx c k = submit_loop net tx c (Suc k)" by (subst submit_loop.simps) simp
  moreover have "\<forall>i < n. \<exists>e. nt_submit net (Suc k + i) tx = Inl e" using Suc.prems by fastforce
  ultimately show ?case using Suc.IH [of "Suc k"] by simp
qed simp

lemma submit_loop_returns:
  assumes "\<forall>k. \<exists>j \<ge> k. \<exists>s. nt_submit net j tx = Inr s"
  shows "\<exists>s k'. submit_loop net tx c k = Some (s, k')"
proof (induction "2 - c" arbitrary: c k rule: less_induct)
  case less
  obtain n where n: "\<exists>s. nt_submit net (k + n) tx = Inr s"
      "\<forall>i < n. \<not> (\<exists>s. nt_submit net (k + i) tx = Inr s)"
    using exists_least_iff [of "\<lambda>n. \<exists>s. nt_submit net (k + n) tx = Inr s"] assms
    by (metis le_add_diff_inverse)
  have "\<exists>e. nt_submit net (k + i) tx = Inl e" if "i < n" for i
    using n(2) that by (cases "nt_submit net (k + i) tx") auto
  then have skip: "submit_loop net tx c k = submit_loop net tx c (k + n)" by (intro submit_errors) blast
  obtain s where s: "nt_submit net (k + n) tx = Inr s" using n(1) by blast
  show ?case
  proof (cases "c \<ge> nt_write_rpcs net \<or> c \<ge> 2")
    case True
    with skip s show ?thesis by (subst (asm) (2) submit_loop.simps) simp
  next
    case False
    then obtain s' k' where "submit_loop net tx (Suc c) (Suc (k + n)) = Some (s', k')"
      using less [of "Suc c"] by fastforce
    with skip s False show ?thesis by (subst (asm) (2) submit_loop.simps) simp
  qed
qed

lemma check_tx_status_finds:
  assumes "nt_status net (k + n) s = Inr (Some outcome)" "\<forall>i < n. \<exists>e. nt_status net (k + i) s = Inl e"
  shows "\<exists>k'. check_tx_status net s k = Some (True, k')"
  using assms
proof (induction n arbitrary: k)
  case 0
  then show ?case by (subst check_tx_status.simps) simp
next
  case (Suc n)
  from Suc.prems(2) obtain e where e: "nt_status net k s = Inl e" by (metis add.right_neutral zero_less_Suc)
  have "\<exists>k'. check_tx_status net s (Suc k) = Some (True, k')"
    by (rule Suc.IH) (use Suc.prems in fastforce)+
  with e show ?case by (subst check_tx_status.simps) simp
qed

text \<open>On such a network a message is confirmed, after its first transaction already.\<close>

lemma healthy_sends:
  assumes "healthy net"
  shows "\<exists>s k' tx. send_with_level_confirmed net msg k = Some (Inr s, k', [(tx, s)])"
proof -
  obtain tx where tx: "nt_sign net msg (nt_blockhash net k) = Inr tx" using assms unfolding healthy_def by blast
  obtain s k1 where s: "submit_loop net tx 0 (Suc k) = Some (s, k1)"
    using submit_loop_returns assms unfolding healthy_def by metis
  have "set (nt_order net (Suc k1) [s]) = {s}" using assms by (simp add: healthy_def)
  then obtain rest where order: "nt_order net (Suc k1) [s] = s # rest"
    by (cases "nt_order net (Suc k1) [s]") auto
  obtain j outcome where j: "j \<ge> Suc (Suc k1)" "nt_status net j s = Inr (Some outcome)"
      "\<forall>i. Suc (Suc k1) \<le> i \<and> i < j \<longrightarrow> (\<exists>e. nt_status net i s = Inl e)"
    using assms unfolding healthy_def by meson
  then obtain n where "j = Suc (Suc k1) + n" using le_Suc_ex by blast
  with j obtain k2 where k2: "check_tx_status net s (Suc (Suc k1)) = Some (True, k2)"
    using check_tx_status_finds [of net "Suc (Suc k1)" n s outcome] by auto
  have "\<not> nt_clock net (Suc k1) - nt_clock net k1 > EXPIRY" using assms by (simp add: healthy_def not_less)
  then show ?thesis
    unfolding send_with_level_confirmed_def by (subst send_loop.simps) (simp add: tx s order k2)
qed

lemma send_each_completes:
  assumes "\<And>msg k. \<exists>s k' sub. send_with_level_confirmed net msg k = Some (Inr s, k', sub)"
  shows "\<exists>k'. send_each net bs fin k = Some (List.map (\<lambda>b. (b, Inr ())) bs, k')"
proof (induction bs arbitrary: k)
  case (Cons b bs)
  obtain s k' sub where s: "send_with_level_confirmed net b k = Some (Inr s, k', sub)" using assms by blast
  obtain k'' where "send_each net bs fin k' = Some (List.map (\<lambda>b. (b, Inr ())) bs, k'')" using Cons.IH by blast
  with s show ?case by (simp add: send_bundle_def)
qed simp

subsection \<open>The outcome of a transaction is not read\<close>

definition shape :: "string + bool option \<Rightarrow> string + unit option" where
  "shape r = map_sum id (map_option (\<lambda>_. ())) r"

definition same_but_outcomes :: "('b, 't, 's, 'h) net \<Rightarrow> ('b, 't, 's, 'h) net \<Rightarrow> bool" where
  "same_but_outcomes m n \<longleftrightarrow>
     nt_blockhash m = nt_blockhash n \<and> nt_sign m = nt_sign n \<and> nt_submit m = nt_submit n
     \<and> (\<forall>k s. shape (nt_status m k s) = shape (nt_status n k s))
     \<and> (\<forall>k s. shape (nt_final_status m k s) = shape (nt_final_status n k s))
     \<and> nt_clock m = nt_clock n \<and> nt_order m = nt_order n \<and> nt_write_rpcs m = nt_write_rpcs n"

lemma same_but_outcomes_sym: "same_but_outcomes m n \<Longrightarrow> same_but_outcomes n m"
  by (simp add: same_but_outcomes_def)

text \<open>A partial function that follows another one in both directions is equal to it.\<close>

lemma follows_same:
  assumes "\<And>m n r. f m = Some r \<Longrightarrow> same_but_outcomes m n \<Longrightarrow> f n = Some r" "same_but_outcomes m n"
  shows "f m = f n"
proof (cases "f m")
  case None
  then show ?thesis using assms(1) [OF _ same_but_outcomes_sym [OF assms(2)]] by (cases "f n") auto
qed (simp add: assms(1) [OF _ assms(2)])

lemma check_tx_status_follows:
  "check_tx_status m s k = Some r \<Longrightarrow> same_but_outcomes m n \<Longrightarrow> check_tx_status n s k = Some r"
proof (induction rule: check_tx_status.raw_induct [rotated, consumes 1])
  case (1 f m s k r)
  have "shape (nt_status m k s) = shape (nt_status n k s)" using 1(3) by (simp add: same_but_outcomes_def)
  with 1 show ?case
    by (subst check_tx_status.simps) (auto simp: shape_def split: sum.splits option.splits)
qed

lemma check_tx_status_same: "same_but_outcomes m n \<Longrightarrow> check_tx_status m = check_tx_status n"
  by (intro ext, rule follows_same [where f = "\<lambda>m. check_tx_status m _ _"], rule check_tx_status_follows)

lemma submit_loop_follows:
  "submit_loop m tx i k = Some r \<Longrightarrow> same_but_outcomes m n \<Longrightarrow> submit_loop n tx i k = Some r"
proof (induction rule: submit_loop.raw_induct [rotated, consumes 1])
  case (1 f m tx i k r)
  then show ?case
    by (subst submit_loop.simps) (auto simp: same_but_outcomes_def split: sum.splits if_splits)
qed

lemma submit_loop_same: "same_but_outcomes m n \<Longrightarrow> submit_loop m = submit_loop n"
  by (intro ext, rule follows_same [where f = "\<lambda>m. submit_loop m _ _ _"], rule submit_loop_follows)

lemma await_blockhash_follows:
  "await_blockhash m h k = Some r \<Longrightarrow> same_but_outcomes m n \<Longrightarrow> await_blockhash n h k = Some r"
proof (induction rule: await_blockhash.raw_induct [rotated, consumes 1])
  case (1 f m h k r)
  then show ?case
    by (subst await_blockhash.simps) (auto simp: same_but_outcomes_def split: if_splits)
qed

lemma await_blockhash_same: "same_but_outcomes m n \<Longrightarrow> await_blockhash m = await_blockhash n"
  by (intro ext, rule follows_same [where f = "\<lambda>m. await_blockhash m _ _"], rule await_blockhash_follows)

lemma check_queue_same:
  assumes "same_but_outcomes m n"
  shows "check_queue m ss queue k = check_queue n ss queue k"
proof (induction ss arbitrary: queue k)
  case (Cons s ss)
  then show ?case
    using assms check_tx_status_same [OF assms] by (simp add: same_but_outcomes_def split: option.split bool.split)
qed simp

lemma send_loop_follows:
  "send_loop m msg h queue k submitted = Some r \<Longrightarrow> same_but_outcomes m n \<Longrightarrow>
   send_loop n msg h queue k submitted = Some r"
proof (induction rule: send_loop.raw_induct [rotated, consumes 1])
  case (1 f m msg h queue k submitted r)
  note same = check_queue_same [OF 1(3)] submit_loop_same [OF 1(3)] await_blockhash_same [OF 1(3)]
  have "nt_sign m = nt_sign n" "nt_clock m = nt_clock n" "nt_order m = nt_order n"
    using 1(3) by (simp_all add: same_but_outcomes_def)
  with 1 same show ?case
    by (subst send_loop.simps)
       (auto split: sum.splits option.splits prod.splits intro: 1(1) [OF _ 1(3)])
qed

text \<open>Sending does not look at the outcome of a transaction. On two networks that differ only in
  whether the transactions they report succeeded or failed, sending gives the same answer: a
  transaction that failed on chain counts as sent.\<close>

theorem outcome_is_ignored:
  assumes "same_but_outcomes m n"
  shows "send_with_level_confirmed m msg k = send_with_level_confirmed n msg k"
proof -
  have "nt_blockhash m = nt_blockhash n" using assms by (simp add: same_but_outcomes_def)
  then show ?thesis
    unfolding send_with_level_confirmed_def
    using follows_same [of "\<lambda>m. send_loop m msg (nt_blockhash n k) [] (Suc k) []", OF send_loop_follows assms]
    by simp
qed

subsection \<open>A network for the samples\<close>

text \<open>Everything is accepted and confirmed, as failed, at once; nothing is ever finalized.\<close>

definition sample_net :: "('b, nat, nat, nat) net" where
  "sample_net =
     \<lparr>nt_blockhash = (\<lambda>k. k), nt_sign = (\<lambda>b h. Inr h), nt_submit = (\<lambda>k tx. Inr tx),
      nt_status = (\<lambda>k s. Inr (Some False)), nt_final_status = (\<lambda>k s. Inr None), nt_clock = (\<lambda>_. 0),
      nt_order = (\<lambda>_ ss. ss), nt_write_rpcs = 0\<rparr>"

lemma sample_send: "send_with_level_confirmed sample_net msg k = Some (Inr k, k + 5, [(k, k)])"
  for msg :: 'b
proof -
  let ?net = "sample_net :: ('b, nat, nat, nat) net"
  have "submit_loop ?net tx 0 j = Some (tx, Suc j)" for tx j
    by (subst submit_loop.simps) (simp add: sample_net_def)
  moreover have "check_tx_status ?net s j = Some (True, Suc j)" for s j
    by (subst check_tx_status.simps) (simp add: sample_net_def)
  moreover have "nt_sign ?net msg h = Inr h" "nt_order ?net j ss = ss" "nt_clock ?net j = 0"
    "nt_blockhash ?net k = k" for h j ss
    by (simp_all add: sample_net_def)
  ultimately show ?thesis
    unfolding send_with_level_confirmed_def by (subst send_loop.simps) simp
qed

lemma confirmed_signature_was_sent_witness:
  "list_all (was_submitted sample_net ''m'') [(5, 5)] \<and> 5 \<in> snd ` set [(5 :: nat, 5 :: nat)]"
  using confirmed_signature_was_sent [OF sample_send, of "''m''" 5] by simp

lemma outcome_is_ignored_witness:
  "send_with_level_confirmed (sample_net\<lparr>nt_status := \<lambda>k s. Inr (Some True)\<rparr>) ''m'' 5 = Some (Inr 5, 10, [(5, 5)])"
proof -
  have "same_but_outcomes (sample_net\<lparr>nt_status := \<lambda>k s. Inr (Some True)\<rparr>) (sample_net :: (string, nat, nat, nat) net)"
    by (simp add: same_but_outcomes_def sample_net_def shape_def)
  from outcome_is_ignored [OF this] show ?thesis by (simp add: sample_send)
qed

subsection \<open>The finalizer\<close>

lemma finalized_within_never:
  assumes "\<forall>i < n. \<forall>outcome. nt_final_status net (k + i) s \<noteq> Inr (Some outcome)"
  shows "finalized_within net n s k = (False, k + n)"
  using assms
proof (induction n arbitrary: k)
  case (Suc n)
  have "finalized_within net n s (Suc k) = (False, Suc k + n)"
    using Suc.prems by (intro Suc.IH) (metis Suc_less_eq add_Suc add_Suc_right)
  moreover have "nt_final_status net k s \<noteq> Inr (Some outcome)" for outcome
    using Suc.prems [rule_format, of 0 outcome] by simp
  ultimately show ?case by (auto split: sum.split option.split)
qed simp

lemma finalized_within_found:
  assumes "i < n" "nt_final_status net (k + i) s = Inr (Some outcome)"
  shows "fst (finalized_within net n s k)"
  using assms
proof (induction n arbitrary: k i)
  case (Suc n)
  show ?case
  proof (cases i)
    case (Suc j)
    then have "fst (finalized_within net n s (Suc k))" using Suc.prems by (intro Suc.IH [of j]) auto
    then show ?thesis by (auto split: sum.split option.split)
  qed (use Suc.prems in simp)
qed simp

text \<open>A transaction seen finalized in one of twenty checks is not sent again.\<close>

lemma finalize_done:
  assumes "i < 20" "nt_final_status net (k + i) (ft_signature task) = Inr (Some outcome)"
  shows "\<exists>k'. finalize net task k = Some (Inr [], k')"
  using finalized_within_found [OF assms] by (auto simp: finalize_def split: prod.split)

lemma finalize_resends:
  assumes "\<forall>i < 20. \<forall>outcome. nt_final_status net (k + i) s \<noteq> Inr (Some outcome)"
    and "send_with_level_confirmed net msg (k + 20) = Some (Inr s', k', submitted)"
  shows "finalize net \<lparr>ft_signature = s, ft_bundle = msg\<rparr> k =
    Some (Inr [Task \<lparr>ft_signature = s', ft_bundle = msg\<rparr>], k')"
  using finalized_within_never [OF assms(1)] assms(2) by (simp add: finalize_def send_bundle_def)

text \<open>Waiting for all transactions can leave one behind. \<^verbatim>\<open>await_all_tx\<close> puts a stop message behind the
  pending tasks; a transaction that is not finalized within twenty checks is sent again and its new
  task goes behind the stop message, so the finalizer stops without ever checking it.\<close>

theorem stop_drops_resent_task:
  assumes "\<forall>i < 20. \<forall>outcome. nt_final_status net (k + i) s \<noteq> Inr (Some outcome)"
    and "send_with_level_confirmed net msg (k + 20) = Some (Inr s', k', submitted)"
  shows "await_all_tx net [Task \<lparr>ft_signature = s, ft_bundle = msg\<rparr>] k =
    Some (Inr (True, [Task \<lparr>ft_signature = s', ft_bundle = msg\<rparr>]))"
proof -
  have "run_finalizer_loop net (Stop # rest) k' = Some (Inr (True, rest))" for rest
    by (subst run_finalizer_loop.simps) simp
  then show ?thesis
    unfolding await_all_tx_def by (subst run_finalizer_loop.simps) (simp add: finalize_resends [OF assms])
qed

lemma stop_drops_resent_task_witness:
  "await_all_tx sample_net [Task \<lparr>ft_signature = 3, ft_bundle = ''m''\<rparr>] 0 =
     Some (Inr (True, [Task \<lparr>ft_signature = 20, ft_bundle = ''m''\<rparr>]))"
proof -
  have "\<forall>i < 20. \<forall>outcome. nt_final_status sample_net (0 + i) 3 \<noteq> Inr (Some outcome)"
    by (simp add: sample_net_def)
  from stop_drops_resent_task [OF this, of "''m''" 20 25 "[(20, 20)]"] show ?thesis
    by (simp add: sample_send)
qed

subsection \<open>Instructions\<close>

lemma send_each_attempts: "send_each net bs fin k = Some (rs, k') \<Longrightarrow> List.map fst rs = bs"
  by (induction bs arbitrary: k rs) (auto split: option.splits prod.splits)

text \<open>Every instruction is attempted, in order, and a failure is not reported. If the instructions
  compile, then sending them (one message at a time) attempts exactly the compiled messages, in
  order, which together carry every instruction once and in order; the call returns success
  whatever the outcomes of the messages were.\<close>

theorem send_all_attempts_everything:
  assumes "compiler_ok env ixs_of" "compile_all env payer price alts bs = Inr messages"
    and "send_all_instructions env net payer price alts bs fin k = Some (res, outcomes)"
  shows "res = Inr () \<and> List.map fst outcomes = messages
    \<and> (\<exists>runs. concat runs = bs \<and>
         list_all2 (carries env ixs_of (case price of None \<Rightarrow> [] | Some p \<Rightarrow> [SetComputeUnitPrice p]))
           runs (List.map fst outcomes))"
proof -
  have "res = Inr () \<and> List.map fst outcomes = messages"
    using assms(2,3) by (auto simp: send_all_instructions_def dest: send_each_attempts)
  with compile_all_runs [OF assms(1,2)] show ?thesis by simp
qed

lemma send_all_attempts_everything_witness:
  "send_all_instructions sample_compiler (sample_net\<lparr>nt_sign := \<lambda>b h. Inl ''no key''\<rparr>) [] None []
     [sample_bundle 1 500000, sample_bundle 2 500000] False 0 =
   Some (Inr (), [([SetComputeUnitLimit 1500000, Ix (ib_instruction (sample_bundle 1 0)),
           Ix (ib_instruction (sample_bundle 2 0))], Inl (FailedToSign ''no key''))])"
proof -
  let ?net = "sample_net\<lparr>nt_sign := \<lambda>b h. Inl ''no key''\<rparr> :: (tx_ix list, nat, nat, nat) net"
  let ?m = "[SetComputeUnitLimit 1500000, Ix (ib_instruction (sample_bundle 1 0)), Ix (ib_instruction (sample_bundle 2 0))]"
  have "send_with_level_confirmed ?net msg k = Some (Inl (FailedToSign ''no key''), Suc k, [])" for msg k
    unfolding send_with_level_confirmed_def by (subst send_loop.simps) simp
  then have run: "send_all_instructions sample_compiler ?net [] None [] [sample_bundle 1 500000, sample_bundle 2 500000] False 0 =
      Some (Inr (), [(?m, Inl (FailedToSign ''no key''))])"
    by (simp add: send_all_instructions_def sample_compile send_bundle_def)
  from send_all_attempts_everything [OF sample_compiler_ok sample_compile run] show ?thesis using run by blast
qed

end
