(* ===== verification/Alt_Manager.thy ===== *)
theory Alt_Manager
  imports Transactor
begin

section \<open>Sending with a temporary lookup table\<close>

text \<open>
  \<^verbatim>\<open>solana-transactor/src/alt_manager.rs\<close>: the addresses of the instructions that no given lookup table has
  are written to a new table in chunks of 20, the instructions are sent with it, and the table is
  deactivated and closed. The node's slot, the loading of the table, the outcome of each
  \<^verbatim>\<open>send_all_instructions\<close> and the order in which the hash set is listed are fields of \<open>alt_run\<close>. An \<^verbatim>\<open>expect\<close>
  that fails ends the run with a panic.
\<close>

datatype alt_action =
    CreateTable nat
  | ExtendTable "bytes list"
  | SendInstructions "alt_account list"
  | DeactivateTable
  | CloseTable

record alt_run =
  ar_slot :: "nat option"
  ar_order :: "bytes list \<Rightarrow> bytes list"
  ar_send :: "alt_action \<Rightarrow> bool"
  ar_load :: "alt_account option"

definition total_addresses :: "instruction_bundle list \<Rightarrow> bytes list" where
  "total_addresses bs =
     concat (List.map (\<lambda>b. List.map am_pubkey (ix_accounts (ib_instruction b)) @ [ix_program_id (ib_instruction b)]) bs)"

definition alt_addresses_of :: "alt_account list \<Rightarrow> bytes list" where
  "alt_addresses_of alts = concat (List.map alt_addresses alts)"

text \<open>The hash set, as a list without repetitions.\<close>

definition to_add :: "alt_account list \<Rightarrow> instruction_bundle list \<Rightarrow> bytes list" where
  "to_add alts bs = remdups (filter (\<lambda>a. a \<notin> set (alt_addresses_of alts)) (total_addresses bs))"

text \<open>\<open>.send_all_instructions(...).await.expect(...)\<close>, with the actions so far.\<close>

definition send_expect :: "alt_run \<Rightarrow> alt_action \<Rightarrow> alt_action list \<Rightarrow> alt_action list \<times> panic option" where
  "send_expect r a acts = (acts @ [a], if ar_send r a then None else Some ExpectFailed)"

fun extend_table :: "alt_run \<Rightarrow> bytes list list \<Rightarrow> alt_action list \<Rightarrow> alt_action list \<times> panic option" where
  "extend_table r [] acts = (acts, None)"
| "extend_table r (c # cs) acts =
     (case send_expect r (ExtendTable c) acts of
        (acts', Some p) \<Rightarrow> (acts', Some p)
      | (acts', None) \<Rightarrow> extend_table r cs acts')"

definition close_alt :: "alt_run \<Rightarrow> alt_action list \<Rightarrow> alt_action list \<times> panic option" where
  "close_alt r acts =
     (case send_expect r DeactivateTable acts of
        (acts', Some p) \<Rightarrow> (acts', Some p)
      | (acts', None) \<Rightarrow> send_expect r CloseTable acts')"

definition send_with_alt ::
    "alt_run \<Rightarrow> instruction_bundle list \<Rightarrow> alt_account list \<Rightarrow> alt_action list \<times> panic option" where
  "send_with_alt r bs alts =
     (case ar_slot r of
        None \<Rightarrow> ([], Some ExpectFailed)
      | Some slot \<Rightarrow>
          (case send_expect r (CreateTable slot) [] of
             (acts, Some p) \<Rightarrow> (acts, Some p)
           | (acts, None) \<Rightarrow>
               (case extend_table r (chunks 20 (ar_order r (to_add alts bs))) acts of
                  (acts', Some p) \<Rightarrow> (acts', Some p)
                | (acts', None) \<Rightarrow>
                    (case ar_load r of
                       None \<Rightarrow> (acts', Some ExpectFailed)
                     | Some new_alt \<Rightarrow> close_alt r (acts' @ [SendInstructions (new_alt # alts)])))))"

subsection \<open>What a run does\<close>

text \<open>The table after the actions, on a chain that carries them out.\<close>

fun table_after :: "alt_action list \<Rightarrow> bytes list" where
  "table_after [] = []"
| "table_after (ExtendTable c # acts) = c @ table_after acts"
| "table_after (_ # acts) = table_after acts"

lemma table_after_append [simp]: "table_after (xs @ ys) = table_after xs @ table_after ys"
  by (induction xs rule: table_after.induct) auto

lemma table_after_extends [simp]: "table_after (List.map ExtendTable cs) = concat cs"
  by (induction cs) auto

lemma extend_table_ok:
  assumes "extend_table r cs acts = (acts', None)"
  shows "acts' = acts @ List.map ExtendTable cs"
  using assms
proof (induction cs arbitrary: acts)
  case (Cons c cs)
  then have "extend_table r cs (acts @ [ExtendTable c]) = (acts', None)"
    by (simp add: send_expect_def split: if_splits)
  from Cons.IH [OF this] show ?case by simp
qed simp

text \<open>A run that does not panic creates the table, extends it, sends, deactivates and closes it, in this
  order; each extension has at most 20 addresses; and the instructions' addresses are exactly
  covered: what the given tables lack is in the new one, once.\<close>

theorem send_with_alt_covers:
  assumes "send_with_alt r bs alts = (acts, None)" "\<forall>xs. set (ar_order r xs) = set xs \<and> distinct (ar_order r xs) = distinct xs"
  shows "\<exists>slot cs new_alt. ar_load r = Some new_alt
    \<and> acts = CreateTable slot # List.map ExtendTable cs @ [SendInstructions (new_alt # alts), DeactivateTable, CloseTable]
    \<and> (\<forall>c \<in> set cs. 0 < length c \<and> length c \<le> 20) \<and> distinct (table_after acts)
    \<and> set (total_addresses bs) \<subseteq> set (alt_addresses_of alts) \<union> set (table_after acts)
    \<and> set (table_after acts) \<inter> set (alt_addresses_of alts) = {}"
proof -
  let ?xs = "ar_order r (to_add alts bs)"
  from assms(1) obtain slot acts' new_alt where
    s: "ar_slot r = Some slot" "extend_table r (chunks 20 ?xs) [CreateTable slot] = (acts', None)"
      "ar_load r = Some new_alt" "close_alt r (acts' @ [SendInstructions (new_alt # alts)]) = (acts, None)"
    by (auto simp: send_with_alt_def send_expect_def split: option.splits if_splits prod.splits)
  have acts: "acts = CreateTable slot # List.map ExtendTable (chunks 20 ?xs) @
      [SendInstructions (new_alt # alts), DeactivateTable, CloseTable]"
    using s(4) extend_table_ok [OF s(2)] by (auto simp: close_alt_def send_expect_def split: if_splits)
  then have table: "table_after acts = ?xs" by (simp add: concat_chunks)
  have "set ?xs = set (to_add alts bs)" "distinct ?xs" using assms(2) by (simp_all add: to_add_def)
  then have "distinct (table_after acts)"
    "set (total_addresses bs) \<subseteq> set (alt_addresses_of alts) \<union> set (table_after acts)"
    "set (table_after acts) \<inter> set (alt_addresses_of alts) = {}"
    using table by (auto simp: to_add_def)
  then show ?thesis using s(3) acts chunk_length [of _ 20 ?xs] by blast
qed

text \<open>
  A failure on the way leaves the table open: after a failed extension or a table that cannot be
  loaded the run panics, and nothing deactivates or closes the table.
\<close>

lemma extend_table_panics:
  assumes "extend_table r cs acts = (acts', Some p)"
  shows "\<exists>cs'. acts' = acts @ List.map ExtendTable cs'"
  using assms
proof (induction cs arbitrary: acts)
  case (Cons c cs)
  show ?case
  proof (cases "ar_send r (ExtendTable c)")
    case True
    with Cons.prems have "extend_table r cs (acts @ [ExtendTable c]) = (acts', Some p)"
      by (simp add: send_expect_def)
    from Cons.IH [OF this] obtain cs' where "acts' = (acts @ [ExtendTable c]) @ List.map ExtendTable cs'" ..
    then show ?thesis by (intro exI [of _ "c # cs'"]) simp
  next
    case False
    with Cons.prems show ?thesis by (intro exI [of _ "[c]"]) (simp add: send_expect_def)
  qed
qed simp

lemma send_with_alt_leaks:
  assumes "ar_slot r = Some slot" "ar_send r (CreateTable slot)"
    and "\<exists>c \<in> set (chunks 20 (ar_order r (to_add alts bs))). \<not> ar_send r (ExtendTable c)"
  shows "\<exists>cs. send_with_alt r bs alts = (CreateTable slot # List.map ExtendTable cs, Some ExpectFailed)"
proof -
  let ?cs = "chunks 20 (ar_order r (to_add alts bs))"
  have fails: "snd (extend_table r cs acts) = Some ExpectFailed" if "\<exists>c \<in> set cs. \<not> ar_send r (ExtendTable c)" for cs acts
    using that by (induction cs arbitrary: acts) (auto simp: send_expect_def)
  obtain acts' where e: "extend_table r ?cs [CreateTable slot] = (acts', Some ExpectFailed)"
    using fails [OF assms(3), of "[CreateTable slot]"] by (metis prod.collapse)
  with extend_table_panics [OF e] assms(1,2) show ?thesis
    by (auto simp: send_with_alt_def send_expect_def)
qed

end
