(* ===== verification/Transactor_Cli.thy ===== *)
theory Transactor_Cli
  imports Alt_Manager Rpc_Pool
begin

section \<open>The command line of the transaction sender\<close>

text \<open>
  \<^verbatim>\<open>solana-transactor/src/main.rs\<close>: transactions are given in hexadecimal and either sent as they are
  (\<^verbatim>\<open>single\<close>) or taken apart into instructions that are packed anew (\<^verbatim>\<open>batch\<close>). A compiled message refers to
  its accounts by index into the static keys followed by the keys of the lookup tables; taking it apart
  resolves the indices. Hexadecimal and \<^verbatim>\<open>bincode\<close> decoding, reading of key files, and the two queries
  \<^verbatim>\<open>is_signer\<close> and \<^verbatim>\<open>is_maybe_writable\<close> of the SDK are fields of \<open>cli_env\<close>; \<open>ce_table\<close> is the content of a lookup
  table. Nearly every failure is an \<^verbatim>\<open>expect\<close>.
\<close>

record compiled_instruction =
  ci_program_id_index :: u8
  ci_accounts :: "u8 list"
  ci_data :: bytes

record address_table_lookup =
  al_account_key :: bytes
  al_writable_indexes :: "u8 list"
  al_readonly_indexes :: "u8 list"

record v0_message =
  vm_account_keys :: "bytes list"
  vm_instructions :: "compiled_instruction list"
  vm_address_table_lookups :: "address_table_lookup list"

datatype 'l versioned_message = LegacyMessage 'l | V0Message v0_message

record 'l cli_env =
  ce_hex :: "string \<Rightarrow> bytes option"
  ce_versioned :: "bytes \<Rightarrow> 'l versioned_message option"
  ce_transaction :: "bytes \<Rightarrow> 'l option"
  ce_keypair :: "string \<Rightarrow> bytes option"
  ce_table :: "bytes \<Rightarrow> bytes list option"
  ce_is_signer :: "v0_message \<Rightarrow> nat \<Rightarrow> bool"
  ce_is_maybe_writable :: "v0_message \<Rightarrow> nat \<Rightarrow> bool"

text \<open>\<^verbatim>\<open>VersionedTransaction::from\<close> of an unversioned transaction has a legacy message.\<close>

definition decode_tx :: "'l cli_env \<Rightarrow> bool \<Rightarrow> string \<Rightarrow> panic + 'l versioned_message" where
  "decode_tx env use_v0 data =
     bindE (ok_or (ce_hex env data) ExpectFailed) (\<lambda>raw.
     if use_v0 then ok_or (ce_versioned env raw) ExpectFailed
     else bindE (ok_or (ce_transaction env raw) ExpectFailed) (\<lambda>tx. Inr (LegacyMessage tx)))"

text \<open>\<^verbatim>\<open>str::split(',')\<close>.\<close>

fun split_comma :: "string \<Rightarrow> string list" where
  "split_comma [] = [[]]"
| "split_comma (c # cs) =
     (if c = CHR '','' then [] # split_comma cs
      else (c # hd (split_comma cs)) # tl (split_comma cs))"

subsection \<open>Taking a message apart\<close>

definition index_panic :: "'a list \<Rightarrow> nat \<Rightarrow> panic + 'a" where
  "index_panic xs i = (if i < length xs then Inr (xs ! i) else Inl IndexOutOfBounds)"

definition indexed :: "bytes list \<Rightarrow> u8 list \<Rightarrow> panic + bytes list" where
  "indexed keys is = mapE (\<lambda>i. index_panic keys (unat i)) is"

definition load_alt :: "'l cli_env \<Rightarrow> bytes \<Rightarrow> panic + alt_account" where
  "load_alt env address =
     map_sum id (\<lambda>addresses. \<lparr>alt_key = address, alt_addresses = addresses\<rparr>)
       (ok_or (ce_table env address) ExpectFailed)"

text \<open>One table of a message; \<open>alts\<close> is the hash map of the tables fetched so far.\<close>

definition fetch_alt ::
    "'l cli_env \<Rightarrow> bytes \<Rightarrow> (bytes \<Rightarrow> alt_account option) \<Rightarrow> panic + alt_account" where
  "fetch_alt env address alts =
     (case alts address of Some a \<Rightarrow> Inr a | None \<Rightarrow> load_alt env address)"

fun resolve_lookups ::
    "'l cli_env \<Rightarrow> address_table_lookup list \<Rightarrow> (bytes \<Rightarrow> alt_account option) \<Rightarrow> bytes list \<Rightarrow> bytes list
     \<Rightarrow> panic + (bytes \<Rightarrow> alt_account option) \<times> bytes list \<times> bytes list" where
  "resolve_lookups env [] alts writable_keys readable_keys = Inr (alts, writable_keys, readable_keys)"
| "resolve_lookups env (l # ls) alts writable_keys readable_keys =
     bindE (fetch_alt env (al_account_key l) alts) (\<lambda>fetched_alt.
     bindE (indexed (alt_addresses fetched_alt) (al_writable_indexes l)) (\<lambda>ws.
     bindE (indexed (alt_addresses fetched_alt) (al_readonly_indexes l)) (\<lambda>rs.
     resolve_lookups env ls (alts(alt_key fetched_alt \<mapsto> fetched_alt)) (writable_keys @ ws) (readable_keys @ rs))))"

definition account_of :: "'l cli_env \<Rightarrow> v0_message \<Rightarrow> bytes list \<Rightarrow> u8 \<Rightarrow> panic + account_meta" where
  "account_of env msg all_accounts i =
     bindE (index_panic all_accounts (unat i)) (\<lambda>k.
     Inr \<lparr>am_pubkey = k, am_is_signer = ce_is_signer env msg (unat i),
          am_is_writable = ce_is_maybe_writable env msg (unat i)\<rparr>)"

definition decompile_ix :: "'l cli_env \<Rightarrow> v0_message \<Rightarrow> bytes list \<Rightarrow> compiled_instruction \<Rightarrow> panic + instruction_bundle" where
  "decompile_ix env msg all_accounts ix =
     bindE (index_panic all_accounts (unat (ci_program_id_index ix))) (\<lambda>program_id.
     bindE (mapE (account_of env msg all_accounts) (ci_accounts ix)) (\<lambda>accounts.
     Inr \<lparr>ib_instruction = \<lparr>ix_program_id = program_id, ix_data = ci_data ix, ix_accounts = accounts\<rparr>,
          ib_compute_units = 40000\<rparr>))"

definition take_apart ::
    "'l cli_env \<Rightarrow> 'l versioned_message \<Rightarrow> (bytes \<Rightarrow> alt_account option)
     \<Rightarrow> panic + (bytes \<Rightarrow> alt_account option) \<times> instruction_bundle list" where
  "take_apart env m alts =
     (case m of
        LegacyMessage l \<Rightarrow> Inl ExplicitPanic
      | V0Message msg \<Rightarrow>
          bindE (resolve_lookups env (vm_address_table_lookups msg) alts [] []) (\<lambda>(alts', ws, rs).
          bindE (mapE (decompile_ix env msg (vm_account_keys msg @ ws @ rs)) (vm_instructions msg)) (\<lambda>bundles.
          Inr (alts', bundles))))"

text \<open>The loop over the transactions, which are decoded one by one.\<close>

fun batch_instructions ::
    "'l cli_env \<Rightarrow> bool \<Rightarrow> string list \<Rightarrow> (bytes \<Rightarrow> alt_account option)
     \<Rightarrow> panic + (bytes \<Rightarrow> alt_account option) \<times> instruction_bundle list" where
  "batch_instructions env use_v0 [] alts = Inr (alts, [])"
| "batch_instructions env use_v0 (d # ds) alts =
     bindE (decode_tx env use_v0 d) (\<lambda>m.
     bindE (take_apart env m alts) (\<lambda>(alts', bundles).
     bindE (batch_instructions env use_v0 ds alts') (\<lambda>(alts'', bundles').
     Inr (alts'', bundles @ bundles'))))"

subsection \<open>The sender and its queries\<close>

text \<open>
  The rest of \<^verbatim>\<open>transactor.rs\<close>: a message with copies of its signers' keys, the sender with its running finalizer,
  and the two queries that retry until a node answers. \<open>reparse\<close> is \<^verbatim>\<open>Keypair::from_bytes\<close> of \<^verbatim>\<open>to_bytes\<close>.
\<close>

record ('m, 'k) message_bundle =
  mb_message :: 'm
  mb_signers :: "'k list"
  mb_payer :: bytes

definition message_bundle_new :: "('k \<Rightarrow> 'k option) \<Rightarrow> 'm \<Rightarrow> 'k list \<Rightarrow> bytes \<Rightarrow> panic + ('m, 'k) message_bundle" where
  "message_bundle_new reparse message signers payer =
     bindE (mapE (\<lambda>x. ok_or (reparse x) ExpectFailed) signers) (\<lambda>keys.
     Inr \<lparr>mb_message = message, mb_signers = keys, mb_payer = payer\<rparr>)"

record ('u, 'v, 'b, 's) transactor =
  tr_rpc_pool :: "('u, 'v) rpc_pool"
  tr_finalize_channel :: "('b, 's) channel_message list"
  tr_handle :: bool

definition transactor_start :: "('u, 'v) rpc_pool \<Rightarrow> transactor_error + ('u, 'v, 'b, 's) transactor" where
  "transactor_start pool = Inr \<lparr>tr_rpc_pool = pool, tr_finalize_channel = [], tr_handle = True\<rparr>"

definition get_blockhash ::
    "(nat \<Rightarrow> ('u, 'v, 'e + 'h) rpc_call) \<Rightarrow> ('u, 'v, 'b, 's) transactor
     \<Rightarrow> (panic + 'h \<times> nat list \<times> ('u, 'v) rpc_pool) option" where
  "get_blockhash calls t = with_read_rpc_loop calls (tr_rpc_pool t)"

definition check_account_exists ::
    "(nat \<Rightarrow> ('u, 'v, 'e + u64) rpc_call) \<Rightarrow> ('u, 'v, 'b, 's) transactor
     \<Rightarrow> (panic + bool \<times> nat list \<times> ('u, 'v) rpc_pool) option" where
  "check_account_exists calls t =
     map_option (map_sum id (map_prod (\<lambda>balance. 0 < balance) id)) (with_read_rpc_loop calls (tr_rpc_pool t))"

lemma message_bundle_copies:
  assumes "\<And>k. k \<in> set signers \<Longrightarrow> reparse k = Some k"
  shows "message_bundle_new reparse message signers payer =
    Inr \<lparr>mb_message = message, mb_signers = signers, mb_payer = payer\<rparr>"
proof -
  have "mapE (\<lambda>x. ok_or (reparse x) ExpectFailed) signers = Inr signers"
    using assms by (simp add: mapE_eq_Inr list_all2_same)
  then show ?thesis by (simp add: message_bundle_new_def)
qed

text \<open>The existence query returns once a node answers, with whether that node's balance is positive.\<close>

lemma check_account_exists_returns:
  assumes "calls_ok calls K" "pool_ready (rc_now (calls 0)) (read_rpcs (tr_rpc_pool t))"
    and "K < 2 ^ 32" "num_read_rpcs (tr_rpc_pool t) < 2 ^ 32"
  shows "\<exists>balance u v waits p'. check_account_exists calls t = Some (Inr (0 < balance, waits, p'))
    \<and> rc_reply (calls K) u v = Inr balance"
proof -
  obtain y u v rr' where
    "with_rpc_loop calls 0 0 0 [] (read_rpcs (tr_rpc_pool t)) = Some (Inr (y, rev (pauses (num_read_rpcs (tr_rpc_pool t)) K), rr'))"
    "rc_reply (calls K) u v = Inr y"
    using with_rpc_loop_returns [OF assms(1,3,4), of 0 "read_rpcs (tr_rpc_pool t)"] assms(2)
    by (auto simp: num_read_rpcs_def pauses_def)
  then show ?thesis
    by (auto simp: check_account_exists_def with_read_rpc_loop_def)
qed

subsection \<open>The commands\<close>

datatype subcommand = Single string | Batch string string

definition default_signer_path :: string where
  "default_signer_path = ''/home/mint/Workspace/ENT/solana/photon/keys-mainnet/owner.json''"

definition primary_signer :: "'l cli_env \<Rightarrow> string option \<Rightarrow> panic + bytes" where
  "primary_signer env path =
     ok_or (ce_keypair env (case path of Some s \<Rightarrow> s | None \<Rightarrow> default_signer_path)) ExpectFailed"

text \<open>What \<^verbatim>\<open>main\<close> sets up before the command: the pool over fixed nodes, and the key. Starting the transactor
  spawns its finalizer and cannot fail.\<close>

definition river_rpc :: rpc_entry where
  "river_rpc =
     \<lparr>re_url = ''https://small-quaint-river.solana-mainnet.quiknode.pro/8dee9265e6e19f6bef9363466dd80c7ed971bfd8/'',
      re_ratelimit = 3\<rparr>"

definition bridge_rpc :: rpc_entry where
  "bridge_rpc =
     \<lparr>re_url = ''https://thrumming-cosmological-bridge.solana-mainnet.quiknode.pro/977a5d82f7a9684645762d4cf901752c447d1670/'',
      re_ratelimit = 3\<rparr>"

definition wandering_rpc :: rpc_entry where
  "wandering_rpc =
     \<lparr>re_url = ''https://wandering-distinguished-energy.solana-mainnet.quiknode.pro/72dff9a93a6f2b2c770719d26e67ba7cb320c16f/'',
      re_ratelimit = 3\<rparr>"

definition cli_read_rpcs :: "rpc_entry list" where
  "cli_read_rpcs = [river_rpc, bridge_rpc, wandering_rpc]"

definition cli_write_rpcs :: "rpc_entry list" where
  "cli_write_rpcs = [wandering_rpc, river_rpc, bridge_rpc]"

definition cli_setup ::
    "(string \<Rightarrow> 'u option) \<Rightarrow> (nat \<Rightarrow> u64) \<Rightarrow> 'l cli_env \<Rightarrow> string option \<Rightarrow> panic + ('u, 'v) rpc_pool \<times> bytes" where
  "cli_setup parse clock env path =
     bindE (map_err (\<lambda>e. ExpectFailed) (rpc_pool_new parse clock cli_read_rpcs cli_write_rpcs)) (\<lambda>pool.
     bindE (primary_signer env path) (\<lambda>k. Inr (pool, k)))"

text \<open>\<open>list_tables\<close> is the order in which the values of the hash map come out.\<close>

definition run_batch ::
    "'l cli_env \<Rightarrow> bool \<Rightarrow> alt_run \<Rightarrow> ((bytes \<Rightarrow> alt_account option) \<Rightarrow> alt_account list) \<Rightarrow> string \<Rightarrow> string
     \<Rightarrow> alt_action list \<times> panic option" where
  "run_batch env use_v0 run list_tables signers data =
     (case mapE (\<lambda>x. ok_or (ce_keypair env x) ExpectFailed) (split_comma signers) of
        Inl p \<Rightarrow> ([], Some p)
      | Inr keys \<Rightarrow>
          (case batch_instructions env use_v0 (split_comma data) Map.empty of
             Inl p \<Rightarrow> ([], Some p)
           | Inr (alts, instructions) \<Rightarrow> send_with_alt run instructions (list_tables alts)))"

text \<open>\<^verbatim>\<open>single\<close>: the message is sent and finalized, with \<^verbatim>\<open>unwrap\<close> on the result.\<close>

definition run_single ::
    "'l cli_env \<Rightarrow> bool \<Rightarrow> ('l versioned_message, 't, 's, 'h) net \<Rightarrow> string \<Rightarrow> nat \<Rightarrow> (panic + unit) option" where
  "run_single env use_v0 net data k =
     (case decode_tx env use_v0 data of
        Inl p \<Rightarrow> Some (Inl p)
      | Inr m \<Rightarrow>
          (case send_bundles net [m] True k of
             None \<Rightarrow> None
           | Some (Inl e, _, k') \<Rightarrow> Some (Inl ExpectFailed)
           | Some (Inr (), tasks, k') \<Rightarrow>
               map_option (\<lambda>r. bindE r (\<lambda>_. Inr ())) (await_all_tx net tasks k')))"

subsection \<open>Batch recovers the instructions\<close>

text \<open>How a message refers to its accounts: the static keys, then the writable and the read-only keys of the
  tables; an instruction is compiled to the indices of its program and accounts.\<close>

definition table_keys ::
    "'l cli_env \<Rightarrow> (address_table_lookup \<Rightarrow> u8 list) \<Rightarrow> address_table_lookup list \<Rightarrow> bytes list" where
  "table_keys env sel ls =
     concat (List.map (\<lambda>l. List.map (\<lambda>i. the (ce_table env (al_account_key l)) ! unat i) (sel l)) ls)"

definition message_keys :: "'l cli_env \<Rightarrow> v0_message \<Rightarrow> bytes list" where
  "message_keys env msg =
     vm_account_keys msg @ table_keys env al_writable_indexes (vm_address_table_lookups msg)
       @ table_keys env al_readonly_indexes (vm_address_table_lookups msg)"

fun index_of :: "'a list \<Rightarrow> 'a \<Rightarrow> nat" where
  "index_of [] x = 0"
| "index_of (y # ys) x = (if y = x then 0 else Suc (index_of ys x))"

definition compile_ix :: "bytes list \<Rightarrow> instruction \<Rightarrow> compiled_instruction" where
  "compile_ix keys ix =
     \<lparr>ci_program_id_index = word_of_nat (index_of keys (ix_program_id ix)),
      ci_accounts = List.map (\<lambda>m. word_of_nat (index_of keys (am_pubkey m))) (ix_accounts ix),
      ci_data = ix_data ix\<rparr>"

definition lookup_ok :: "'l cli_env \<Rightarrow> address_table_lookup \<Rightarrow> bool" where
  "lookup_ok env l \<longleftrightarrow>
     (\<exists>t. ce_table env (al_account_key l) = Some t
        \<and> (\<forall>i \<in> set (al_writable_indexes l @ al_readonly_indexes l). unat i < length t))"

definition compiled_from :: "'l cli_env \<Rightarrow> v0_message \<Rightarrow> instruction list \<Rightarrow> bool" where
  "compiled_from env msg ixs \<longleftrightarrow>
     list_all (lookup_ok env) (vm_address_table_lookups msg)
     \<and> length (message_keys env msg) \<le> 256
     \<and> vm_instructions msg = List.map (compile_ix (message_keys env msg)) ixs
     \<and> (\<forall>ix \<in> set ixs. insert (ix_program_id ix) (am_pubkey ` set (ix_accounts ix)) \<subseteq> set (message_keys env msg))"

text \<open>The recovered instruction has the flags that the message gives to its accounts.\<close>

definition with_flags :: "'l cli_env \<Rightarrow> v0_message \<Rightarrow> account_meta \<Rightarrow> account_meta" where
  "with_flags env msg m =
     \<lparr>am_pubkey = am_pubkey m,
      am_is_signer = ce_is_signer env msg (index_of (message_keys env msg) (am_pubkey m)),
      am_is_writable = ce_is_maybe_writable env msg (index_of (message_keys env msg) (am_pubkey m))\<rparr>"

definition recovered :: "'l cli_env \<Rightarrow> v0_message \<Rightarrow> instruction \<Rightarrow> instruction_bundle" where
  "recovered env msg ix =
     \<lparr>ib_instruction = ix\<lparr>ix_accounts := List.map (with_flags env msg) (ix_accounts ix)\<rparr>, ib_compute_units = 40000\<rparr>"

lemma index_of_less: "x \<in> set xs \<Longrightarrow> index_of xs x < length xs \<and> xs ! index_of xs x = x"
  by (induction xs) auto

lemma index_panic_of:
  assumes "x \<in> set keys" "length keys \<le> 256"
  shows "unat (word_of_nat (index_of keys x) :: u8) = index_of keys x"
    "index_panic keys (index_of keys x) = Inr x"
proof -
  have "index_of keys x < 256" using index_of_less [OF assms(1)] assms(2) by simp
  then show "unat (word_of_nat (index_of keys x) :: u8) = index_of keys x" by (simp add: unat_of_nat)
  show "index_panic keys (index_of keys x) = Inr x" using index_of_less [OF assms(1)] by (simp add: index_panic_def)
qed

lemma mapE_map: "(\<And>x. x \<in> set xs \<Longrightarrow> f (g x) = Inr (h x)) \<Longrightarrow> mapE f (List.map g xs) = Inr (List.map h xs)"
  by (induction xs) auto

lemma decompile_compile:
  assumes "insert (ix_program_id ix) (am_pubkey ` set (ix_accounts ix)) \<subseteq> set (message_keys env msg)"
    and "length (message_keys env msg) \<le> 256"
  shows "decompile_ix env msg (message_keys env msg) (compile_ix (message_keys env msg) ix) = Inr (recovered env msg ix)"
proof -
  let ?keys = "message_keys env msg"
  have "mapE (account_of env msg ?keys) (List.map (\<lambda>m. word_of_nat (index_of ?keys (am_pubkey m))) (ix_accounts ix)) =
      Inr (List.map (with_flags env msg) (ix_accounts ix))"
  proof (rule mapE_map)
    fix m assume "m \<in> set (ix_accounts ix)"
    then have "am_pubkey m \<in> set ?keys" using assms(1) by auto
    from index_panic_of [OF this assms(2)]
    show "account_of env msg ?keys (word_of_nat (index_of ?keys (am_pubkey m))) = Inr (with_flags env msg m)"
      by (simp add: account_of_def with_flags_def)
  qed
  then show ?thesis
    using index_panic_of [OF _ assms(2), of "ix_program_id ix"] assms(1)
    by (simp add: decompile_ix_def compile_ix_def recovered_def)
qed

definition cache_ok :: "'l cli_env \<Rightarrow> (bytes \<Rightarrow> alt_account option) \<Rightarrow> bool" where
  "cache_ok env alts \<longleftrightarrow> (\<forall>k a. alts k = Some a \<longrightarrow> alt_key a = k \<and> ce_table env k = Some (alt_addresses a))"

lemma indexed_ok: "\<forall>i \<in> set is. unat i < length keys \<Longrightarrow> indexed keys is = Inr (List.map (\<lambda>i. keys ! unat i) is)"
  unfolding indexed_def by (induction "is") (simp_all add: index_panic_def)

lemma resolve_lookups_ok:
  assumes "list_all (lookup_ok env) ls" "cache_ok env alts"
  shows "\<exists>alts'. resolve_lookups env ls alts ws rs =
      Inr (alts', ws @ table_keys env al_writable_indexes ls, rs @ table_keys env al_readonly_indexes ls)
    \<and> cache_ok env alts' \<and> dom alts' = dom alts \<union> al_account_key ` set ls"
  using assms
proof (induction ls arbitrary: alts ws rs)
  case Nil
  then show ?case by (simp add: table_keys_def)
next
  case (Cons l ls)
  obtain t where t: "ce_table env (al_account_key l) = Some t"
    "\<forall>i \<in> set (al_writable_indexes l). unat i < length t" "\<forall>i \<in> set (al_readonly_indexes l). unat i < length t"
    using Cons.prems(1) by (auto simp: lookup_ok_def)
  obtain a where a: "fetch_alt env (al_account_key l) alts = Inr a" "alt_key a = al_account_key l" "alt_addresses a = t"
  proof (cases "alts (al_account_key l)")
    case None
    with t(1) show ?thesis
      by (intro that [of "\<lparr>alt_key = al_account_key l, alt_addresses = t\<rparr>"]) (simp_all add: fetch_alt_def load_alt_def)
  next
    case (Some a)
    with Cons.prems(2) t(1) show ?thesis by (intro that [of a]) (auto simp: fetch_alt_def cache_ok_def)
  qed
  have "cache_ok env (alts(al_account_key l \<mapsto> a))" using Cons.prems(2) a t(1) by (simp add: cache_ok_def)
  moreover have "list_all (lookup_ok env) ls" using Cons.prems(1) by simp
  ultimately obtain alts' where
    "resolve_lookups env ls (alts(al_account_key l \<mapsto> a)) (ws @ List.map (\<lambda>i. t ! unat i) (al_writable_indexes l))
        (rs @ List.map (\<lambda>i. t ! unat i) (al_readonly_indexes l)) =
      Inr (alts', (ws @ List.map (\<lambda>i. t ! unat i) (al_writable_indexes l)) @ table_keys env al_writable_indexes ls,
        (rs @ List.map (\<lambda>i. t ! unat i) (al_readonly_indexes l)) @ table_keys env al_readonly_indexes ls)"
    "cache_ok env alts'" "dom alts' = dom (alts(al_account_key l \<mapsto> a)) \<union> al_account_key ` set ls"
    using Cons.IH by blast
  with a t show ?case by (simp add: indexed_ok table_keys_def insert_commute)
qed

lemma take_apart_ok:
  assumes "compiled_from env msg ixs" "cache_ok env alts"
  shows "\<exists>alts'. take_apart env (V0Message msg) alts = Inr (alts', List.map (recovered env msg) ixs)
    \<and> cache_ok env alts' \<and> dom alts' = dom alts \<union> al_account_key ` set (vm_address_table_lookups msg)"
proof -
  obtain alts' where r: "resolve_lookups env (vm_address_table_lookups msg) alts [] [] =
      Inr (alts', table_keys env al_writable_indexes (vm_address_table_lookups msg),
        table_keys env al_readonly_indexes (vm_address_table_lookups msg))"
    "cache_ok env alts'" "dom alts' = dom alts \<union> al_account_key ` set (vm_address_table_lookups msg)"
    using resolve_lookups_ok [of env "vm_address_table_lookups msg" alts "[]" "[]"] assms
    by (auto simp: compiled_from_def)
  have "mapE (decompile_ix env msg (message_keys env msg)) (vm_instructions msg) = Inr (List.map (recovered env msg) ixs)"
    using assms(1) decompile_compile [of _ env msg] unfolding compiled_from_def
    by (metis (no_types, lifting) mapE_map)
  with r show ?thesis by (simp add: take_apart_def message_keys_def)
qed

text \<open>C40: Batch recovers the instructions. Given transactions whose messages were compiled from lists of
  instructions, with every lookup table they use readable, the command gets back exactly these instructions,
  in order: each with its program, its data, its accounts in order, the flags that its message gives them,
  and a declared budget of 40000 compute units; and it has fetched exactly the tables the messages name.\<close>

theorem batch_recovers_instructions:
  assumes "list_all2 (\<lambda>d (msg, ixs). decode_tx env True d = Inr (V0Message msg) \<and> compiled_from env msg ixs) ds ps"
  shows "\<exists>alts. batch_instructions env True ds Map.empty =
      Inr (alts, concat (List.map (\<lambda>(msg, ixs). List.map (recovered env msg) ixs) ps))
    \<and> dom alts = (\<Union>(msg, ixs) \<in> set ps. al_account_key ` set (vm_address_table_lookups msg))
    \<and> (\<forall>k a. alts k = Some a \<longrightarrow> alt_key a = k \<and> ce_table env k = Some (alt_addresses a))"
proof -
  have "\<exists>alts'. batch_instructions env True ds alts =
      Inr (alts', concat (List.map (\<lambda>(msg, ixs). List.map (recovered env msg) ixs) ps))
    \<and> dom alts' = dom alts \<union> (\<Union>(msg, ixs) \<in> set ps. al_account_key ` set (vm_address_table_lookups msg))
    \<and> cache_ok env alts'" if "cache_ok env alts" for alts
    using assms that
  proof (induction arbitrary: alts rule: list_all2_induct)
    case Nil
    then show ?case by simp
  next
    case (Cons d ds p ps)
    obtain msg ixs where p: "p = (msg, ixs)" "decode_tx env True d = Inr (V0Message msg)" "compiled_from env msg ixs"
      using Cons.hyps(1) by (cases p) auto
    obtain alts1 where a1: "take_apart env (V0Message msg) alts = Inr (alts1, List.map (recovered env msg) ixs)"
      "cache_ok env alts1" "dom alts1 = dom alts \<union> al_account_key ` set (vm_address_table_lookups msg)"
      using take_apart_ok [OF p(3) Cons.prems] by blast
    from Cons.IH [OF a1(2)] p a1 show ?case by auto
  qed
  from this [of Map.empty] show ?thesis by (auto simp: cache_ok_def)
qed

subsection \<open>What the defaults do\<close>

lemma split_comma_not_nil: "split_comma s \<noteq> []"
  by (cases s) auto

text \<open>Without \<^verbatim>\<open>--use-v0\<close> a batch always panics, and so does one without \<^verbatim>\<open>--signers\<close>, whose default is the
  empty path, unless there is a key file with that name.\<close>

theorem batch_needs_v0:
  "\<exists>p. run_batch env False run list_tables signers data = ([], Some p)"
proof -
  obtain d ds where d: "split_comma data = d # ds" using split_comma_not_nil by (cases "split_comma data") auto
  have "\<exists>p. batch_instructions env False (d # ds) Map.empty = Inl p"
  proof (cases "decode_tx env False d")
    case (Inr m)
    then have "take_apart env m Map.empty = Inl ExplicitPanic"
      by (auto simp: decode_tx_def take_apart_def result_simps)
    with Inr show ?thesis by simp
  qed simp
  then show ?thesis
    using d by (auto simp: run_batch_def split: sum.splits)
qed

theorem batch_needs_signers:
  assumes "ce_keypair env [] = None"
  shows "run_batch env use_v0 run list_tables [] data = ([], Some ExpectFailed)"
  using assms by (simp add: run_batch_def)

subsection \<open>A sample\<close>

definition sample_cli :: "unit cli_env" where
  "sample_cli =
     \<lparr>ce_hex = (\<lambda>s. Some [1]),
      ce_versioned = (\<lambda>raw. Some (V0Message
        \<lparr>vm_account_keys = [[1], [2]],
         vm_instructions = [\<lparr>ci_program_id_index = 1, ci_accounts = [0, 2, 3], ci_data = [9]\<rparr>],
         vm_address_table_lookups =
           [\<lparr>al_account_key = [7], al_writable_indexes = [1], al_readonly_indexes = [0]\<rparr>]\<rparr>)),
      ce_transaction = (\<lambda>raw. None), ce_keypair = (\<lambda>p. None),
      ce_table = (\<lambda>k. if k = [7] then Some [[5], [6]] else None),
      ce_is_signer = (\<lambda>msg i. i = 0), ce_is_maybe_writable = (\<lambda>msg i. i \<noteq> 1 \<and> i \<noteq> 3)\<rparr>"

definition sample_v0 :: v0_message where
  "sample_v0 =
     \<lparr>vm_account_keys = [[1], [2]],
      vm_instructions = [\<lparr>ci_program_id_index = 1, ci_accounts = [0, 2, 3], ci_data = [9]\<rparr>],
      vm_address_table_lookups =
        [\<lparr>al_account_key = [7], al_writable_indexes = [1], al_readonly_indexes = [0]\<rparr>]\<rparr>"

definition sample_v0_ix :: instruction where
  "sample_v0_ix =
     \<lparr>ix_program_id = [2], ix_data = [9],
      ix_accounts = [\<lparr>am_pubkey = [1], am_is_signer = True, am_is_writable = True\<rparr>,
        \<lparr>am_pubkey = [6], am_is_signer = False, am_is_writable = True\<rparr>,
        \<lparr>am_pubkey = [5], am_is_signer = False, am_is_writable = False\<rparr>]\<rparr>"

lemma batch_recovers_instructions_witness:
  "\<exists>alts. batch_instructions sample_cli True [''01''] Map.empty =
     Inr (alts, [\<lparr>ib_instruction = sample_v0_ix, ib_compute_units = 40000\<rparr>]) \<and> dom alts = {[7]}"
proof -
  have keys: "message_keys sample_cli sample_v0 = [[1], [2], [6], [5]]"
    by (simp add: message_keys_def table_keys_def sample_cli_def sample_v0_def)
  have "compiled_from sample_cli sample_v0 [sample_v0_ix]"
    unfolding compiled_from_def keys
    by (simp add: sample_v0_def sample_v0_ix_def compile_ix_def lookup_ok_def sample_cli_def)
  moreover have "decode_tx sample_cli True ''01'' = Inr (V0Message sample_v0)"
    by (simp add: decode_tx_def sample_cli_def sample_v0_def)
  ultimately have "list_all2 (\<lambda>d (msg, ixs). decode_tx sample_cli True d = Inr (V0Message msg)
      \<and> compiled_from sample_cli msg ixs) [''01''] [(sample_v0, [sample_v0_ix])]" by simp
  moreover have "recovered sample_cli sample_v0 sample_v0_ix = \<lparr>ib_instruction = sample_v0_ix, ib_compute_units = 40000\<rparr>"
    unfolding recovered_def with_flags_def keys by (simp add: sample_v0_ix_def sample_cli_def)
  ultimately show ?thesis
    using batch_recovers_instructions [of sample_cli "[''01'']" "[(sample_v0, [sample_v0_ix])]"]
    by (auto simp: sample_v0_def)
qed

end
