(* ===== verification/Gov_Pipeline.thy ===== *)
theory Gov_Pipeline
  imports Executor_Pipeline
begin

section \<open>Governance operations reach their handler\<close>

text \<open>
  A governance operation is executed by the endpoint calling itself: the executor's governance
  extension chooses the extra accounts, \<open>execute_operation\<close> turns them into the accounts of the call,
  and \<open>receive_photon_msg\<close> checks them again. This theory connects the three: the accounts fit.
\<close>

fun receive_accs_of :: "account_info list \<Rightarrow> receive_accs option" where
  "receive_accs_of (e # ca # oi # c # g # t # s # rest) =
     Some \<lparr>rp_executor = e, rp_call_authority = ca, rp_op_info = oi, rp_config = c, rp_gov_info = g,
           rp_target_protocol_info = t, rp_system_program = s\<rparr>"
| "receive_accs_of _ = None"

definition call_accounts :: "bytes \<Rightarrow> account_info list \<Rightarrow> account_info list" where
  "call_accounts program infos =
     List.map info_of (List.map meta_of (filter (\<lambda>i. ai_key i \<noteq> program) infos))"

lemma info_of_meta_of [simp]: "info_of (meta_of a) = a"
  by (simp add: info_of_def meta_of_def)

lemma call_accounts_eq: "call_accounts program infos = filter (\<lambda>i. ai_key i \<noteq> program) infos"
  by (simp add: call_accounts_def comp_def)

text \<open>C25: The accounts chosen by the governance extension are the ones the governance handler asks for.
  If the extension answers for the selector and parameters of a signed governance operation, the
  endpoint accepts the execution, and the configuration and the target protocol are registered at the
  addresses the extension derived, then the call that \<^verbatim>\<open>execute_operation\<close> makes passes every account
  check of \<^verbatim>\<open>receive_photon_msg\<close>: signers, addresses, types, status, and the executor's permission. (None
  of the accounts may be the endpoint program itself, whose entries the call leaves out.)\<close>

theorem gov_call_reaches_handler:
  assumes ext: "gov_get_accounts env sel ps = Inr metas"
    and acc: "execute_operation_accounts env a h w = Inr (i, bump)"
    and op: "od_function_selector (oi_op_data i) = ByCode sel" "od_params (oi_op_data i) = ps"
      "od_protocol_id (oi_op_data i) = gov_protocol_id"
    and infos: "execute_infos a (env_photon_id env) (List.map info_of metas) = Inr infos"
    and keys: "\<forall>k \<in> set (List.map am_pubkey (tl metas) @
        List.map ai_key [ec_executor a, ec_call_authority a, ec_op_info a]). k \<noteq> env_photon_id env"
    and conf: "accounts w (am_pubkey (metas ! 1)) = Some (AConfig c)"
    and target: "accounts w (am_pubkey (metas ! 3)) = Some (AProtocol t)"
  shows "\<exists>rp. receive_accs_of (call_accounts (env_photon_id env) infos) = Some rp \<and>
           receive_photon_msg_accounts env rp h w = Inr (w, i, c, t)"
proof -
  obtain tid ck gk tk b1 b2 b3 where
    tid: "target_protocol_by_code (env_abi_decode env) sel ps = Inr tid" and
    pdas: "env_find_pda env [ROOT, str ''CONFIG''] (env_photon_id env) = Some (ck, b1)"
      "env_find_pda env [ROOT, str ''PROTOCOL'', gov_protocol_id] (env_photon_id env) = Some (gk, b2)"
      "env_find_pda env [ROOT, str ''PROTOCOL'', tid] (env_photon_id env) = Some (tk, b3)" and
    metas: "metas = [meta_new_readonly (env_photon_id env) False, meta_new ck False, meta_new gk False,
               meta_new tk False, meta_new (env_system_program env) False]"
    using gov_accounts [OF ext] by (auto simp: gov_protocol_id_def)
  define ca where "ca = (ec_call_authority a)\<lparr>ai_is_signer := True\<rparr>"
  define rp where "rp = \<lparr>rp_executor = ec_executor a, rp_call_authority = ca, rp_op_info = ec_op_info a,
    rp_config = info_of (meta_new ck False), rp_gov_info = info_of (meta_new gk False),
    rp_target_protocol_info = info_of (meta_new tk False),
    rp_system_program = info_of (meta_new (env_system_program env) False)\<rparr>"
  have "infos = info_of (meta_new_readonly (env_photon_id env) False) # ec_executor a # ca # ec_op_info a #
      List.map info_of (tl metas)"
    using infos by (simp add: execute_infos_def metas ca_def)
  then have "receive_accs_of (call_accounts (env_photon_id env) infos) = Some rp"
    using keys by (simp add: call_accounts_eq metas rp_def ca_def)
  moreover have "receive_photon_msg_accounts env rp h w = Inr (w, i, c, t)"
  proof -
    obtain p b4 where
      "ai_is_signer (ec_executor a)" "ai_is_writable (ec_executor a)"
      "accounts w (ai_key (ec_op_info a)) = Some (AOp i)" "oi_status i = StSigned"
      "env_find_pda env [ROOT, str ''OP'', h] (env_photon_id env) = Some (ai_key (ec_op_info a), b4)"
      "accounts w gk = Some (AProtocol p)" "ai_key (ec_executor a) \<in> set (pi_executors p)"
      using acc pdas(2) op(3) by (auto simp: execute_operation_accounts_def result_simps)
    then show ?thesis
      using conf target pdas op tid
      by (simp add: receive_photon_msg_accounts_def rp_def ca_def metas check_defs check_seeds_def
          load_op_def load_protocol_def load_config_def init_if_needed_def target_protocol_def)
  qed
  ultimately show ?thesis by blast
qed

subsection \<open>A concrete governance call\<close>

definition target_key :: bytes where
  "target_key = ROOT @ str ''PROTOCOL'' @ replicate 32 5"

definition gov_world :: "unit world" where
  "gov_world = (run_world StSigned [])\<lparr>accounts :=
     (accounts (run_world StSigned []))(target_key \<mapsto> AProtocol protocol_info_default)\<rparr>"

lemma sample_gov_metas:
  "gov_get_accounts sample_env (gov_selector AddExecutor) (replicate 32 5) =
     Inr [meta_new_readonly (replicate 32 7) False, meta_new config_key False, meta_new gov_key False,
          meta_new target_key False, meta_new (replicate 32 9) False]"
proof -
  have "gov_try_from (selector_u32 (gov_selector AddExecutor)) = Inr AddExecutor"
    using selector_u32_code [of AddExecutor "[]"] by (simp only: gov_try_from_iff append_Nil2)
  moreover have len: "length (gov_selector AddExecutor) = 4" by (simp add: gov_selector_def)
  moreover have "gov_selector AddExecutor \<noteq> []" using len by (metis list.size(3) zero_neq_numeral)
  ultimately show ?thesis
    by (simp add: gov_get_accounts_def ext_address_def find_address_def gov_protocol_id_def [symmetric]
        target_key_def pad_def)
qed

lemma target_key_distinct [simp]:
  "target_key \<noteq> gov_key" "target_key \<noteq> config_key" "op_key h \<noteq> target_key" "gov_key \<noteq> target_key"
  "config_key \<noteq> target_key"
  using target_key_neq by (auto simp: target_key_def simp del: target_key_neq dest: sym)

lemma sample_gov_execute:
  "execute_operation_accounts sample_env execute_accs_1 hash_1 gov_world = Inr (op_info_1 StSigned, 255)"
  by (simp add: execute_operation_accounts_def execute_accs_1_def run_simps gov_world_def run_world_def
      w_init_def gov_info_1_def op_info_1_def op_1_def)

text \<open>The derived addresses start with the root seed, so none of them is the program's address.\<close>

lemma rooted_neq: "ROOT @ k \<noteq> replicate 32 7"
proof
  assume "ROOT @ k = replicate 32 7"
  then have "take 1 (ROOT @ k) = take 1 (replicate 32 7)" by simp
  then show False by (simp add: ROOT_def str_def)
qed

lemma keys_neq_program:
  "config_key \<noteq> replicate 32 7" "gov_key \<noteq> replicate 32 7" "target_key \<noteq> replicate 32 7"
  "op_key h \<noteq> replicate 32 7" "authority_key \<noteq> replicate 32 7"
  using rooted_neq
  by (simp_all add: config_key_def gov_key_def target_key_def op_key_def authority_key_def del: seeds_simps)

theorem gov_call_reaches_handler_witness:
  "\<exists>infos rp. execute_infos execute_accs_1 (replicate 32 7)
       (List.map info_of [meta_new_readonly (replicate 32 7) False, meta_new config_key False,
          meta_new gov_key False, meta_new target_key False, meta_new (replicate 32 9) False]) = Inr infos \<and>
     receive_accs_of (call_accounts (replicate 32 7) infos) = Some rp \<and>
     receive_photon_msg_accounts sample_env rp hash_1 gov_world =
       Inr (gov_world, op_info_1 StSigned, config_1, protocol_info_default)"
proof -
  let ?metas = "[meta_new_readonly (replicate 32 7) False, meta_new config_key False,
    meta_new gov_key False, meta_new target_key False, meta_new (replicate 32 9) False]"
  obtain infos where infos: "execute_infos execute_accs_1 (replicate 32 7) (List.map info_of ?metas) = Inr infos"
    by (simp add: execute_infos_def)
  have "\<exists>rp. receive_accs_of (call_accounts (env_photon_id sample_env) infos) = Some rp \<and>
      receive_photon_msg_accounts sample_env rp hash_1 gov_world =
        Inr (gov_world, op_info_1 StSigned, config_1, protocol_info_default)"
    by (rule gov_call_reaches_handler [OF sample_gov_metas sample_gov_execute])
      (use infos in \<open>simp_all add: op_info_1_def op_1_def keys_neq_program execute_accs_1_def acc_simps
        key_def gov_world_def run_world_def w_init_def\<close>)
  then show ?thesis using infos by auto
qed

end
