(* ===== verification/Suspending.thy ===== *)
theory Suspending
  imports Photon_Util
begin

section \<open>Suspending when the balance is low\<close>

text \<open>
  \<^verbatim>\<open>check_balance_and_suspend\<close> of \<^verbatim>\<open>transmitter-module/src/executor_app/operation_manager.rs\<close>: up to 64 operations
  are processed concurrently, and each passes this gate before every turn. Below the limit the first
  one polls the balance while the others wait on a shared \<^verbatim>\<open>Notify\<close>. The operations run on one task, so they
  interleave at their \<^verbatim>\<open>await\<close>s only: a \<open>pc\<close> names the \<^verbatim>\<open>await\<close> an operation is at, and one definition per
  \<^verbatim>\<open>await\<close> is the code up to the next one. A \<^verbatim>\<open>Notify\<close> is a number; the mutex is never held across an
  \<^verbatim>\<open>await\<close>, so it is the field \<open>su_notify\<close>.
\<close>

record suspending_config =
  sc_check_balance_period :: u64
  sc_warn_balance :: u64
  sc_suspend_balance :: u64

datatype pc =
    Idle
  | FetchingBalance
  | Locking
  | WaitingOn nat
  | PollingBalance
  | Releasing
  | Passed bool
  | Crashed panic

record suspending_ctx =
  su_balance :: u64
  su_notify :: "nat option"
  su_counter :: u64
  su_fresh :: nat

definition suspending_ctx_default :: suspending_ctx where
  "suspending_ctx_default = \<lparr>su_balance = 0, su_notify = None, su_counter = 0, su_fresh = 0\<rparr>"

subsection \<open>The code between two awaits\<close>

text \<open>The test of the stored balance.\<close>

definition gate :: "suspending_config \<Rightarrow> suspending_ctx \<Rightarrow> pc" where
  "gate cfg c = (if su_balance c \<ge> sc_suspend_balance cfg then Passed True else Locking)"

text \<open>The entry; the remainder by a period of zero panics.\<close>

definition enter :: "suspending_config \<Rightarrow> suspending_ctx \<Rightarrow> pc" where
  "enter cfg c =
     (if sc_check_balance_period cfg = 0 then Crashed DivisionByZero
      else if su_counter c mod sc_check_balance_period cfg = 0 then FetchingBalance
      else gate cfg c)"

text \<open>After \<^verbatim>\<open>get_balance\<close> at the entry; \<open>None\<close> is its error.\<close>

definition got_balance :: "suspending_config \<Rightarrow> u64 option \<Rightarrow> suspending_ctx \<Rightarrow> pc \<times> suspending_ctx" where
  "got_balance cfg b c =
     (case b of
        None \<Rightarrow> (Passed False, c)
      | Some n \<Rightarrow> let c' = c\<lparr>su_balance := n\<rparr> in (gate cfg c', c'))"

text \<open>With the mutex: wait for the poller, or become it.\<close>

definition locked :: "suspending_ctx \<Rightarrow> pc \<times> suspending_ctx" where
  "locked c =
     (case su_notify c of
        Some n \<Rightarrow> (WaitingOn n, c)
      | None \<Rightarrow> (PollingBalance, c\<lparr>su_notify := Some (su_fresh c), su_fresh := Suc (su_fresh c)\<rparr>))"

text \<open>After \<^verbatim>\<open>get_balance\<close> in the polling loop.\<close>

definition polled :: "suspending_config \<Rightarrow> u64 option \<Rightarrow> suspending_ctx \<Rightarrow> pc \<times> suspending_ctx" where
  "polled cfg b c =
     (case b of
        None \<Rightarrow> (PollingBalance, c)
      | Some n \<Rightarrow> if n \<ge> sc_suspend_balance cfg then (Releasing, c\<lparr>su_balance := n\<rparr>) else (PollingBalance, c))"

text \<open>With the mutex again: the \<^verbatim>\<open>Notify\<close> whose waiters are woken.\<close>

definition release :: "suspending_ctx \<Rightarrow> pc \<times> nat option \<times> suspending_ctx" where
  "release c =
     (case su_notify c of
        None \<Rightarrow> (Crashed ExpectFailed, None, c)
      | Some n \<Rightarrow> (Passed True, Some n, c\<lparr>su_notify := None\<rparr>))"

text \<open>In \<^verbatim>\<open>process_operation\<close>: an operation that passed counts itself, one that did not tries again.\<close>

definition proceed :: "bool \<Rightarrow> suspending_ctx \<Rightarrow> suspending_ctx" where
  "proceed ok c = (if ok then c\<lparr>su_counter := su_counter c + 1\<rparr> else c)"

subsection \<open>Concurrent operations\<close>

record suspending =
  sp_ctx :: suspending_ctx
  sp_task :: "nat \<Rightarrow> pc"

definition set_task :: "nat \<Rightarrow> pc \<times> suspending_ctx \<Rightarrow> suspending \<Rightarrow> suspending" where
  "set_task i r s = s\<lparr>sp_ctx := snd r, sp_task := (sp_task s)(i := fst r)\<rparr>"

definition wake :: "nat option \<Rightarrow> (nat \<Rightarrow> pc) \<Rightarrow> nat \<Rightarrow> pc" where
  "wake n t i = (case n of None \<Rightarrow> t i | Some m \<Rightarrow> if t i = WaitingOn m then Passed True else t i)"

inductive susp_step :: "suspending_config \<Rightarrow> suspending \<Rightarrow> suspending \<Rightarrow> bool" for cfg where
  enters: "sp_task s i = Idle \<Longrightarrow> susp_step cfg s (set_task i (enter cfg (sp_ctx s), sp_ctx s) s)"
| fetched: "sp_task s i = FetchingBalance \<Longrightarrow> susp_step cfg s (set_task i (got_balance cfg b (sp_ctx s)) s)"
| locks: "sp_task s i = Locking \<Longrightarrow> susp_step cfg s (set_task i (locked (sp_ctx s)) s)"
| polls: "sp_task s i = PollingBalance \<Longrightarrow> susp_step cfg s (set_task i (polled cfg b (sp_ctx s)) s)"
| releases: "sp_task s i = Releasing \<Longrightarrow> release (sp_ctx s) = (p, n, c) \<Longrightarrow>
     susp_step cfg s (set_task i (p, c) (s\<lparr>sp_task := wake n (sp_task s)\<rparr>))"
| proceeds: "sp_task s i = Passed ok \<Longrightarrow> susp_step cfg s (set_task i (Idle, proceed ok (sp_ctx s)) s)"

inductive susp_reachable :: "suspending_config \<Rightarrow> suspending \<Rightarrow> bool" for cfg where
  start: "susp_reachable cfg \<lparr>sp_ctx = suspending_ctx_default, sp_task = (\<lambda>_. Idle)\<rparr>"
| step: "susp_reachable cfg s \<Longrightarrow> susp_step cfg s s' \<Longrightarrow> susp_reachable cfg s'"

subsection \<open>Exactly one poller\<close>

definition pollers :: "suspending \<Rightarrow> nat set" where
  "pollers s = {i. sp_task s i = PollingBalance \<or> sp_task s i = Releasing}"

definition susp_inv :: "suspending \<Rightarrow> bool" where
  "susp_inv s \<longleftrightarrow>
     (case su_notify (sp_ctx s) of
        None \<Rightarrow> pollers s = {} \<and> (\<forall>i n. sp_task s i \<noteq> WaitingOn n)
      | Some n \<Rightarrow> (\<exists>i. pollers s = {i}) \<and> (\<forall>i m. sp_task s i = WaitingOn m \<longrightarrow> m = n))
     \<and> (\<forall>i. sp_task s i \<noteq> Crashed ExpectFailed)"

lemma set_task_simps [simp]:
  "sp_task (set_task i r s) j = (if j = i then fst r else sp_task s j)" "sp_ctx (set_task i r s) = snd r"
  by (simp_all add: set_task_def)

text \<open>The tasks other than \<open>i\<close>, and a new program counter for \<open>i\<close> that is neither a poller nor a waiter.\<close>

lemma pollers_set_task:
  "pollers (set_task i r s) = (pollers s - {i}) \<union> (if fst r = PollingBalance \<or> fst r = Releasing then {i} else {})"
  by (auto simp: pollers_def)

definition plain :: "pc \<Rightarrow> bool" where
  "plain p \<longleftrightarrow> p \<noteq> PollingBalance \<and> p \<noteq> Releasing \<and> (\<forall>n. p \<noteq> WaitingOn n) \<and> p \<noteq> Crashed ExpectFailed"

lemma plain_step:
  assumes "susp_inv s" "i \<notin> pollers s" "plain (fst r)" "su_notify (snd r) = su_notify (sp_ctx s)"
  shows "susp_inv (set_task i r s)"
proof -
  have "pollers (set_task i r s) = pollers s"
    using assms(2,3) by (simp add: pollers_set_task plain_def)
  with assms show ?thesis
    by (auto simp: susp_inv_def plain_def split: option.splits)
qed

lemma plain_gate: "plain (gate cfg c)"
  by (simp add: gate_def plain_def)

lemma plain_enter: "plain (enter cfg c)"
  by (simp add: enter_def plain_gate) (simp add: plain_def)

lemma locks_keeps:
  assumes "susp_inv s" "sp_task s i = Locking"
  shows "susp_inv (set_task i (locked (sp_ctx s)) s)"
proof -
  have i: "i \<notin> pollers s" using assms(2) by (simp add: pollers_def)
  show ?thesis
  proof (cases "su_notify (sp_ctx s)")
    case None
    with assms(1) i show ?thesis
      by (simp add: susp_inv_def pollers_set_task locked_def)
  next
    case (Some n)
    with assms(1) i show ?thesis
      by (simp add: susp_inv_def pollers_set_task locked_def)
  qed
qed

lemma polls_keeps:
  assumes "susp_inv s" "sp_task s i = PollingBalance"
  shows "susp_inv (set_task i (polled cfg b (sp_ctx s)) s)"
proof -
  let ?r = "polled cfg b (sp_ctx s)"
  have r: "fst ?r = PollingBalance \<or> fst ?r = Releasing" "su_notify (snd ?r) = su_notify (sp_ctx s)"
    by (auto simp: polled_def split: option.split)
  have "i \<in> pollers s" using assms(2) by (simp add: pollers_def)
  then have "pollers (set_task i ?r s) = pollers s" using r(1) by (auto simp: pollers_set_task)
  with assms r show ?thesis
    by (auto simp: susp_inv_def split: option.splits)
qed

lemma releases_keeps:
  assumes "susp_inv s" "sp_task s i = Releasing" "release (sp_ctx s) = (p, n, c)"
  shows "susp_inv (set_task i (p, c) (s\<lparr>sp_task := wake n (sp_task s)\<rparr>))"
proof -
  have i: "i \<in> pollers s" using assms(2) by (simp add: pollers_def)
  with assms(1) obtain m where m: "su_notify (sp_ctx s) = Some m" "pollers s = {i}"
    by (cases "su_notify (sp_ctx s)") (auto simp: susp_inv_def)
  then have r: "p = Passed True" "n = Some m" "su_notify c = None"
    using assms(3) by (auto simp: release_def)
  have "pollers (s\<lparr>sp_task := wake n (sp_task s)\<rparr>) = pollers s"
    by (auto simp: pollers_def wake_def r(2))
  then have "pollers (set_task i (p, c) (s\<lparr>sp_task := wake n (sp_task s)\<rparr>)) = {}"
    using m(2) r(1) by (simp add: pollers_set_task)
  moreover have "sp_task s j \<noteq> WaitingOn k \<or> k = m" "sp_task s j \<noteq> Crashed ExpectFailed" for j k
    using assms(1) m(1) by (auto simp: susp_inv_def)
  ultimately show ?thesis
    by (auto simp: susp_inv_def r wake_def split: if_splits)
qed

lemma susp_step_keeps:
  assumes "susp_step cfg s s'" "susp_inv s"
  shows "susp_inv s'"
  using assms
proof (cases rule: susp_step.cases)
  case (enters i)
  then show ?thesis using assms(2) plain_enter by (auto simp: pollers_def intro!: plain_step)
next
  case (fetched i b)
  have "plain (fst (got_balance cfg b (sp_ctx s)))"
    by (auto simp: got_balance_def Let_def plain_gate split: option.split) (simp add: plain_def)
  with fetched assms(2) show ?thesis
    by (auto simp: pollers_def got_balance_def Let_def split: option.split intro!: plain_step)
next
  case (proceeds i ok)
  then show ?thesis
    using assms(2) by (auto simp: pollers_def proceed_def plain_def intro!: plain_step)
qed (auto intro: locks_keeps polls_keeps releases_keeps assms(2))

lemma susp_reachable_inv: "susp_reachable cfg s \<Longrightarrow> susp_inv s"
proof (induction rule: susp_reachable.induct)
  case start
  show ?case by (simp add: susp_inv_def suspending_ctx_default_def pollers_def)
qed (rule susp_step_keeps)

text \<open>C33: No suspended operation is forgotten. However the concurrent operations interleave, whenever one waits
  there is exactly one operation polling the balance (or about to release), the waiting one waits on the
  notification which that poller will give, and when it gives it, all of them pass; the poller's
  \<^verbatim>\<open>expect\<close> never fails.\<close>

theorem suspended_operations_resume:
  assumes "susp_reachable cfg s" "sp_task s i = WaitingOn n"
  shows "\<exists>j. pollers s = {j} \<and> su_notify (sp_ctx s) = Some n
    \<and> (sp_task s j = Releasing \<longrightarrow>
        (\<exists>s'. susp_step cfg s s' \<and> sp_task s' j = Passed True \<and> (\<forall>l m. sp_task s' l \<noteq> WaitingOn m)
           \<and> sp_task s' i = Passed True))
    \<and> (\<forall>l. sp_task s l \<noteq> Crashed ExpectFailed)"
proof -
  have inv: "susp_inv s" by (rule susp_reachable_inv [OF assms(1)])
  then obtain m where m: "su_notify (sp_ctx s) = Some m"
    using assms(2) by (cases "su_notify (sp_ctx s)") (auto simp: susp_inv_def)
  have w: "\<forall>l k. sp_task s l = WaitingOn k \<longrightarrow> k = m" and ok: "\<forall>l. sp_task s l \<noteq> Crashed ExpectFailed"
    and "\<exists>j. pollers s = {j}"
    using inv m by (simp_all add: susp_inv_def)
  then obtain j where j: "pollers s = {j}" "m = n" using assms(2) by blast
  have "\<exists>s'. susp_step cfg s s' \<and> sp_task s' j = Passed True \<and> (\<forall>l m. sp_task s' l \<noteq> WaitingOn m)
      \<and> sp_task s' i = Passed True" if rel: "sp_task s j = Releasing"
  proof -
    let ?s = "set_task j (Passed True, (sp_ctx s)\<lparr>su_notify := None\<rparr>) (s\<lparr>sp_task := wake (Some n) (sp_task s)\<rparr>)"
    have "susp_step cfg s ?s"
      by (rule releases [OF rel]) (simp add: release_def m j(2))
    moreover have "sp_task ?s j = Passed True" by simp
    moreover have "i \<noteq> j" using assms(2) rel by auto
    then have "sp_task ?s i = Passed True" using assms(2) by (simp add: wake_def)
    moreover have "sp_task ?s l \<noteq> WaitingOn k" for l k
    proof
      assume "sp_task ?s l = WaitingOn k"
      then have "sp_task s l = WaitingOn k" "k \<noteq> n" by (auto simp: wake_def split: if_splits)
      with w j(2) show False by blast
    qed
    ultimately show ?thesis by blast
  qed
  with m j ok show ?thesis by (intro exI [of _ j]) simp
qed

text \<open>Two operations find a balance of 5 below the limit 10: one polls, the other waits.\<close>

definition sample_suspending_config :: suspending_config where
  "sample_suspending_config = \<lparr>sc_check_balance_period = 1, sc_warn_balance = 20, sc_suspend_balance = 10\<rparr>"

definition suspend_one :: "nat \<Rightarrow> suspending \<Rightarrow> suspending" where
  "suspend_one i s =
     (let cfg = sample_suspending_config;
          s1 = set_task i (enter cfg (sp_ctx s), sp_ctx s) s;
          s2 = set_task i (got_balance cfg (Some 5) (sp_ctx s1)) s1
      in set_task i (locked (sp_ctx s2)) s2)"

lemma suspend_one_reachable:
  assumes "susp_reachable sample_suspending_config s" "sp_task s i = Idle"
  shows "susp_reachable sample_suspending_config (suspend_one i s)"
proof -
  let ?cfg = sample_suspending_config
  let ?s1 = "set_task i (enter ?cfg (sp_ctx s), sp_ctx s) s"
  let ?s2 = "set_task i (got_balance ?cfg (Some 5) (sp_ctx ?s1)) ?s1"
  have "susp_step ?cfg s ?s1" by (rule enters [OF assms(2)])
  moreover have "susp_step ?cfg ?s1 ?s2"
    by (rule fetched) (simp add: enter_def sample_suspending_config_def)
  moreover have "susp_step ?cfg ?s2 (set_task i (locked (sp_ctx ?s2)) ?s2)"
    by (rule locks) (simp add: got_balance_def gate_def Let_def sample_suspending_config_def)
  ultimately show ?thesis
    using assms(1) unfolding suspend_one_def Let_def by (meson susp_reachable.step)
qed

definition sample_suspended :: suspending where
  "sample_suspended =
     suspend_one 1 (suspend_one 0 \<lparr>sp_ctx = suspending_ctx_default, sp_task = (\<lambda>_. Idle)\<rparr>)"

lemmas suspend_simps = sample_suspended_def suspend_one_def Let_def locked_def got_balance_def
  suspending_ctx_default_def

lemma suspended_operations_resume_witness: "\<exists>j. pollers sample_suspended = {j}"
proof -
  have "susp_reachable sample_suspending_config sample_suspended"
    unfolding sample_suspended_def
    by (intro suspend_one_reachable start) (simp_all add: suspend_one_def Let_def)
  moreover have "sp_task sample_suspended 1 = WaitingOn 0"
    by (simp add: suspend_simps)
  ultimately show ?thesis using suspended_operations_resume by blast
qed

end
