(* ===== verification/App_Config.thy ===== *)
theory App_Config
  imports Event_Apps Executor_App Suspending Rpc_Pool
begin

section \<open>Configuration and start of the applications\<close>

text \<open>
  \<^verbatim>\<open>config.rs\<close> of the three applications and of \<^verbatim>\<open>common\<close>, \<^verbatim>\<open>transmitter-common/src/config.rs\<close> and \<^verbatim>\<open>mongodb.rs\<close>,
  \<^verbatim>\<open>cli.rs\<close>, and the parts of the \<^verbatim>\<open>app.rs\<close> that turn a configuration into a running application. The value
  tree that the configuration library builds from the file and the environment, and its readers of strings,
  numbers and sequences, are fields of \<open>config_env\<close>; the structures of the source say which names are looked
  up, which may be missing and which are read in a way of their own. A flattened part reads its names from the
  table it is flattened into.
\<close>

record ('v, 'l, 'k) config_env =
  cf_build :: "string \<Rightarrow> 'v option"
  cf_field :: "'v \<Rightarrow> string \<Rightarrow> 'v option"
  cf_string :: "'v \<Rightarrow> string option"
  cf_uint :: "'v \<Rightarrow> nat option"
  cf_seq :: "'v \<Rightarrow> 'v list option"
  cf_commitment :: "'v \<Rightarrow> 'l option"
  cf_base58 :: "string \<Rightarrow> bytes option"
  cf_keypair :: "bytes \<Rightarrow> 'k option"
  cf_bool :: "'v \<Rightarrow> bool option"
  cf_hex :: "string \<Rightarrow> bytes option"
  cf_pubkey :: "string \<Rightarrow> bytes option"

subsection \<open>Reading a field\<close>

definition required :: "('v, 'l, 'k) config_env \<Rightarrow> ('v \<Rightarrow> 'a option) \<Rightarrow> string \<Rightarrow> 'v \<Rightarrow> 'a option" where
  "required env rd name v = Option.bind (cf_field env v name) rd"

definition with_default :: "('v, 'l, 'k) config_env \<Rightarrow> ('v \<Rightarrow> 'a option) \<Rightarrow> 'a \<Rightarrow> string \<Rightarrow> 'v \<Rightarrow> 'a option" where
  "with_default env rd d name v = (case cf_field env v name of None \<Rightarrow> Some d | Some x \<Rightarrow> rd x)"

text \<open>An \<^verbatim>\<open>Option\<close> field with an alias, which may be given under one of the names.\<close>

definition optional_alias ::
    "('v, 'l, 'k) config_env \<Rightarrow> ('v \<Rightarrow> 'a option) \<Rightarrow> string \<Rightarrow> string \<Rightarrow> 'v \<Rightarrow> 'a option option" where
  "optional_alias env rd name alias v =
     (case (cf_field env v name, cf_field env v alias) of
        (None, None) \<Rightarrow> Some None
      | (Some x, None) \<Rightarrow> map_option Some (rd x)
      | (None, Some x) \<Rightarrow> map_option Some (rd x)
      | (Some x, Some y) \<Rightarrow> None)"

definition read_word :: "('v, 'l, 'k) config_env \<Rightarrow> 'v \<Rightarrow> 'w::len word option" where
  "read_word env v =
     Option.bind (cf_uint env v) (\<lambda>n. if n < 2 ^ LENGTH('w) then Some (word_of_nat n) else None)"

definition read_list :: "('v, 'l, 'k) config_env \<Rightarrow> ('v \<Rightarrow> 'a option) \<Rightarrow> 'v \<Rightarrow> 'a list option" where
  "read_list env rd v = Option.bind (cf_seq env v) (\<lambda>vs. those (List.map rd vs))"

subsection \<open>The structures\<close>

record mongodb_config =
  mc_user :: string
  mc_password :: string
  mc_uri :: string
  mc_db :: string
  mc_key :: string

definition read_mongodb :: "('v, 'l, 'k) config_env \<Rightarrow> 'v \<Rightarrow> mongodb_config option" where
  "read_mongodb env v =
     Option.bind (required env (cf_string env) ''user'' v) (\<lambda>user.
     Option.bind (required env (cf_string env) ''password'' v) (\<lambda>password.
     Option.bind (required env (cf_string env) ''uri'' v) (\<lambda>uri.
     Option.bind (required env (cf_string env) ''db'' v) (\<lambda>db.
     Option.bind (required env (cf_string env) ''key'' v) (\<lambda>mkey.
     Some \<lparr>mc_user = user, mc_password = password, mc_uri = uri, mc_db = db, mc_key = mkey\<rparr>)))))"

record connect_config =
  cc_host :: string
  cc_port :: "16 word"
  cc_user :: string
  cc_password :: string

definition read_connect :: "('v, 'l, 'k) config_env \<Rightarrow> 'v \<Rightarrow> connect_config option" where
  "read_connect env v =
     Option.bind (required env (cf_string env) ''host'' v) (\<lambda>host.
     Option.bind (required env (read_word env) ''port'' v) (\<lambda>port.
     Option.bind (required env (cf_string env) ''user'' v) (\<lambda>user.
     Option.bind (required env (cf_string env) ''password'' v) (\<lambda>password.
     Some \<lparr>cc_host = host, cc_port = port, cc_user = user, cc_password = password\<rparr>))))"

record binding_config =
  bc_exchange :: string
  bc_routing_key :: string

definition read_binding :: "('v, 'l, 'k) config_env \<Rightarrow> 'v \<Rightarrow> binding_config option" where
  "read_binding env v =
     Option.bind (required env (cf_string env) ''exchange'' v) (\<lambda>exchange.
     Option.bind (required env (cf_string env) ''routing_key'' v) (\<lambda>routing_key.
     Some \<lparr>bc_exchange = exchange, bc_routing_key = routing_key\<rparr>))"

definition read_reconnect :: "('v, 'l, 'k) config_env \<Rightarrow> 'v \<Rightarrow> reconnect_config option" where
  "read_reconnect env v =
     Option.bind (with_default env (read_word env) default_reconnect_attempts ''reconnect_attempts'' v) (\<lambda>attempts.
     Option.bind (with_default env (read_word env) default_reconnect_timeout_ms ''reconnect_timeout_ms'' v) (\<lambda>timeout_ms.
     Some \<lparr>rc_attempts = attempts, rc_timeout_ms = timeout_ms\<rparr>))"

record publish_config =
  pc_connect :: connect_config
  pc_binding :: binding_config
  pc_reconnect :: reconnect_config

definition read_publish :: "('v, 'l, 'k) config_env \<Rightarrow> 'v \<Rightarrow> publish_config option" where
  "read_publish env v =
     Option.bind (read_connect env v) (\<lambda>con.
     Option.bind (read_binding env v) (\<lambda>binding.
     Option.bind (read_reconnect env v) (\<lambda>recon.
     Some \<lparr>pc_connect = con, pc_binding = binding, pc_reconnect = recon\<rparr>)))"

definition read_rpc_entry :: "('v, 'l, 'k) config_env \<Rightarrow> 'v \<Rightarrow> rpc_entry option" where
  "read_rpc_entry env v =
     Option.bind (required env (cf_string env) ''url'' v) (\<lambda>url.
     Option.bind (required env (read_word env) ''ratelimit'' v) (\<lambda>ratelimit.
     Some \<lparr>re_url = url, re_ratelimit = ratelimit\<rparr>))"

record 'l client_config =
  sl_commitment :: 'l
  sl_read_rpcs :: "rpc_entry list"
  sl_write_rpcs :: "rpc_entry list"

definition read_client :: "('v, 'l, 'k) config_env \<Rightarrow> 'v \<Rightarrow> 'l client_config option" where
  "read_client env v =
     Option.bind (required env (cf_commitment env) ''commitment'' v) (\<lambda>commitment.
     Option.bind (required env (read_list env (read_rpc_entry env)) ''read_rpcs'' v) (\<lambda>reads.
     Option.bind (required env (read_list env (read_rpc_entry env)) ''write_rpcs'' v) (\<lambda>writes.
     Some \<lparr>sl_commitment = commitment, sl_read_rpcs = reads, sl_write_rpcs = writes\<rparr>)))"

record 'l listener_client_config =
  ll_client :: "'l client_config"
  ll_tx_read_from :: "string option"

definition read_listener_client :: "('v, 'l, 'k) config_env \<Rightarrow> 'v \<Rightarrow> 'l listener_client_config option" where
  "read_listener_client env v =
     Option.bind (read_client env v) (\<lambda>client.
     Option.bind (optional_alias env (cf_string env) ''tx_read_from'' ''txreadfrom'' v) (\<lambda>tx_read_from.
     Some \<lparr>ll_client = client, ll_tx_read_from = tx_read_from\<rparr>))"

subsection \<open>Listener and watcher\<close>

record 'l watcher_config =
  wc_rabbitmq :: publish_config
  wc_solana :: "'l listener_client_config"
  wc_mongodb :: mongodb_config

record 'l listen_config = "'l watcher_config" +
  lc_allowed_protocols :: "string list"

definition read_watcher :: "('v, 'l, 'k) config_env \<Rightarrow> 'v \<Rightarrow> 'l watcher_config option" where
  "read_watcher env v =
     Option.bind (required env (read_publish env) ''rabbitmq'' v) (\<lambda>rabbitmq.
     Option.bind (required env (read_listener_client env) ''solana'' v) (\<lambda>solana.
     Option.bind (required env (read_mongodb env) ''mongodb'' v) (\<lambda>mongodb.
     Some \<lparr>wc_rabbitmq = rabbitmq, wc_solana = solana, wc_mongodb = mongodb\<rparr>)))"

definition read_listen :: "('v, 'l, 'k) config_env \<Rightarrow> 'v \<Rightarrow> 'l listen_config option" where
  "read_listen env v =
     Option.bind (required env (read_publish env) ''rabbitmq'' v) (\<lambda>rabbitmq.
     Option.bind (required env (read_listener_client env) ''solana'' v) (\<lambda>solana.
     Option.bind (required env (read_mongodb env) ''mongodb'' v) (\<lambda>mongodb.
     Option.bind (required env (read_list env (cf_string env)) ''allowed_protocols'' v) (\<lambda>allowed_protocols.
     Some \<lparr>wc_rabbitmq = rabbitmq, wc_solana = solana, wc_mongodb = mongodb,
           lc_allowed_protocols = allowed_protocols\<rparr>))))"

datatype 'e listen_error = ListenConfigError | ListenRabbitmq 'e | ListenMongodb
datatype 'e watcher_error = WatcherConfigError | WatcherRabbitmq 'e

definition listen_try_from_path :: "('v, 'l, 'k) config_env \<Rightarrow> string \<Rightarrow> 'e listen_error + 'l listen_config" where
  "listen_try_from_path env path =
     bindE (ok_or (cf_build env path) ListenConfigError) (\<lambda>v. ok_or (read_listen env v) ListenConfigError)"

definition watcher_try_from_path :: "('v, 'l, 'k) config_env \<Rightarrow> string \<Rightarrow> 'e watcher_error + 'l watcher_config" where
  "watcher_try_from_path env path =
     bindE (ok_or (cf_build env path) WatcherConfigError) (\<lambda>v. ok_or (read_watcher env v) WatcherConfigError)"

subsection \<open>Executor\<close>

record consumer_config =
  co_connect :: connect_config
  co_binding :: binding_config
  co_consumer_tag :: string
  co_queue :: string
  co_reconnect :: reconnect_config

definition read_consumer :: "('v, 'l, 'k) config_env \<Rightarrow> 'v \<Rightarrow> consumer_config option" where
  "read_consumer env v =
     Option.bind (read_connect env v) (\<lambda>con.
     Option.bind (read_binding env v) (\<lambda>binding.
     Option.bind (required env (cf_string env) ''consumer_tag'' v) (\<lambda>consumer_tag.
     Option.bind (required env (cf_string env) ''queue'' v) (\<lambda>queue.
     Option.bind (read_reconnect env v) (\<lambda>recon.
     Some \<lparr>co_connect = con, co_binding = binding, co_consumer_tag = consumer_tag, co_queue = queue,
           co_reconnect = recon\<rparr>)))))"

definition deserialize_keypair :: "('v, 'l, 'k) config_env \<Rightarrow> 'v \<Rightarrow> 'k option" where
  "deserialize_keypair env v =
     Option.bind (cf_string env v) (\<lambda>s. Option.bind (cf_base58 env s) (cf_keypair env))"

definition read_suspending :: "('v, 'l, 'k) config_env \<Rightarrow> 'v \<Rightarrow> suspending_config option" where
  "read_suspending env v =
     Option.bind (required env (read_word env) ''check_balance_period'' v) (\<lambda>period.
     Option.bind (required env (read_word env) ''warn_balance_lamports'' v) (\<lambda>warn.
     Option.bind (required env (read_word env) ''suspend_balance_lamports'' v) (\<lambda>suspend.
     Some \<lparr>sc_check_balance_period = period, sc_warn_balance = warn, sc_suspend_balance = suspend\<rparr>)))"

record ('l, 'k) solana_executor_config =
  se_payer :: 'k
  se_client :: "'l client_config"
  se_suspending_config :: suspending_config
  se_executor_attempts :: u64

definition read_solana_executor :: "('v, 'l, 'k) config_env \<Rightarrow> 'v \<Rightarrow> ('l, 'k) solana_executor_config option" where
  "read_solana_executor env v =
     Option.bind (required env (deserialize_keypair env) ''payer'' v) (\<lambda>payer.
     Option.bind (read_client env v) (\<lambda>client.
     Option.bind (read_suspending env v) (\<lambda>suspending.
     Option.bind (required env (read_word env) ''executor_attempts'' v) (\<lambda>attempts.
     Some \<lparr>se_payer = payer, se_client = client, se_suspending_config = suspending,
           se_executor_attempts = attempts\<rparr>))))"

record ('l, 'k) executor_config =
  ex_extensions :: "string list"
  ex_rabbitmq :: consumer_config
  ex_solana :: "('l, 'k) solana_executor_config"
  ex_mongodb :: mongodb_config

definition read_executor :: "('v, 'l, 'k) config_env \<Rightarrow> 'v \<Rightarrow> ('l, 'k) executor_config option" where
  "read_executor env v =
     Option.bind (required env (read_list env (cf_string env)) ''extensions'' v) (\<lambda>extensions.
     Option.bind (required env (read_consumer env) ''rabbitmq'' v) (\<lambda>rabbitmq.
     Option.bind (required env (read_solana_executor env) ''solana'' v) (\<lambda>solana.
     Option.bind (required env (read_mongodb env) ''mongodb'' v) (\<lambda>mongodb.
     Some \<lparr>ex_extensions = extensions, ex_rabbitmq = rabbitmq, ex_solana = solana, ex_mongodb = mongodb\<rparr>))))"

definition executor_try_from_path :: "('v, 'l, 'k) config_env \<Rightarrow> string \<Rightarrow> executor_error + ('l, 'k) executor_config" where
  "executor_try_from_path env path =
     bindE (ok_or (cf_build env path) ExecConfig) (\<lambda>v. ok_or (read_executor env v) ExecConfig)"

subsection \<open>The bridge extensions\<close>

text \<open>\<^verbatim>\<open>from_config\<close> of the two bridge extensions: every failure is an \<^verbatim>\<open>expect\<close>, when the library is first used.\<close>

definition read_hex :: "('v, 'l, 'k) config_env \<Rightarrow> 'v \<Rightarrow> bytes option" where
  "read_hex env v = Option.bind (cf_string env v) (cf_hex env)"

definition deserialize_pubkey :: "('v, 'l, 'k) config_env \<Rightarrow> 'v \<Rightarrow> bytes option" where
  "deserialize_pubkey env v = Option.bind (cf_string env v) (cf_pubkey env)"

definition read_bridge :: "('v, 'l, 'k) config_env \<Rightarrow> 'v \<Rightarrow> bridge_config option" where
  "read_bridge env v =
     Option.bind (required env (read_hex env) ''protocol_id'' v) (\<lambda>protocol_id.
     Option.bind (required env (deserialize_pubkey env) ''bridge_program'' v) (\<lambda>bridge_program.
     Option.bind (required env (deserialize_pubkey env) ''core_program'' v) (\<lambda>core_program.
     Option.bind (required env (cf_string env) ''bridge_root'' v) (\<lambda>bridge_root.
     Option.bind (required env (cf_string env) ''core_root'' v) (\<lambda>core_root.
     Option.bind (required env (deserialize_pubkey env) ''mint'' v) (\<lambda>mint.
     Option.bind (required env (deserialize_pubkey env) ''fee_collector_vault'' v) (\<lambda>vault.
     Option.bind (required env (cf_bool env) ''use_token2022'' v) (\<lambda>use_token2022.
     Some \<lparr>bc_protocol_id = protocol_id, bc_bridge_program = bridge_program, bc_core_program = core_program,
           bc_bridge_root = str bridge_root, bc_core_root = str core_root, bc_mint = mint,
           bc_fee_collector_vault = vault, bc_use_token2022 = use_token2022\<rparr>))))))))"

definition bridge_from_config ::
    "('v, 'l, 'k) config_env \<Rightarrow> 'x env \<Rightarrow> spl_env \<Rightarrow> panic + protocol_ext" where
  "bridge_from_config cfg env spl =
     bindE (ok_or (cf_build cfg ''extensions/bridge-borpa.toml'') ExpectFailed) (\<lambda>v.
     bindE (ok_or (read_bridge cfg v) ExpectFailed) (bridge_extension env spl))"

definition read_ngl :: "('v, 'l, 'k) config_env \<Rightarrow> 'v \<Rightarrow> ngl_config option" where
  "read_ngl env v =
     Option.bind (required env (read_hex env) ''protocol_id'' v) (\<lambda>protocol_id.
     Option.bind (required env (deserialize_pubkey env) ''bridge_program'' v) (\<lambda>bridge_program.
     Option.bind (required env (deserialize_pubkey env) ''core_program'' v) (\<lambda>core_program.
     Option.bind (required env (cf_string env) ''seed_root'' v) (\<lambda>seed_root.
     Option.bind (required env (deserialize_pubkey env) ''mint'' v) (\<lambda>mint.
     Option.bind (required env (deserialize_pubkey env) ''fee_collector_vault'' v) (\<lambda>vault.
     Option.bind (required env (cf_bool env) ''use_token2022'' v) (\<lambda>use_token2022.
     Some \<lparr>nc_protocol_id = protocol_id, nc_bridge_program = bridge_program, nc_core_program = core_program,
           nc_seed_root = str seed_root, nc_mint = mint, nc_fee_collector_vault = vault,
           nc_use_token2022 = use_token2022\<rparr>)))))))"

definition ngl_from_config ::
    "('v, 'l, 'k) config_env \<Rightarrow> 'x env \<Rightarrow> spl_env \<Rightarrow> panic + protocol_ext" where
  "ngl_from_config cfg env spl =
     bindE (ok_or (cf_build cfg ''extensions/bridge-ngl.toml'') ExpectFailed) (\<lambda>v.
     bindE (ok_or (read_ngl cfg v) ExpectFailed) (ngl_extension env spl))"

subsection \<open>The test tools\<close>

record test_config =
  tc_connect :: connect_config
  tc_binding :: binding_config
  tc_consumer_tag :: string
  tc_queue :: string
  tc_mongodb :: mongodb_config

definition read_test_config :: "('v, 'l, 'k) config_env \<Rightarrow> 'v \<Rightarrow> test_config option" where
  "read_test_config env v =
     Option.bind (cf_field env v ''rabbitmq'') (\<lambda>r.
     Option.bind (read_connect env r) (\<lambda>con.
     Option.bind (read_binding env r) (\<lambda>binding.
     Option.bind (required env (cf_string env) ''consumer_tag'' r) (\<lambda>consumer_tag.
     Option.bind (required env (cf_string env) ''queue'' r) (\<lambda>queue.
     Option.bind (required env (read_mongodb env) ''mongodb'' v) (\<lambda>mongodb.
     Some \<lparr>tc_connect = con, tc_binding = binding, tc_consumer_tag = consumer_tag, tc_queue = queue,
           tc_mongodb = mongodb\<rparr>))))))"

definition test_listener_config :: "('v, 'l, 'k) config_env \<Rightarrow> string \<Rightarrow> panic + test_config" where
  "test_listener_config env path =
     bindE (ok_or (cf_build env path) ExpectFailed) (\<lambda>v. ok_or (read_test_config env v) ExpectFailed)"

record publisher_config =
  pu_connect :: connect_config
  pu_binding :: binding_config

definition read_publisher :: "('v, 'l, 'k) config_env \<Rightarrow> 'v \<Rightarrow> publisher_config option" where
  "read_publisher env v =
     Option.bind (cf_field env v ''rabbitmq'') (\<lambda>r.
     Option.bind (read_connect env r) (\<lambda>con.
     Option.bind (read_binding env r) (\<lambda>binding.
     Some \<lparr>pu_connect = con, pu_binding = binding\<rparr>)))"

definition test_publisher_config :: "('v, 'l, 'k) config_env \<Rightarrow> string \<Rightarrow> panic + publisher_config" where
  "test_publisher_config env path =
     bindE (ok_or (cf_build env path) ExpectFailed) (\<lambda>v. ok_or (read_publisher env v) ExpectFailed)"

subsection \<open>Starting the applications\<close>

definition client_pool ::
    "(string \<Rightarrow> 'u option) \<Rightarrow> (nat \<Rightarrow> u64) \<Rightarrow> 'l client_config \<Rightarrow> tx_fault + ('u, 'v) rpc_pool" where
  "client_pool parse clock c = rpc_pool_new parse clock (sl_read_rpcs c) (sl_write_rpcs c)"

text \<open>The reader of the listener and of the watcher, which opens its pool after it has found a position.\<close>

definition start_reading ::
    "tx_fault + ('u, 'v) rpc_pool \<Rightarrow> sig_env \<Rightarrow> mongo_answers \<Rightarrow> 'l watcher_config \<Rightarrow> nat
     \<Rightarrow> 'e app_stop + ('m, 'e) event_app" where
  "start_reading pool sg mongo c k =
     (let configured = ll_tx_read_from (wc_solana c); mkey = mc_key (wc_mongodb c) in
      case pool of
        Inl (TxPanic p) \<Rightarrow>
          (case get_tx_read_from configured (get_last_processed_block mongo mkey) of
             None \<Rightarrow> Inl (ReaderReturned (Inr ()))
           | Some s \<Rightarrow> Inl (AppPanic p))
      | Inl (TxErr e) \<Rightarrow> event_app_start sg (Inl SolanaTransacto) configured mongo mkey k
      | Inr pool' \<Rightarrow> event_app_start sg (Inr ()) configured mongo mkey k)"

text \<open>An application whose configuration cannot be read returns at once.\<close>

definition listener_execute ::
    "('v, 'l, 'k) config_env \<Rightarrow> (string \<Rightarrow> 'u option) \<Rightarrow> (nat \<Rightarrow> u64) \<Rightarrow> sig_env \<Rightarrow> mongo_answers \<Rightarrow> nat \<Rightarrow> string
     \<Rightarrow> (proposal_event_processor \<times> reconnect_config \<times> ('e app_stop + (t_propose, 'e) event_app)) option" where
  "listener_execute env parse clock sg mongo k path =
     (case listen_try_from_path env path :: 'e listen_error + 'l listen_config of
        Inl e \<Rightarrow> None
      | Inr c \<Rightarrow>
          Some (proposal_event_processor_new (List.map str (lc_allowed_protocols c)), pc_reconnect (wc_rabbitmq c),
                start_reading (client_pool parse clock (ll_client (wc_solana c)) :: tx_fault + ('u, unit) rpc_pool)
                  sg mongo (watcher_config.truncate c) k))"

definition watcher_execute ::
    "('v, 'l, 'k) config_env \<Rightarrow> (string \<Rightarrow> 'u option) \<Rightarrow> (nat \<Rightarrow> u64) \<Rightarrow> sig_env \<Rightarrow> mongo_answers \<Rightarrow> nat \<Rightarrow> string
     \<Rightarrow> (reconnect_config \<times> ('e app_stop + (t_proposal_executed, 'e) event_app)) option" where
  "watcher_execute env parse clock sg mongo k path =
     (case watcher_try_from_path env path :: 'e watcher_error + 'l watcher_config of
        Inl e \<Rightarrow> None
      | Inr c \<Rightarrow>
          Some (pc_reconnect (wc_rabbitmq c),
                start_reading (client_pool parse clock (ll_client (wc_solana c)) :: tx_fault + ('u, unit) rpc_pool)
                  sg mongo c k))"

datatype start_fault = StartErr executor_error | StartPanic panic

definition start_fault_of :: "tx_fault \<Rightarrow> start_fault" where
  "start_fault_of f = (case f of TxErr e \<Rightarrow> StartErr (ExecTransactor e) | TxPanic p \<Rightarrow> StartPanic p)"

definition updater_try_new :: "mongo_answers \<Rightarrow> start_fault + block_updater" where
  "updater_try_new mongo =
     bindE (ok_or (mg_options mongo) (StartErr ExecMongodb)) (\<lambda>_.
     bindE (ok_or (mg_client mongo) (StartErr ExecMongodb)) (\<lambda>_.
     Inr block_updater_new))"

text \<open>What the operation manager is made of; the runtime, the encoders and the loader are its environment.\<close>

record ('x, 'k) manager_env =
  me_env :: "'x env"
  me_encode :: "ix_args \<Rightarrow> bytes"
  me_deserialize :: "bytes \<Rightarrow> op_info option"
  me_load :: "string \<Rightarrow> protocol_ext option"
  me_pubkey :: "'k \<Rightarrow> bytes"

definition operation_manager_new :: "('x, 'k) manager_env \<Rightarrow> string list \<Rightarrow> ('l, 'k) solana_executor_config \<Rightarrow> 'x executor" where
  "operation_manager_new me extensions c =
     \<lparr>xe_env = me_env me, xe_extensions = extension_manager_new (me_load me) extensions,
      xe_payer = me_pubkey me (se_payer c), xe_attempts = unat (se_executor_attempts c),
      xe_encode = me_encode me, xe_deserialize = me_deserialize me\<rparr>"

definition exec_try_new ::
    "(string \<Rightarrow> 'u option) \<Rightarrow> (nat \<Rightarrow> u64) \<Rightarrow> (nat \<Rightarrow> ('u, 'v, 'e + u64) rpc_call) \<Rightarrow> mongo_answers \<Rightarrow> ('x, 'k) manager_env
     \<Rightarrow> ('l, 'k) executor_config \<Rightarrow> (start_fault + 'x executor \<times> exec_app) option" where
  "exec_try_new parse clock calls mongo me c =
     (case client_pool parse clock (se_client (ex_solana c)) of
        Inl f \<Rightarrow> Some (Inl (start_fault_of f))
      | Inr pool \<Rightarrow>
          map_option (\<lambda>balance.
            bindE (map_err StartPanic balance) (\<lambda>_.
            bindE (updater_try_new mongo) (\<lambda>u.
            Inr (operation_manager_new me (ex_extensions c) (ex_solana c), exec_app_new\<lparr>xp_updater := u\<rparr>))))
            (with_read_rpc_loop calls pool))"

definition executor_execute ::
    "('v, 'l, 'k) config_env \<Rightarrow> (string \<Rightarrow> 'u option) \<Rightarrow> (nat \<Rightarrow> u64) \<Rightarrow> (nat \<Rightarrow> ('u, 'n, 'e + u64) rpc_call) \<Rightarrow> mongo_answers
     \<Rightarrow> ('x, 'k) manager_env \<Rightarrow> string \<Rightarrow> (start_fault + 'x executor \<times> exec_app) option" where
  "executor_execute env parse clock calls mongo me path =
     (case executor_try_from_path env path of
        Inl e \<Rightarrow> Some (Inl (StartErr e))
      | Inr c \<Rightarrow> exec_try_new parse clock calls mongo me c)"

datatype module_command = Listener string | Executor string | Watcher string

definition cli_execute :: "(string \<Rightarrow> 'r) \<Rightarrow> (string \<Rightarrow> 'r) \<Rightarrow> (string \<Rightarrow> 'r) \<Rightarrow> module_command \<Rightarrow> 'r" where
  "cli_execute listener executor watcher cmd =
     (case cmd of Listener c \<Rightarrow> listener c | Executor c \<Rightarrow> executor c | Watcher c \<Rightarrow> watcher c)"

subsection \<open>When the executor starts\<close>

definition entry_ok :: "(string \<Rightarrow> 'u option) \<Rightarrow> rpc_entry \<Rightarrow> bool" where
  "entry_ok parse e \<longleftrightarrow> re_ratelimit e \<noteq> 0 \<and> parse (re_url e) \<noteq> None"

lemma mapE_total: "(\<exists>ys. mapE f xs = Inr ys) \<longleftrightarrow> (\<forall>x \<in> set xs. \<exists>y. f x = Inr y)"
proof (induction xs)
  case (Cons x xs)
  then show ?case by (cases "f x"; cases "mapE f xs") auto
qed simp

lemma entries_open:
  "(\<exists>rs. mapE (\<lambda>(i, e). rpc_of_entry parse (clock i) e) (List.enumerate k es) = Inr rs) \<longleftrightarrow> list_all (entry_ok parse) es"
proof -
  have "(\<exists>r. rpc_of_entry parse now e = Inr r) \<longleftrightarrow> entry_ok parse e" for now e
    by (cases "parse (re_url e)") (simp_all add: rpc_of_entry_def entry_ok_def)
  then have "(\<exists>rs. mapE (\<lambda>(i, e). rpc_of_entry parse (clock i) e) (List.enumerate k es) = Inr rs) \<longleftrightarrow>
      (\<forall>(i, e) \<in> set (List.enumerate k es). entry_ok parse e)"
    unfolding mapE_total by fastforce
  also have "\<dots> \<longleftrightarrow> (\<forall>e \<in> snd ` set (List.enumerate k es). entry_ok parse e)" by auto
  also have "snd ` set (List.enumerate k es) = set es" by (metis list.set_map map_snd_enumerate)
  finally show ?thesis by (simp add: list_all_iff)
qed

lemma pool_opens:
  "(\<exists>p. rpc_pool_new parse clock rs ws = Inr p) \<longleftrightarrow>
     rs \<noteq> [] \<and> ws \<noteq> [] \<and> list_all (entry_ok parse) rs \<and> list_all (entry_ok parse) ws"
  using entries_open [of parse clock 0 rs] entries_open [of parse clock "length rs" ws]
  by (auto simp: rpc_pool_new_def result_simps)

text \<open>The executor starts exactly when its nodes are usable, the first balance request returns and the database
  client can be made; then it is in the initial state of \<open>exec_step\<close>, with the payer, the attempts and the
  extensions of its configuration.\<close>

lemma started_updater: "updater_try_new mongo = Inr u \<longleftrightarrow> mg_options mongo \<noteq> None \<and> mg_client mongo \<noteq> None \<and> u = block_updater_new"
  by (auto simp: updater_try_new_def ok_or_def split: option.splits)

theorem executor_starts:
  "exec_try_new parse clock calls mongo me c = Some (Inr (x, s)) \<longleftrightarrow>
     (\<exists>pool y. client_pool parse clock (se_client (ex_solana c)) = Inr pool \<and> with_read_rpc_loop calls pool = Some (Inr y))
     \<and> mg_options mongo \<noteq> None \<and> mg_client mongo \<noteq> None
     \<and> x = operation_manager_new me (ex_extensions c) (ex_solana c) \<and> s = exec_app_new"
proof -
  have "exec_app_new\<lparr>xp_updater := block_updater_new\<rparr> = exec_app_new" by (simp add: exec_app_new_def)
  then show ?thesis
    by (auto simp: exec_try_new_def result_simps started_updater split: sum.splits)
qed

subsection \<open>Reading back a configuration\<close>

text \<open>Configurations as tables, with the readers that accept a value of the right kind. Writing a
  configuration and reading it gives it back, so no name is used twice in the tables that share the fields
  of flattened parts.\<close>

datatype 'l cval = VString string | VUint nat | VSeq "'l cval list" | VTable "(string \<times> 'l cval) list" | VLevel 'l

definition table_env :: "('l cval, 'l, 'k) config_env" where
  "table_env = \<lparr>cf_build = (\<lambda>_. None),
     cf_field = (\<lambda>v name. case v of VTable t \<Rightarrow> map_of t name | _ \<Rightarrow> None),
     cf_string = (\<lambda>v. case v of VString s \<Rightarrow> Some s | _ \<Rightarrow> None),
     cf_uint = (\<lambda>v. case v of VUint n \<Rightarrow> Some n | _ \<Rightarrow> None),
     cf_seq = (\<lambda>v. case v of VSeq vs \<Rightarrow> Some vs | _ \<Rightarrow> None),
     cf_commitment = (\<lambda>v. case v of VLevel l \<Rightarrow> Some l | _ \<Rightarrow> None),
     cf_base58 = (\<lambda>_. None), cf_keypair = (\<lambda>_. None),
     cf_bool = (\<lambda>_. None), cf_hex = (\<lambda>_. None), cf_pubkey = (\<lambda>_. None)\<rparr>"

lemma table_reads [simp]:
  "required table_env rd name (VTable t) = Option.bind (map_of t name) rd"
  "with_default table_env rd d name (VTable t) = (case map_of t name of None \<Rightarrow> Some d | Some x \<Rightarrow> rd x)"
  "cf_field table_env (VTable t) name = map_of t name"
  "cf_string table_env (VString s) = Some s"
  "cf_commitment table_env (VLevel l) = Some l"
  by (simp_all add: table_env_def required_def with_default_def)

lemma table_word [simp]: "read_word table_env (VUint (unat (w :: 'w::len word))) = Some w"
  using unsigned_less [of w, where ?'a = nat] by (simp add: read_word_def table_env_def)

lemma table_list [simp]:
  assumes "\<And>x. rd (wr x) = Some x"
  shows "read_list table_env rd (VSeq (List.map wr xs)) = Some xs"
proof -
  have "those (List.map (\<lambda>x. rd (wr x)) xs) = Some xs" by (induction xs) (simp_all add: assms)
  then show ?thesis by (simp add: read_list_def table_env_def comp_def)
qed

definition write_mongodb :: "mongodb_config \<Rightarrow> (string \<times> 'l cval) list" where
  "write_mongodb c = [(''user'', VString (mc_user c)), (''password'', VString (mc_password c)),
     (''uri'', VString (mc_uri c)), (''db'', VString (mc_db c)), (''key'', VString (mc_key c))]"

definition write_publish :: "publish_config \<Rightarrow> (string \<times> 'l cval) list" where
  "write_publish c =
     [(''host'', VString (cc_host (pc_connect c))), (''port'', VUint (unat (cc_port (pc_connect c)))),
      (''user'', VString (cc_user (pc_connect c))), (''password'', VString (cc_password (pc_connect c))),
      (''exchange'', VString (bc_exchange (pc_binding c))), (''routing_key'', VString (bc_routing_key (pc_binding c))),
      (''reconnect_attempts'', VUint (unat (rc_attempts (pc_reconnect c)))),
      (''reconnect_timeout_ms'', VUint (unat (rc_timeout_ms (pc_reconnect c))))]"

definition write_rpc_entry :: "rpc_entry \<Rightarrow> 'l cval" where
  "write_rpc_entry e = VTable [(''url'', VString (re_url e)), (''ratelimit'', VUint (unat (re_ratelimit e)))]"

definition write_listener_client :: "'l listener_client_config \<Rightarrow> (string \<times> 'l cval) list" where
  "write_listener_client c =
     [(''commitment'', VLevel (sl_commitment (ll_client c))),
      (''read_rpcs'', VSeq (List.map write_rpc_entry (sl_read_rpcs (ll_client c)))),
      (''write_rpcs'', VSeq (List.map write_rpc_entry (sl_write_rpcs (ll_client c))))]
     @ (case ll_tx_read_from c of None \<Rightarrow> [] | Some s \<Rightarrow> [(''txreadfrom'', VString s)])"

definition write_listen :: "'l listen_config \<Rightarrow> 'l cval" where
  "write_listen c = VTable
     [(''rabbitmq'', VTable (write_publish (wc_rabbitmq c))),
      (''solana'', VTable (write_listener_client (wc_solana c))),
      (''mongodb'', VTable (write_mongodb (wc_mongodb c))),
      (''allowed_protocols'', VSeq (List.map VString (lc_allowed_protocols c)))]"

lemma read_write_mongodb [simp]: "read_mongodb table_env (VTable (write_mongodb c)) = Some c"
  by (simp add: read_mongodb_def write_mongodb_def)

lemma read_write_publish [simp]: "read_publish table_env (VTable (write_publish c)) = Some c"
  by (simp add: read_publish_def read_connect_def read_binding_def read_reconnect_def write_publish_def)

lemma read_write_rpc_entry [simp]: "read_rpc_entry table_env (write_rpc_entry e) = Some e"
  by (simp add: read_rpc_entry_def write_rpc_entry_def)

lemma read_write_listener_client [simp]:
  "read_listener_client table_env (VTable (write_listener_client c)) = Some c"
  by (cases "ll_tx_read_from c")
     (simp_all add: read_listener_client_def read_client_def optional_alias_def write_listener_client_def)

interpretation listen_codec: codec write_listen "read_listen table_env" "\<lambda>_. True"
  by unfold_locales (simp add: write_listen_def read_listen_def)

end
