(* ===== verification/Test_Publisher.thy ===== *)
theory Test_Publisher
  imports Onefunc Transmitter_Data
begin

section \<open>The test publisher\<close>

text \<open>
  \<^verbatim>\<open>transmitter-test-publisher/src/main.rs\<close>: the operations the test tool signs with its three keys and puts
  into the executor's queue. Random values, the ABI encoder and the signing library are fields of
  \<open>publish_env\<close>; connecting and publishing are those of the client trait.
\<close>

datatype test_operation =
    OpInitOwnedCounter
  | OpIncrement u64
  | OpToBeFailed
  | OpIncrementOwned u64
  | OpCodeBased bytes
  | OpAddProtocol

record publish_env =
  pv_network :: network
  pv_onefunc_id :: bytes
  pv_photon_id :: bytes
  pv_keccak :: "bytes \<Rightarrow> bytes"
  pv_abi_encode :: "token list \<Rightarrow> bytes"
  pv_sign :: "bytes \<Rightarrow> nat \<Rightarrow> bytes \<times> u8"

text \<open>The random values of one operation.\<close>

record publish_random =
  pr_tx_id :: bytes
  pr_program_id :: bytes
  pr_address :: bytes
  pr_eob_block_number :: u64

definition test_meta :: bytes where
  "test_meta = 1 # replicate 31 0"

definition onefunc_operation :: "publish_env \<Rightarrow> publish_random \<Rightarrow> u64 \<Rightarrow> bytes \<Rightarrow> bytes \<Rightarrow> t_operation_data" where
  "onefunc_operation env r nonce selector params =
     \<lparr>td_protocol_id = PROTOCOL_ID, td_meta = test_meta, td_src_chain_id = SOLANA_CHAIN_ID (pv_network env),
      td_src_block_number = 1, td_src_op_tx_id = pr_tx_id r, td_nonce = nonce,
      td_dest_chain_id = SOLANA_CHAIN_ID (pv_network env), td_protocol_addr = pv_onefunc_id env,
      td_function_selector = selector, td_params = params, td_reserved = []\<rparr>"

fun test_op_data :: "publish_env \<Rightarrow> publish_random \<Rightarrow> u64 \<Rightarrow> test_operation \<Rightarrow> t_operation_data" where
  "test_op_data env r nonce (OpIncrement v) =
     onefunc_operation env r nonce ([1, 9] @ str ''increment'')
       (pv_abi_encode env [T_Tuple [T_Uint (ucast v)]])"
| "test_op_data env r nonce OpToBeFailed = onefunc_operation env r nonce ([1, 12] @ str ''to_be_failed'') []"
| "test_op_data env r nonce OpInitOwnedCounter = onefunc_operation env r nonce ([1, 18] @ str ''init_owned_counter'') []"
| "test_op_data env r nonce (OpIncrementOwned v) =
     onefunc_operation env r nonce ([1, 23] @ str ''increment_owned_counter'')
       (pv_abi_encode env [T_Tuple [T_Uint (ucast v)]])"
| "test_op_data env r nonce (OpCodeBased code) =
     onefunc_operation env r nonce ([0, word_of_nat (length code)] @ code) []"
| "test_op_data env r nonce OpAddProtocol =
     \<lparr>td_protocol_id = GOV_PROTOCOL_ID, td_meta = test_meta, td_src_chain_id = 33133,
      td_src_block_number = 1, td_src_op_tx_id = pr_tx_id r, td_nonce = nonce,
      td_dest_chain_id = SOLANA_CHAIN_ID (pv_network env), td_protocol_addr = pv_photon_id env,
      td_function_selector = [0, 32, 0x45, 0xa0, 0x04, 0xb9] @ replicate 28 0,
      td_params = pv_abi_encode env [T_Tuple [T_FixedBytes (pr_program_id r), T_Uint 6000, T_Array [T_Address (pr_address r)]]],
      td_reserved = []\<rparr>"

text \<open>The signatures of the first three predefined keys over the operation's hash.\<close>

definition sign_with :: "publish_env \<Rightarrow> bytes \<Rightarrow> nat \<Rightarrow> t_signature" where
  "sign_with env h i = (let (sig, v) = pv_sign env h i in \<lparr>ts_v = v, ts_r = take 32 sig, ts_s = drop 32 sig\<rparr>)"

definition signed_test_operation :: "publish_env \<Rightarrow> publish_random \<Rightarrow> u64 \<Rightarrow> test_operation \<Rightarrow> err + signed_operation" where
  "signed_test_operation env r nonce op =
     (let d = test_op_data env r nonce op in
      bindE (t_op_hash_with_message (pv_keccak env) d) (\<lambda>h.
      Inr \<lparr>so_operation_data = d, so_signatures = List.map (sign_with env h) [0, 1, 2],
           so_eob_block_number = pr_eob_block_number r\<rparr>))"

definition publish :: "publish_env \<Rightarrow> (nat \<Rightarrow> publish_random) \<Rightarrow> test_operation \<Rightarrow> nat \<Rightarrow> err + signed_operation list" where
  "publish env rnd op count = mapE (\<lambda>nonce. signed_test_operation env (rnd nonce) (word_of_nat nonce) op) [0 ..< count]"

subsection \<open>Its operations are valid\<close>

text \<open>The code of an operation fits the length byte.\<close>

definition code_ok :: "test_operation \<Rightarrow> bool" where
  "code_ok op = (case op of OpCodeBased code \<Rightarrow> length code < 256 | _ \<Rightarrow> True)"

definition publish_env_ok :: "publish_env \<Rightarrow> bool" where
  "publish_env_ok env \<longleftrightarrow> length (pv_onefunc_id env) = 32 \<and> length (pv_photon_id env) = 32"

lemma utf8_valid_str: "list_all (\<lambda>c. of_char c \<le> (127 :: nat)) s \<Longrightarrow> utf8_valid (str s)"
  by (rule utf8_valid_ascii)
     (auto simp: str_def list_all_iff word_le_nat_alt unat_of_nat)

lemma test_selector:
  assumes "code_ok op"
  shows "\<exists>sel. selector_try_from (td_function_selector (test_op_data env r nonce op)) = Inr sel"
    and "td_function_selector (test_op_data env r nonce op) ! 1 =
           word_of_nat (length (td_function_selector (test_op_data env r nonce op)) - 2)"
  by (cases op; simp add: onefunc_operation_def selector_try_from_def utf8_valid_str)+

text \<open>The executor converts every operation of the tool, and both sides hash the same bytes.\<close>

theorem test_operations_convert:
  assumes "publish_env_ok env" "code_ok op"
  shows "\<exists>d. operation_try_from (test_op_data env r nonce op) = Inr d
    \<and> op_data_evm d = Inr (t_op_data_evm (test_op_data env r nonce op))"
proof -
  have "length (td_protocol_addr (test_op_data env r nonce op)) = 32"
    using assms(1) by (cases op) (simp_all add: onefunc_operation_def publish_env_ok_def)
  moreover obtain sel where "selector_try_from (td_function_selector (test_op_data env r nonce op)) = Inr sel"
    using test_selector(1) [OF assms(2)] by blast
  ultimately obtain d where d: "operation_try_from (test_op_data env r nonce op) = Inr d"
    by (simp add: operation_try_from_def)
  with conversion_preimage [OF d] test_selector(2) [OF assms(2)] show ?thesis by blast
qed

text \<open>The \<open>i\<close>-th published operation carries the nonce \<open>i\<close> and three signatures over its hash.\<close>

lemma publish_nonces:
  assumes "publish env rnd op count = Inr sos" "i < length sos"
  shows "length sos = count \<and> td_nonce (so_operation_data (sos ! i)) = word_of_nat i
    \<and> (\<exists>h. t_op_hash_with_message (pv_keccak env) (so_operation_data (sos ! i)) = Inr h
        \<and> so_signatures (sos ! i) = List.map (sign_with env h) [0, 1, 2])"
proof -
  have all: "list_all2 (\<lambda>nonce o'. signed_test_operation env (rnd nonce) (word_of_nat nonce) op = Inr o') [0 ..< count] sos"
    using assms(1) by (simp add: publish_def mapE_eq_Inr)
  then have "length sos = count" by (auto dest: list_all2_lengthD)
  moreover obtain h where "t_op_hash_with_message (pv_keccak env) (test_op_data env (rnd i) (word_of_nat i) op) = Inr h"
    "sos ! i = \<lparr>so_operation_data = test_op_data env (rnd i) (word_of_nat i) op,
       so_signatures = List.map (sign_with env h) [0, 1, 2], so_eob_block_number = pr_eob_block_number (rnd i)\<rparr>"
    using list_all2_nthD2 [OF all assms(2)] calculation assms(2)
    by (auto simp: signed_test_operation_def Let_def result_simps)
  moreover have "td_nonce (test_op_data env r n op) = n" for r n
    by (cases op) (simp_all add: onefunc_operation_def)
  ultimately show ?thesis by simp
qed

end
