(* ===== verification/Publisher_Cli.thy ===== *)
theory Publisher_Cli
  imports Test_Publisher Consumer
begin

section \<open>The test publisher's commands\<close>

text \<open>
  \<^verbatim>\<open>transmitter-test-publisher/src/cli.rs\<close>, \<^verbatim>\<open>rabbitmq_publisher.rs\<close>, \<^verbatim>\<open>util.rs\<close> and the loop of \<^verbatim>\<open>publish\<close>: each
  operation is signed, then published over a connection of its own; the first failure is a panic, with
  the operations before it already in the queue. Hexadecimal, key parsing, JSON and the broker's answers
  are parameters.
\<close>

subsection \<open>Commands\<close>

datatype publish_command =
    CmdIncrement string u64
  | CmdToBeFailed string
  | CmdIncrementOwnedCounter string u64 u64
  | CmdInitOwnedCounter string
  | CmdCodeBased bytes string
  | CmdAddProtocol string

definition parse_hex :: "(string \<Rightarrow> string + bytes) \<Rightarrow> string \<Rightarrow> string + bytes" where
  "parse_hex hex value = bindE (hex value) Inr"

text \<open>The configuration file, the operation and how often it is published.\<close>

fun cli_publish :: "publish_command \<Rightarrow> string \<times> test_operation \<times> u64" where
  "cli_publish (CmdIncrement config value) = (config, OpIncrement value, 1)"
| "cli_publish (CmdToBeFailed config) = (config, OpToBeFailed, 1)"
| "cli_publish (CmdIncrementOwnedCounter config value count) = (config, OpIncrementOwned value, count)"
| "cli_publish (CmdInitOwnedCounter config) = (config, OpInitOwnedCounter, 1)"
| "cli_publish (CmdCodeBased code config) = (config, OpCodeBased code, 1)"
| "cli_publish (CmdAddProtocol config) = (config, OpAddProtocol, 1)"

subsection \<open>Keys\<close>

definition TRANSMITTER_DATA :: "string list" where
  "TRANSMITTER_DATA =
     [''74e3ffad2b87174dc1d806edf1a01e3b017cf1be05d1894d329826f10fa1d72f'',
      ''66a222403ce2448cdf98d7194d9d0e4533c354f8f472d594ba5b50d2568d2c08'',
      ''b948355471a4013b8166fa7cfee601c6aeae38ee38066a5ddf821a9b0db9dd10'']"

definition predefined_signers ::
    "(string \<Rightarrow> bytes option) \<Rightarrow> (bytes \<Rightarrow> 'k option) \<Rightarrow> ('k \<Rightarrow> 'p) \<Rightarrow> nat \<Rightarrow> panic + ('k \<times> 'p) list" where
  "predefined_signers hex parse_slice public_key amount =
     mapE (\<lambda>data.
       bindE (ok_or (hex data) ExpectFailed) (\<lambda>bs.
       bindE (ok_or (parse_slice bs) ExpectFailed) (\<lambda>sk.
       Inr (sk, public_key sk)))) (take amount TRANSMITTER_DATA)"

subsection \<open>Publishing\<close>

record ('e, 'c, 'h) publish_answers =
  pa_attempt :: "('e, 'c, 'h) attempt"
  pa_basic_publish :: "'e + unit"

definition publish_operation_data ::
    "('e, 'c, 'h) publish_answers \<Rightarrow> (transmitter_msg_versioned \<Rightarrow> bytes option) \<Rightarrow> signed_operation
     \<Rightarrow> 'e connect_fault + bytes" where
  "publish_operation_data a json so =
     bindE (map_err ConnectErr (connect (pa_attempt a))) (\<lambda>connection.
     bindE (map_err ConnectErr (open_channel (pa_attempt a))) (\<lambda>channel.
     bindE (ok_or (json (V1 (MsgSignedOperation so))) (ConnectPanic ExpectFailed)) (\<lambda>json_data.
     bindE (map_err ConnectErr (pa_basic_publish a)) (\<lambda>_.
     Inr json_data))))"

fun publish_loop ::
    "publish_env \<Rightarrow> (nat \<Rightarrow> publish_random) \<Rightarrow> (nat \<Rightarrow> ('e, 'c, 'h) publish_answers)
     \<Rightarrow> (transmitter_msg_versioned \<Rightarrow> bytes option) \<Rightarrow> test_operation \<Rightarrow> nat list \<Rightarrow> bytes list \<times> panic option" where
  "publish_loop env rnd answers json op [] = ([], None)"
| "publish_loop env rnd answers json op (n # ns) =
     (case signed_test_operation env (rnd n) (word_of_nat n) op of
        Inl e \<Rightarrow> ([], Some ExpectFailed)
      | Inr so \<Rightarrow>
          (case publish_operation_data (answers n) json so of
             Inl e \<Rightarrow> ([], Some ExpectFailed)
           | Inr j \<Rightarrow> (case publish_loop env rnd answers json op ns of (js, r) \<Rightarrow> (j # js, r))))"

definition run_publish ::
    "publish_env \<Rightarrow> (nat \<Rightarrow> publish_random) \<Rightarrow> (nat \<Rightarrow> ('e, 'c, 'h) publish_answers)
     \<Rightarrow> (transmitter_msg_versioned \<Rightarrow> bytes option) \<Rightarrow> publish_command \<Rightarrow> bytes list \<times> panic option" where
  "run_publish env rnd answers json cmd =
     (case cli_publish cmd of (config, op, count) \<Rightarrow>
        publish_loop env rnd answers json op [0 ..< unat count])"

subsection \<open>What the executor gets\<close>

text \<open>JSON text is UTF-8 and reading back what was written gives the message.\<close>

definition json_ok ::
    "(transmitter_msg_versioned \<Rightarrow> bytes option) \<Rightarrow> (bytes \<Rightarrow> transmitter_msg_versioned option) \<Rightarrow> bool" where
  "json_ok json from_str \<longleftrightarrow> (\<forall>m j. json m = Some j \<longrightarrow> utf8_valid j \<and> from_str j = Some m)"

definition delivered :: "bytes list \<Rightarrow> delivery list" where
  "delivered js = List.map (\<lambda>(i, j). \<lparr>dl_tag = word_of_nat i, dl_data = j, dl_ack_ok = True\<rparr>) (List.enumerate 0 js)"

lemma decoded_delivered:
  assumes "list_all2 (\<lambda>so j. json (V1 (MsgSignedOperation so)) = Some j) sos js" "json_ok json from_str"
  shows "concat (List.map (decoded from_str) (filter dl_ack_ok (delivered js))) = sos"
proof -
  have "concat (List.map (decoded from_str) (filter dl_ack_ok
      (List.map (\<lambda>(i, j). \<lparr>dl_tag = word_of_nat i, dl_data = j, dl_ack_ok = True\<rparr>) (List.enumerate n js)))) = sos" for n
    using assms
    by (induction arbitrary: n rule: list_all2_induct) (auto simp: decoded_def json_ok_def)
  then show ?thesis by (simp add: delivered_def)
qed

lemma publish_loop_json:
  assumes "publish_loop env rnd answers json op ns = (js, r)"
  shows "\<exists>sos. list_all2 (\<lambda>so j. json (V1 (MsgSignedOperation so)) = Some j) sos js
    \<and> list_all2 (\<lambda>so n. signed_test_operation env (rnd n) (word_of_nat n) op = Inr so) sos (take (length js) ns)
    \<and> (r = None \<longrightarrow> length js = length ns)"
  using assms
proof (induction ns arbitrary: js r)
  case (Cons n ns)
  show ?case
  proof (cases "js = []")
    case True
    with Cons.prems show ?thesis by (auto split: sum.splits prod.splits)
  next
    case False
    with Cons.prems obtain so j js' where so: "signed_test_operation env (rnd n) (word_of_nat n) op = Inr so"
        "publish_operation_data (answers n) json so = Inr j" "js = j # js'"
        "publish_loop env rnd answers json op ns = (js', r)"
      by (auto split: sum.splits prod.splits)
    from so(2) have "json (V1 (MsgSignedOperation so)) = Some j"
      by (auto simp: publish_operation_data_def result_simps)
    moreover obtain sos where "list_all2 (\<lambda>so j. json (V1 (MsgSignedOperation so)) = Some j) sos js'"
        "list_all2 (\<lambda>so n. signed_test_operation env (rnd n) (word_of_nat n) op = Inr so) sos (take (length js') ns)"
        "r = None \<longrightarrow> length js' = length ns" using Cons.IH [OF so(4)] by blast
    ultimately show ?thesis using so(1,3) by (intro exI [of _ "so # sos"]) simp
  qed
qed simp

text \<open>What the test tool publishes reaches the executor. Whatever the broker answers, the messages that it
  put into the queue, polled by the executor, are handed over as the signed operations of the command:
  the first so many of them, in order, and all of them when the tool did not panic. The executor converts
  each, and both sides hash the same bytes.\<close>

theorem published_operations_arrive:
  assumes "run_publish env rnd answers json cmd = (js, r)" "cli_publish cmd = (config, op, count)"
    and "json_ok json from_str" "publish_env_ok env" "code_ok op"
    and "cs_receiver c" "\<And>i. i < length js \<Longrightarrow> gets (k + i) = Inr (Some (delivered js ! i))"
    and "\<And>d. gets (k + length js) \<noteq> Inr (Some d)"
  shows "\<exists>sos c'. poll from_str (Some True) gets k c = Some (c', Suc (k + length js))
    \<and> cs_sent c' = cs_sent c @ sos
    \<and> list_all2 (\<lambda>so n. signed_test_operation env (rnd n) (word_of_nat n) op = Inr so) sos [0 ..< length js]
    \<and> length js \<le> unat count \<and> (r = None \<longrightarrow> length js = unat count)
    \<and> (\<forall>so \<in> set sos. \<exists>d. operation_try_from (so_operation_data so) = Inr d
         \<and> op_data_evm d = Inr (t_op_data_evm (so_operation_data so)))"
proof -
  have loop: "publish_loop env rnd answers json op [0 ..< unat count] = (js, r)"
    using assms(1,2) by (simp add: run_publish_def)
  obtain sos where sos: "list_all2 (\<lambda>so j. json (V1 (MsgSignedOperation so)) = Some j) sos js"
      "list_all2 (\<lambda>so n. signed_test_operation env (rnd n) (word_of_nat n) op = Inr so) sos
         (take (length js) [0 ..< unat count])" "r = None \<longrightarrow> length js = unat count"
    using publish_loop_json [OF loop] by auto
  have le: "length js \<le> unat count"
    using list_all2_lengthD [OF sos(1)] list_all2_lengthD [OF sos(2)] by simp
  have "poll from_str (Some True) gets k c = Some (take_in from_str (delivered js) c, Suc (k + length js))"
    using drain_all [of "delivered js" gets k from_str c] assms(7,8) by (simp add: poll_def delivered_def)
  moreover have "concat (List.map (decoded from_str) (filter dl_ack_ok (delivered js))) = sos"
    by (rule decoded_delivered [OF sos(1) assms(3)])
  moreover have "\<exists>d. operation_try_from (so_operation_data so) = Inr d
      \<and> op_data_evm d = Inr (t_op_data_evm (so_operation_data so))" if so: "so \<in> set sos" for so
  proof -
    obtain i where i: "i < length sos" "sos ! i = so" using so by (auto simp: in_set_conv_nth)
    then obtain n where "signed_test_operation env (rnd n) (word_of_nat n) op = Inr so"
      using list_all2_nthD [OF sos(2) i(1)] by auto
    then have "so_operation_data so = test_op_data env (rnd n) (word_of_nat n) op"
      by (auto simp: signed_test_operation_def Let_def result_simps)
    then show ?thesis using test_operations_convert [OF assms(4,5)] by simp
  qed
  ultimately show ?thesis
    using sos(2,3) le assms(6)
    by (intro exI [of _ sos] exI [of _ "take_in from_str (delivered js) c"] conjI) (simp_all add: take_in_def take_upt)
qed

subsection \<open>A sample\<close>

definition sample_publish_env :: publish_env where
  "sample_publish_env = \<lparr>pv_network = Devnet, pv_onefunc_id = replicate 32 1, pv_photon_id = replicate 32 2,
     pv_keccak = (\<lambda>_. replicate 32 3), pv_abi_encode = (\<lambda>_. []), pv_sign = (\<lambda>_ _. (replicate 64 4, 0))\<rparr>"

definition sample_publish_random :: publish_random where
  "sample_publish_random = \<lparr>pr_tx_id = replicate 64 5, pr_program_id = [], pr_address = [], pr_eob_block_number = 6\<rparr>"

definition sample_publish_answers :: "(nat, nat, nat) publish_answers" where
  "sample_publish_answers =
     \<lparr>pa_attempt = \<lparr>at_open = Inr 0, at_register_connection = Inr (), at_open_channel = Inr 0,
        at_confirm_select = Inr (), at_register_channel = Inr ()\<rparr>, pa_basic_publish = Inr ()\<rparr>"

definition sample_published :: signed_operation where
  "sample_published =
     (case signed_test_operation sample_publish_env sample_publish_random 0 OpToBeFailed of Inr so \<Rightarrow> so)"

definition sample_published_json :: "transmitter_msg_versioned \<Rightarrow> bytes option" where
  "sample_published_json m = (if m = V1 (MsgSignedOperation sample_published) then Some [123] else None)"

lemma sample_published_ok:
  "signed_test_operation sample_publish_env sample_publish_random 0 OpToBeFailed = Inr sample_published"
  by (simp add: sample_published_def signed_test_operation_def t_op_hash_with_message_def t_op_hash_def hash_with_message_def
      sample_publish_env_def Let_def)

lemma published_operations_arrive_witness:
  "\<exists>c'. poll (\<lambda>_. Some (V1 (MsgSignedOperation sample_published))) (Some True)
      (\<lambda>k. if k = 0 then Inr (Some (delivered [[123]] ! 0)) else (Inl 0 :: nat + delivery option)) 0
      \<lparr>cs_acked = [], cs_receiver = True, cs_sent = []\<rparr> = Some (c', 2)
    \<and> cs_sent c' = [sample_published]"
proof -
  have run: "run_publish sample_publish_env (\<lambda>_. sample_publish_random) (\<lambda>_. sample_publish_answers) sample_published_json
      (CmdToBeFailed ''c'') = ([[123]], None)"
    by (simp add: run_publish_def publish_operation_data_def sample_published_ok sample_publish_answers_def connect_def
        open_channel_def sample_published_json_def)
  have json: "json_ok sample_published_json (\<lambda>_. Some (V1 (MsgSignedOperation sample_published)))"
    using utf8_valid_ascii [of "[123]"] by (simp add: json_ok_def sample_published_json_def)
  have env: "publish_env_ok sample_publish_env" by (simp add: publish_env_ok_def sample_publish_env_def)
  show ?thesis
    using published_operations_arrive [OF run _ json env, where k = 0 and op = OpToBeFailed and config = "''c''" and
        gets = "\<lambda>k. if k = 0 then Inr (Some (delivered [[123]] ! 0)) else (Inl 0 :: nat + delivery option)"
        and c = "\<lparr>cs_acked = [], cs_receiver = True, cs_sent = []\<rparr>" and count = 1]
    by (auto simp: code_ok_def sample_published_ok list_all2_Cons2)
qed

end
