(* ===== verification/Event_Wire.thy ===== *)
theory Event_Wire
  imports Log_Processors
begin

section \<open>Events on the wire\<close>

text \<open>
  How \<^verbatim>\<open>emit!\<close> of the endpoint writes an event and how the transmitter reads it: eight bytes of discriminator,
  the fields in Borsh, all in base64. The formats of the libraries are written out here as documented (RFC
  4648 with padding; Borsh: little-endian integers, sequences with a 32-bit length), so that the
  hypothesis \<open>codec_ok\<close> of the log parser becomes a theorem for the two events that are read. \<open>borsh_field\<close>
  is the interface of a field: its reader consumes what its writer wrote and leaves the rest.
\<close>

subsection \<open>Base64\<close>

definition alphabet :: string where
  "alphabet = ''ABCDEFGHIJKLMNOPQRSTUVWXYZabcdefghijklmnopqrstuvwxyz0123456789+/''"

definition sextet :: "nat \<Rightarrow> char" where
  "sextet n = alphabet ! (n mod 64)"

definition of_sextet :: "char \<Rightarrow> nat option" where
  "of_sextet c =
     (let k = of_char c :: nat in
      if 65 \<le> k \<and> k \<le> 90 then Some (k - 65)
      else if 97 \<le> k \<and> k \<le> 122 then Some (k - 71)
      else if 48 \<le> k \<and> k \<le> 57 then Some (k + 4)
      else if c = CHR ''+'' then Some 62
      else if c = CHR ''/'' then Some 63
      else None)"

fun sextets :: "nat \<Rightarrow> nat \<Rightarrow> string" where
  "sextets 0 n = []"
| "sextets (Suc k) n = sextets k (n div 64) @ [sextet n]"

fun of_sextets :: "nat \<Rightarrow> string \<Rightarrow> nat option" where
  "of_sextets acc [] = Some acc"
| "of_sextets acc (c # cs) =
     (case of_sextet c of None \<Rightarrow> None | Some d \<Rightarrow> of_sextets (acc * 64 + d) cs)"

fun base64_encode :: "bytes \<Rightarrow> string" where
  "base64_encode [] = []"
| "base64_encode [a] = sextets 2 (of_be_bytes [a] * 16) @ ''==''"
| "base64_encode [a, b] = sextets 3 (of_be_bytes [a, b] * 4) @ ''=''"
| "base64_encode (a # b # c # r) = sextets 4 (of_be_bytes [a, b, c]) @ base64_encode r"

text \<open>The last group: one or two bytes, the unused bits zero.\<close>

definition base64_last :: "string \<Rightarrow> nat \<Rightarrow> nat \<Rightarrow> string \<Rightarrow> bytes option" where
  "base64_last cs k unused r =
     (case of_sextets 0 cs of
        None \<Rightarrow> None
      | Some n \<Rightarrow> if r = [] \<and> n mod unused = 0 then Some (be_bytes k (n div unused)) else None)"

fun base64_decode :: "string \<Rightarrow> bytes option" where
  "base64_decode [] = Some []"
| "base64_decode (w # x # y # z # r) =
     (if z = CHR ''='' then
        (if y = CHR ''='' then base64_last [w, x] 1 16 r else base64_last [w, x, y] 2 4 r)
      else
        (case of_sextets 0 [w, x, y, z] of
           None \<Rightarrow> None
         | Some n \<Rightarrow> map_option (append (be_bytes 3 n)) (base64_decode r)))"
| "base64_decode [w] = None"
| "base64_decode [w, x] = None"
| "base64_decode [w, x, y] = None"

lemma of_sextet_alphabet: "list_all (\<lambda>n. of_sextet (alphabet ! n) = Some n) [0 ..< 64]"
  by (simp add: upt_rec alphabet_def of_sextet_def Let_def)

lemma of_sextet_sextet [simp]: "of_sextet (sextet n) = Some (n mod 64)"
  using of_sextet_alphabet by (simp add: sextet_def list_all_iff)

lemma sextet_not: "of_sextet c = None \<Longrightarrow> sextet n \<noteq> c"
  using of_sextet_sextet [of n] by auto

lemma sextet_neq [simp]: "sextet n \<noteq> CHR ''=''" "sextet n \<noteq> CHR '' ''"
  by (rule sextet_not, simp add: of_sextet_def)+

lemma of_sextets_append: "of_sextets acc (cs @ [sextet n]) = map_option (\<lambda>m. m * 64 + n mod 64) (of_sextets acc cs)"
  by (induction acc cs rule: of_sextets.induct) (simp_all split: option.splits)

lemma of_sextets_sextets: "of_sextets 0 (sextets k n) = Some (n mod 64 ^ k)"
proof (induction k n rule: sextets.induct)
  case (2 k n)
  have "(n div 64 mod 64 ^ k) * 64 + n mod 64 = n mod 64 ^ Suc k"
    using mod_mult2_eq [of n 64 "64 ^ k"] by (simp add: mult.commute)
  with 2 show ?case by (simp add: of_sextets_append)
qed simp

lemma of_sextets_bytes:
  assumes "length bs * 8 + s = k * 6"
  shows "of_sextets 0 (sextets k (of_be_bytes bs * 2 ^ s)) = Some (of_be_bytes bs * 2 ^ s)"
proof -
  have "of_be_bytes bs * 2 ^ s < 256 ^ length bs * 2 ^ s" using of_be_bytes_bound by simp
  also have "(256 :: nat) ^ length bs * 2 ^ s = 2 ^ (length bs * 8 + s)"
    by (simp add: power_add power_mult [symmetric] mult.commute [of _ 8]) (simp add: power_mult)
  also have "\<dots> = 64 ^ k" unfolding assms by (simp add: mult.commute [of k] power_mult)
  finally show ?thesis by (simp add: of_sextets_sextets)
qed

lemma sextets_digits:
  "sextets 2 n = [sextet (n div 64), sextet n]"
  "sextets 3 n = [sextet (n div 64 div 64), sextet (n div 64), sextet n]"
  "sextets 4 n = [sextet (n div 64 div 64 div 64), sextet (n div 64 div 64), sextet (n div 64), sextet n]"
  by (simp_all only: eval_nat_numeral BitM.simps One_nat_def sextets.simps append.simps)

lemma base64_last_sextets:
  assumes "length bs * 8 + s = k * 6" "m = length bs" "q = 2 ^ s"
  shows "base64_last (sextets k (of_be_bytes bs * q)) m q [] = Some bs"
  by (simp add: base64_last_def assms(2,3) of_sextets_bytes [OF assms(1)] be_of_be_bytes)

lemma base64_decode_last:
  "base64_decode (sextets 2 (of_be_bytes [a] * 16) @ ''=='') = Some [a]"
  "base64_decode (sextets 3 (of_be_bytes [a, b] * 4) @ ''='') = Some [a, b]"
proof -
  have "base64_last (sextets 2 (of_be_bytes [a] * 16)) 1 16 [] = Some [a]"
    by (rule base64_last_sextets [of _ 4]) simp_all
  then show "base64_decode (sextets 2 (of_be_bytes [a] * 16) @ ''=='') = Some [a]"
    unfolding sextets_digits append.simps base64_decode.simps by simp
  have "base64_last (sextets 3 (of_be_bytes [a, b] * 4)) 2 4 [] = Some [a, b]"
    by (rule base64_last_sextets [of _ 2]) simp_all
  then show "base64_decode (sextets 3 (of_be_bytes [a, b] * 4) @ ''='') = Some [a, b]"
    unfolding sextets_digits append.simps base64_decode.simps by simp
qed

lemma base64_decode_group:
  "base64_decode (sextets 4 (of_be_bytes [a, b, c]) @ s) = map_option (append [a, b, c]) (base64_decode s)"
proof -
  have "base64_decode (sextets 4 n @ s) = map_option (append (be_bytes 3 n)) (base64_decode s)"
    if "of_sextets 0 (sextets 4 n) = Some n" for n
    using that unfolding sextets_digits append.simps base64_decode.simps
    by (simp only: sextet_neq if_False option.case)
  moreover have "of_sextets 0 (sextets 4 (of_be_bytes [a, b, c])) = Some (of_be_bytes [a, b, c])"
    using of_sextets_bytes [of "[a, b, c]" 0 4] by simp
  moreover have "be_bytes 3 (of_be_bytes [a, b, c]) = [a, b, c]"
    using be_of_be_bytes [of "[a, b, c]"] by (simp only: list.size add_Suc_right Nat.add_0_right numeral_3_eq_3)
  ultimately show ?thesis by simp
qed

lemma base64_decode_encode [simp]: "base64_decode (base64_encode bs) = Some bs"
  by (induction bs rule: base64_encode.induct)
     (simp_all only: base64_encode.simps base64_decode_last base64_decode_group, simp_all)

lemma sextets_set: "c \<in> set (sextets k n) \<Longrightarrow> \<exists>m. c = sextet m"
  by (induction k n rule: sextets.induct) auto

lemma base64_no_blank: "CHR '' '' \<notin> set (base64_encode bs)"
  by (induction bs rule: base64_encode.induct) (auto dest!: sextets_set simp: eq_commute)

interpretation base64: codec base64_encode base64_decode "\<lambda>_. True"
  by unfold_locales simp

subsection \<open>Borsh\<close>

type_synonym 'a reader_fn = "bytes \<Rightarrow> ('a \<times> bytes) option"

definition borsh_uint :: "nat \<Rightarrow> nat \<Rightarrow> bytes" where
  "borsh_uint k n = rev (be_bytes k n)"

definition read_uint :: "nat \<Rightarrow> nat reader_fn" where
  "read_uint k bs = (if length bs < k then None else Some (of_be_bytes (rev (take k bs)), drop k bs))"

definition borsh_u64 :: "u64 \<Rightarrow> bytes" where "borsh_u64 x = borsh_uint 8 (unat x)"
definition read_u64 :: "u64 reader_fn" where
  "read_u64 bs = map_option (map_prod word_of_nat id) (read_uint 8 bs)"

definition borsh_u128 :: "u128 \<Rightarrow> bytes" where "borsh_u128 x = borsh_uint 16 (unat x)"
definition read_u128 :: "u128 reader_fn" where
  "read_u128 bs = map_option (map_prod word_of_nat id) (read_uint 16 bs)"

definition borsh_vec :: "bytes \<Rightarrow> bytes" where "borsh_vec xs = borsh_uint 4 (length xs) @ xs"
definition read_vec :: "bytes reader_fn" where
  "read_vec bs =
     (case read_uint 4 bs of
        None \<Rightarrow> None
      | Some (n, r) \<Rightarrow> if length r < n then None else Some (take n r, drop n r))"

definition read_array :: "nat \<Rightarrow> bytes reader_fn" where
  "read_array n bs = (if length bs < n then None else Some (take n bs, drop n bs))"

locale borsh_field =
  fixes enc :: "'a \<Rightarrow> bytes" and rd :: "'a reader_fn" and ok :: "'a \<Rightarrow> bool"
  assumes rd_enc: "ok x \<Longrightarrow> rd (enc x @ r) = Some (x, r)"
begin

lemma then_rd: "ok x \<Longrightarrow> Option.bind (rd (enc x @ r)) (\<lambda>(y, s). f y s) = f x r"
  by (simp add: rd_enc)

end

lemma read_borsh_uint: "n < 256 ^ k \<Longrightarrow> read_uint k (borsh_uint k n @ r) = Some (n, r)"
  by (simp add: read_uint_def borsh_uint_def of_be_be_bytes)

interpretation u64_field: borsh_field borsh_u64 read_u64 "\<lambda>_. True"
proof
  fix x :: u64 and r
  have "unat x < 256 ^ 8" using unsigned_less [of x, where ?'a = nat] by simp
  then show "read_u64 (borsh_u64 x @ r) = Some (x, r)"
    by (simp add: read_u64_def borsh_u64_def read_borsh_uint)
qed

interpretation u128_field: borsh_field borsh_u128 read_u128 "\<lambda>_. True"
proof
  fix x :: u128 and r
  have "unat x < 256 ^ 16" using unsigned_less [of x, where ?'a = nat] by simp
  then show "read_u128 (borsh_u128 x @ r) = Some (x, r)"
    by (simp add: read_u128_def borsh_u128_def read_borsh_uint)
qed

interpretation vec_field: borsh_field borsh_vec read_vec "\<lambda>xs. length xs < 2 ^ 32"
proof
  fix xs r :: bytes assume "length xs < 2 ^ 32"
  then have "read_uint 4 (borsh_uint 4 (length xs) @ xs @ r) = Some (length xs, xs @ r)"
    by (intro read_borsh_uint) simp
  then show "read_vec (borsh_vec xs @ r) = Some (xs, r)" by (simp add: read_vec_def borsh_vec_def)
qed

interpretation key_field: borsh_field "\<lambda>k. k" "read_array 32" "\<lambda>k. length k = 32"
  by unfold_locales (simp add: read_array_def)

lemmas fields = u64_field.then_rd u128_field.then_rd vec_field.then_rd key_field.then_rd

subsection \<open>The two events\<close>

text \<open>\<^verbatim>\<open>#[event]\<close> derives the serialization from the fields in their order; the discriminator is the beginning
  of the SHA-256 hash of \<open>event:\<close> and the name.\<close>

definition propose_discriminator :: bytes where
  "propose_discriminator = [242, 246, 253, 46, 117, 181, 146, 165]"

definition propose_serialize :: "propose_event \<Rightarrow> bytes" where
  "propose_serialize e =
     borsh_vec (pe_protocol_id e) @ borsh_u64 (pe_nonce e) @ borsh_u128 (pe_dst_chain_id e)
     @ borsh_vec (pe_protocol_address e) @ borsh_vec (pe_function_selector e) @ borsh_vec (pe_params e)"

definition propose_deserialize :: "bytes \<Rightarrow> propose_event option" where
  "propose_deserialize bs =
     Option.bind (read_vec bs) (\<lambda>(protocol_id, r1).
     Option.bind (read_u64 r1) (\<lambda>(nonce, r2).
     Option.bind (read_u128 r2) (\<lambda>(dst_chain_id, r3).
     Option.bind (read_vec r3) (\<lambda>(protocol_address, r4).
     Option.bind (read_vec r4) (\<lambda>(function_selector, r5).
     Option.bind (read_vec r5) (\<lambda>(params, r6).
     Some \<lparr>pe_protocol_id = protocol_id, pe_nonce = nonce, pe_dst_chain_id = dst_chain_id,
           pe_protocol_address = protocol_address, pe_function_selector = function_selector,
           pe_params = params\<rparr>))))))"

definition executed_discriminator :: bytes where
  "executed_discriminator = [92, 213, 189, 201, 101, 83, 111, 83]"

definition executed_serialize :: "executed_event \<Rightarrow> bytes" where
  "executed_serialize e = borsh_vec (xv_op_hash e) @ xv_executor e"

definition executed_deserialize :: "bytes \<Rightarrow> executed_event option" where
  "executed_deserialize bs =
     Option.bind (read_vec bs) (\<lambda>(op_hash, r1).
     Option.bind (read_array 32 r1) (\<lambda>(executor, r2).
     Some \<lparr>xv_op_hash = op_hash, xv_executor = executor\<rparr>))"

definition propose_fits :: "propose_event \<Rightarrow> bool" where
  "propose_fits e \<longleftrightarrow> length (pe_protocol_id e) < 2 ^ 32 \<and> length (pe_protocol_address e) < 2 ^ 32
     \<and> length (pe_function_selector e) < 2 ^ 32 \<and> length (pe_params e) < 2 ^ 32"

interpretation propose_codec: codec propose_serialize propose_deserialize propose_fits
proof
  fix e assume "propose_fits e"
  then have "propose_deserialize (propose_serialize e @ []) = Some e"
    unfolding propose_deserialize_def propose_serialize_def append_assoc propose_fits_def
    by (simp only: fields) simp
  then show "propose_deserialize (propose_serialize e) = Some e" by simp
qed

definition executed_fits :: "executed_event \<Rightarrow> bool" where
  "executed_fits e \<longleftrightarrow> length (xv_op_hash e) < 2 ^ 32 \<and> length (xv_executor e) = 32"

interpretation executed_codec: codec executed_serialize executed_deserialize executed_fits
proof
  fix e assume "executed_fits e"
  then have "executed_deserialize (executed_serialize e @ []) = Some e"
    unfolding executed_deserialize_def executed_serialize_def append_assoc executed_fits_def
    by (simp only: fields) simp
  then show "executed_deserialize (executed_serialize e) = Some e" by simp
qed

subsection \<open>The parser's environment\<close>

definition propose_log_env :: "propose_event log_env" where
  "propose_log_env =
     \<lparr>le_base64 = base64_decode, le_discriminator = propose_discriminator, le_deserialize = propose_deserialize\<rparr>"

definition propose_emit :: "propose_event emit_env" where
  "propose_emit = \<lparr>em_base64 = base64_encode, em_serialize = propose_serialize\<rparr>"

definition executed_log_env :: "executed_event log_env" where
  "executed_log_env =
     \<lparr>le_base64 = base64_decode, le_discriminator = executed_discriminator, le_deserialize = executed_deserialize\<rparr>"

definition executed_emit :: "executed_event emit_env" where
  "executed_emit = \<lparr>em_base64 = base64_encode, em_serialize = executed_serialize\<rparr>"

lemma propose_text: "take 6 (base64_encode (propose_discriminator @ bs)) = ''8vb9Ln''"
  and executed_text: "take 6 (base64_encode (executed_discriminator @ bs)) = ''XNW9yW''"
  by (simp_all add: propose_discriminator_def executed_discriminator_def sextets_digits of_be_bytes_def
      sextet_def alphabet_def)

lemma propose_codec_ok: "propose_fits e \<Longrightarrow> codec_ok propose_log_env propose_emit e"
  using propose_codec.dec_enc base64_no_blank
  by (simp add: codec_ok_def propose_log_env_def propose_emit_def Let_def propose_text)
     (simp add: propose_discriminator_def)

lemma executed_codec_ok: "executed_fits e \<Longrightarrow> codec_ok executed_log_env executed_emit e"
  using executed_codec.dec_enc base64_no_blank
  by (simp add: codec_ok_def executed_log_env_def executed_emit_def Let_def executed_text)
     (simp add: executed_discriminator_def)

end
