(* ===== verification/Cross_Chain.thy ===== *)
theory Cross_Chain
  imports Event_Wire Executor_Pipeline
begin

section \<open>A proposal from chain to chain\<close>

text \<open>
  What becomes of a proposal between the endpoint where it is made and the endpoint where it is executed:
  the event on the wire (\<open>Event_Wire\<close>), the message of the listener (\<open>Log_Processors\<close>), its fields in the queue
  and the conversion of the executor (\<open>Transmitter_Data\<close>), composed; and how its execution there is reported by
  the watcher.
\<close>

lemma selector_arrives:
  assumes "to_bytes sel = Inr bs" "selector_ok sel"
  shows "selector_try_from bs = Inr sel" and "bs ! 1 = word_of_nat (length bs - 2)"
  using assms sel_codec.dec_enc [OF assms(2)]
  by (auto simp: selector_bytes_def selector_parse_def selector_ok_def split: sum.splits function_selector.splits if_splits)

text \<open>The lengths that a proposal must have to be executed on a Solana endpoint.\<close>

definition deliverable :: "bytes \<Rightarrow> function_selector \<Rightarrow> bytes \<Rightarrow> bool" where
  "deliverable addr sel prms \<longleftrightarrow> length addr = 32 \<and> selector_ok sel \<and> length prms < 2 ^ 32"

lemma proposed_event_fits:
  assumes "propose env a pid dst addr sel prms w = Inr w'" "events w' = events w @ [ProposeEvent e]"
    and "deliverable addr sel prms" "length pid = 32"
  shows "propose_fits e"
proof -
  obtain bs where "to_bytes sel = Inr bs" and e: "pe_protocol_id e = pid" "pe_protocol_address e = addr"
      "pe_function_selector e = bs" "pe_params e = prms"
    using propose_effect [OF assms(1)] assms(2) by auto
  moreover from this(1) have "length bs \<le> 34" by (cases sel) (auto split: if_splits)
  ultimately show ?thesis using assms(3,4) by (simp add: propose_fits_def deliverable_def)
qed

lemma proposal_arrives:
  assumes "propose env a pid dst addr sel prms w = Inr w'"
    and "events w' = events w @ [ProposeEvent e]" "pid \<in> allowed_protocol ` set ps"
    and "deliverable addr sel prms" "name_ok photon" "name_ok caller"
    and "surroundings_ok propose_log_env photon caller sr"
    and "lb_logs b = call_log propose_log_env propose_emit photon caller sr e"
    and "sg_from_str sg (lb_tx_signature b) = Some s" "length s = 64"
  shows "\<exists>conf m d wire. accounts w (ai_key (pp_config a)) = Some (AConfig conf)
    \<and> on_logs propose_log_env photon (on_propose_event (env_network env) sg (proposal_event_processor_new ps)) b c =
        Inr (appended [m] c)
    \<and> wire_fields (tp_operation_data m) = Inr wire \<and> from_wire wire = Some (tp_operation_data m)
    \<and> operation_try_from (tp_operation_data m) = Inr d
    \<and> od_protocol_id d = pid \<and> od_nonce d = conf_nonce conf \<and> od_dest_chain_id d = dst
    \<and> od_src_chain_id d = SOLANA_CHAIN_ID (env_network env) \<and> od_src_op_tx_id d = s
    \<and> od_protocol_addr d = addr \<and> od_function_selector d = sel \<and> od_params d = prms
    \<and> op_data_evm d = Inr (t_op_data_evm (tp_operation_data m))"
proof -
  have pid: "length pid = 32" using assms(3) by auto
  have codec: "codec_ok propose_log_env propose_emit e"
    by (rule propose_codec_ok [OF proposed_event_fits [OF assms(1,2,4) pid]])
  from proposal_reaches_queue [OF assms(1-3) codec assms(5-9)]
  obtain conf bs m where conf: "accounts w (ai_key (pp_config a)) = Some (AConfig conf)" "to_bytes sel = Inr bs"
      "on_logs propose_log_env photon (on_propose_event (env_network env) sg (proposal_event_processor_new ps)) b c =
        Inr (appended [m] c)"
    and m: "tp_operation_data m =
        \<lparr>td_protocol_id = pid, td_meta = default_meta, td_src_chain_id = SOLANA_CHAIN_ID (env_network env),
         td_src_block_number = lb_slot b, td_src_op_tx_id = s, td_nonce = conf_nonce conf,
         td_dest_chain_id = dst, td_protocol_addr = addr, td_function_selector = bs, td_params = prms,
         td_reserved = []\<rparr>" by blast
  have ok: "length addr = 32" "selector_ok sel" using assms(4) by (simp_all add: deliverable_def)
  from ok(1) selector_arrives(1) [OF conf(2) ok(2)] obtain d where
    d: "operation_try_from (tp_operation_data m) = Inr d" "od_protocol_id d = pid" "od_nonce d = conf_nonce conf"
      "od_dest_chain_id d = dst" "od_src_chain_id d = SOLANA_CHAIN_ID (env_network env)" "od_src_op_tx_id d = s"
      "od_protocol_addr d = addr" "od_function_selector d = sel" "od_params d = prms"
    by (simp add: operation_try_from_def m)
  moreover have "op_data_evm d = Inr (t_op_data_evm (tp_operation_data m))"
    using conversion_preimage [OF d(1)] selector_arrives(2) [OF conf(2) ok(2)] by (simp add: m)
  moreover obtain wire where "wire_fields (tp_operation_data m) = Inr wire" "from_wire wire = Some (tp_operation_data m)"
    using operation_queue_roundtrip [of "tp_operation_data m"] pid assms(10) by (auto simp: m)
  ultimately show ?thesis using conf(1,3) by blast
qed

text \<open>C36: A proposal arrives as it was made. When a program proposes a call for an allowed protocol, and its
  transaction is logged with the event in the real encoding, among any other messages and calls of the
  transaction that are silent (\<open>surroundings\<close>), the listener sends exactly one message; the fields of that
  message survive the queue; and the executor of a Solana endpoint converts it to an operation with the
  protocol, destination, address, selector and parameters of the proposal and the nonce that the endpoint
  assigned. Both sides hash the same bytes, so the operation can be loaded there.\<close>

theorem proposal_arrives_unchanged:
  assumes "propose env a pid dst addr sel prms w = Inr w'"
    and "events w' = events w @ [ProposeEvent e]" "pid \<in> allowed_protocol ` set ps"
    and "deliverable addr sel prms" "name_ok photon" "name_ok caller"
    and "surroundings_ok propose_log_env photon caller sr"
    and "lb_logs b = call_log propose_log_env propose_emit photon caller sr e"
    and "sg_from_str sg (lb_tx_signature b) = Some s" "length s = 64"
  shows "\<exists>conf m d wire. accounts w (ai_key (pp_config a)) = Some (AConfig conf)
    \<and> on_logs propose_log_env photon (on_propose_event (env_network env) sg (proposal_event_processor_new ps)) b c =
        Inr (appended [m] c)
    \<and> wire_fields (tp_operation_data m) = Inr wire \<and> from_wire wire = Some (tp_operation_data m)
    \<and> operation_try_from (tp_operation_data m) = Inr d
    \<and> od_protocol_id d = pid \<and> od_nonce d = conf_nonce conf \<and> od_dest_chain_id d = dst
    \<and> od_src_chain_id d = SOLANA_CHAIN_ID (env_network env) \<and> od_src_op_tx_id d = s
    \<and> od_protocol_addr d = addr \<and> od_function_selector d = sel \<and> od_params d = prms
    \<and> op_data_evm d = Inr (t_op_data_evm (tp_operation_data m))"
  by (rule proposal_arrives [OF assms])

definition far_proposal :: propose_event where
  "far_proposal = \<lparr>pe_protocol_id = gov_protocol_id, pe_nonce = 0, pe_dst_chain_id = 100000000000000000000,
     pe_protocol_address = replicate 32 7, pe_function_selector = [0, 4] @ gov_selector AddExecutor,
     pe_params = replicate 32 5\<rparr>"

text \<open>The log of the transaction, with the lines that the runtime and the program framework add.\<close>

definition far_surroundings :: surroundings where
  "far_surroundings =
     \<lparr>sr_before = [Invocation ''ComputeBudget'' ''1'' []],
      sr_first = [Line ''Program log: Instruction: Increment''],
      sr_enter = [Line ''Program log: Instruction: Propose''],
      sr_leave = [Line ''Program Photon consumed 9000 of 180000 compute units''],
      sr_last = [Line ''Program One consumed 20000 of 200000 compute units''],
      sr_after = []\<rparr>"

lemma far_surroundings_ok: "surroundings_ok propose_log_env ''Photon'' ''One'' far_surroundings"
  by (simp add: surroundings_ok_def far_surroundings_def silent_def harmless_def line_events_def line_effect_def
      invoke_capture_def one_line_def newline_def strip_prefix_def handle_program_log_def log_payload_def
      handle_irrelevant_log_def bare_invoke_capture_def success_match_def ends_with_def propose_log_env_def
      name_ok_def depth_ok_def of_sextet_def Let_def)

definition far_bunch :: logs_bunch where
  "far_bunch = \<lparr>lb_need_check = True, lb_tx_signature = ''sig'',
     lb_logs = call_log propose_log_env propose_emit ''Photon'' ''One'' far_surroundings far_proposal, lb_slot = 5\<rparr>"

abbreviation far_propose :: "unit world \<Rightarrow> bool" where
  "far_propose w' \<equiv>
     propose sample_env propose_accs_1 gov_protocol_id 100000000000000000000 (replicate 32 7)
       (ByCode (gov_selector AddExecutor)) (replicate 32 5) w_proposer = Inr w'"

lemma length_add_executor: "length (gov_selector AddExecutor) = 4"
  by (simp add: gov_selector_def)

lemma far_proposed: "\<exists>w'. far_propose w' \<and> events w' = events w_proposer @ [ProposeEvent far_proposal]"
proof -
  obtain w' where w: "far_propose w'"
    by (simp add: propose_def propose_accounts_def propose_accs_1_def run_simps w_proposer_def
        w_init_def checked_add_def config_1_def length_add_executor)
  moreover have "events w' = events w_proposer @ [ProposeEvent far_proposal]"
    using propose_effect [OF w] length_add_executor
    by (auto simp: far_proposal_def w_proposer_def w_init_def config_1_def propose_accs_1_def)
  ultimately show ?thesis by blast
qed

lemma far_facts:
  "deliverable (replicate 32 7) (ByCode (gov_selector AddExecutor)) (replicate 32 5)"
  "lb_logs far_bunch = call_log propose_log_env propose_emit ''Photon'' ''One'' far_surroundings far_proposal"
  "sg_from_str sample_sigs (lb_tx_signature far_bunch) = Some (replicate 64 7)"
  by (simp_all add: deliverable_def selector_ok_def length_add_executor far_bunch_def sample_sigs_def)

lemma proposal_arrives_unchanged_witness:
  "\<exists>m d. on_logs propose_log_env ''Photon''
       (on_propose_event Devnet sample_sigs (proposal_event_processor_new [gov_protocol_id])) far_bunch
       \<lparr>ch_open = True, ch_queue = []\<rparr> = Inr \<lparr>ch_open = True, ch_queue = [m]\<rparr>
     \<and> operation_try_from (tp_operation_data m) = Inr d \<and> od_params d = replicate 32 5"
proof -
  obtain w' where w: "far_propose w'" and ev: "events w' = events w_proposer @ [ProposeEvent far_proposal]"
    using far_proposed by blast
  from proposal_arrives_unchanged [OF w ev gov_allowed far_facts(1) sample_names(1,2) far_surroundings_ok far_facts(2,3),
      where c = "\<lparr>ch_open = True, ch_queue = []\<rparr>"]
  show ?thesis by (auto simp: appended_def)
qed

subsection \<open>Executed as proposed\<close>

text \<open>C37: What is executed is what was proposed. Take a proposal as in the previous property, the message \<open>m\<close> that
  the listener sends for it, and a signed operation that carries it. Let the executor of the other endpoint
  build its instructions for a new operation, with that endpoint ready, the signatures reaching the
  target, and the program accepting the call. Then all three instructions succeed, and in the last of them
  the endpoint calls the program at the proposed address with the selector and the parameters of the
  proposal; its operation ends \<^verbatim>\<open>Executed\<close>.\<close>

theorem proposal_executes_as_proposed:
  assumes "propose env a pid dst addr sel prms w = Inr w'"
    and "events w' = events w @ [ProposeEvent e]" "pid \<in> allowed_protocol ` set ps"
    and "deliverable addr sel prms" "name_ok photon" "name_ok caller"
    and "surroundings_ok propose_log_env photon caller sr"
    and "lb_logs b = call_log propose_log_env propose_emit photon caller sr e"
    and "sg_from_str sg (lb_tx_signature b) = Some s" "length s = 64"
    and "ch_open c" "on_logs propose_log_env photon
           (on_propose_event (env_network env) sg (proposal_event_processor_new ps)) b c =
         Inr (c\<lparr>ch_queue := ch_queue c @ [m]\<rparr>)"
    and "so_operation_data op = tp_operation_data m" "operation_try_from (tp_operation_data m) = Inr d"
    and "build_ixs x h op ENew = Inr bs"
    and "\<forall>g \<in> {LoadArgs d h, SignArgs h (List.map signature_into (so_signatures op)), ExecuteArgs h}.
           decode (xe_encode x g) = Some g"
    and "endpoint_ready x d h op_pda p v" "operation_fits x d h p"
    and "signatures_suffice x h (List.map signature_into (so_signatures op)) p"
    and "call_succeeds x (tp_operation_data m)"
  shows "\<exists>v' i va vc. process_all (xe_env x) decode bs v = Inr v'
    \<and> accounts v' op_pda = Some (AOp i) \<and> oi_status i = StExecuted \<and> oi_op_data i = d
    \<and> calls_protocol (xe_env x) h d va vc \<and> events v' = events vc @ [ProposalExecuted h (xe_payer x)]
    \<and> od_protocol_id d = pid \<and> od_protocol_addr d = addr \<and> od_function_selector d = sel
    \<and> od_params d = prms \<and> od_dest_chain_id d = dst"
proof -
  obtain m' d' where m': "on_logs propose_log_env photon
        (on_propose_event (env_network env) sg (proposal_event_processor_new ps)) b c = Inr (appended [m'] c)"
      "operation_try_from (tp_operation_data m') = Inr d'"
    and d': "od_protocol_id d' = pid" "od_protocol_addr d' = addr" "od_function_selector d' = sel"
      "od_params d' = prms" "od_dest_chain_id d' = dst"
    using proposal_arrives [OF assms(1-10), of c] by blast
  have "c\<lparr>ch_queue := ch_queue c @ [m]\<rparr> = c\<lparr>ch_queue := ch_queue c @ [m']\<rparr>"
    using m'(1) assms(11,12) by (simp add: appended_def)
  from arg_cong [OF this, of ch_queue] have "m' = m" by simp
  then have "d' = d" using m'(2) assms(14) by simp
  with d' three_instructions_complete [OF assms(15) _ assms(16-19)] assms(13,14,20)
  show ?thesis by simp
qed

definition far_message :: t_propose where
  "far_message = propose_of Devnet sample_sigs far_proposal (replicate 64 7) 5 True"

definition far_operation :: operation_data where
  "far_operation = op_1\<lparr>od_meta := default_meta, od_src_chain_id := SOLANA_CHAIN_ID Devnet, od_src_block_number := 5,
     od_src_op_tx_id := replicate 64 7\<rparr>"

definition far_signed :: signed_operation where
  "far_signed = signed_gov\<lparr>so_operation_data := tp_operation_data far_message\<rparr>"

definition far_decode :: "bytes \<Rightarrow> ix_args option" where
  "far_decode bs = (if bs = [0] then Some (LoadArgs far_operation hash_1) else sample_decode bs)"

lemma far_data:
  "operation_try_from (tp_operation_data far_message) = Inr far_operation"
  "od_protocol_id far_operation = gov_protocol_id" "od_dest_chain_id far_operation = 100000000000000000000"
  "od_protocol_addr far_operation = replicate 32 7"
  by (simp_all add: far_message_def propose_of_def far_proposal_def operation_try_from_def selector_try_from_def
      far_operation_def op_1_def op_data_zeroed_def)

lemma far_hash: "op_hash_with_message (pad 32) far_operation = Inr hash_1"
proof -
  obtain tl where e: "op_data_evm far_operation = Inr (gov_protocol_id @ tl)"
    by (simp add: op_data_evm_def far_operation_def op_1_def)
  have "take 4 (pad 32 (gov_protocol_id @ tl)) = str ''phot''"
    by (simp add: pad_def take4_gov [symmetric])
  then show ?thesis
    by (simp add: op_hash_with_message_def op_hash_def e hash_with_message_def pad_def hash_1_def)
qed

lemma far_build: "\<exists>bs. build_ixs sample_executor hash_1 far_signed ENew = Inr bs"
  using sample_gov_accounts t_gov_utf8 far_data(1)
  by (auto simp: build_ixs_def build_load_ix_def build_sign_tx_def build_execute_tx_def sample_executor_def
      far_signed_def far_message_def propose_of_def far_proposal_def photon_address_def find_address_def
      get_extension_def gov_extension_def)

definition far_channel :: "t_propose channel" where
  "far_channel = \<lparr>ch_open = True, ch_queue = []\<rparr>"

lemma far_sent:
  "on_logs propose_log_env ''Photon''
     (on_propose_event (env_network sample_env) sample_sigs (proposal_event_processor_new [gov_protocol_id])) far_bunch
     far_channel = Inr (far_channel\<lparr>ch_queue := ch_queue far_channel @ [far_message]\<rparr>)"
proof -
  have codec: "codec_ok propose_log_env propose_emit far_proposal"
    using propose_codec_ok [of far_proposal] by (simp add: propose_fits_def far_proposal_def length_add_executor)
  note roots = call_roots_parse [OF codec sample_names(1,2) far_surroundings_ok]
  from listener_on_trees [OF sample_names(1) roots(1) _ far_facts(3)] roots(2) far_facts(2) gov_allowed
  show ?thesis by (simp add: call_log_def appended_def far_message_def far_proposal_def far_bunch_def far_channel_def)
qed

lemma proposal_executes_as_proposed_witness:
  "\<exists>bs v' i. build_ixs sample_executor hash_1 far_signed ENew = Inr bs
     \<and> process_all sample_env far_decode bs w_init = Inr v'
     \<and> accounts v' (op_key hash_1) = Some (AOp i) \<and> oi_status i = StExecuted"
proof -
  obtain w' where w: "far_propose w'" and ev: "events w' = events w_proposer @ [ProposeEvent far_proposal]"
    using far_proposed by blast
  obtain bs where bs: "build_ixs sample_executor hash_1 far_signed ENew = Inr bs" using far_build by blast
  have op: "so_operation_data far_signed = tp_operation_data far_message" by (simp add: far_signed_def)
  have sigs: "List.map signature_into (so_signatures far_signed) = [sig_1]"
    by (simp add: far_signed_def signed_gov_def signature_into_def sig_1_def)
  have dec: "\<forall>g \<in> {LoadArgs far_operation hash_1, SignArgs hash_1 [sig_1], ExecuteArgs hash_1}.
      far_decode (xe_encode sample_executor g) = Some g"
    by (simp add: sample_executor_def far_decode_def sample_decode_def)
  have env: "xe_env sample_executor = sample_env" by (simp add: sample_executor_def)
  have call: "call_succeeds sample_executor (tp_operation_data far_message)"
    by (rule sample_call) (simp_all add: far_message_def propose_of_def far_proposal_def)
  have "\<exists>v' i va vc. process_all (xe_env sample_executor) far_decode bs w_init = Inr v'
      \<and> accounts v' (op_key hash_1) = Some (AOp i) \<and> oi_status i = StExecuted \<and> oi_op_data i = far_operation
      \<and> calls_protocol (xe_env sample_executor) hash_1 far_operation va vc
      \<and> events v' = events vc @ [ProposalExecuted hash_1 (xe_payer sample_executor)]
      \<and> od_protocol_id far_operation = gov_protocol_id \<and> od_protocol_addr far_operation = replicate 32 7
      \<and> od_function_selector far_operation = ByCode (gov_selector AddExecutor)
      \<and> od_params far_operation = replicate 32 5 \<and> od_dest_chain_id far_operation = 100000000000000000000"
    by (rule proposal_executes_as_proposed [OF w ev gov_allowed far_facts(1) sample_names(1,2) far_surroundings_ok far_facts(2,3) _ _
          far_sent op far_data(1) bs _ sample_ready [OF far_data(2)]
          sample_fits [OF far_data(2) far_hash far_data(3,4)] _ call])
      (simp_all add: dec sample_suffice sigs far_channel_def)
  with bs show ?thesis by (auto simp: env)
qed

subsection \<open>The report of the execution\<close>

text \<open>What \<^verbatim>\<open>execute_operation\<close> logs: the call of the program, then its own event, among other silent lines.\<close>

definition execution_roots :: "string \<Rightarrow> surroundings \<Rightarrow> log_item \<Rightarrow> executed_event \<Rightarrow> log_item list" where
  "execution_roots photon sr called e =
     sr_before sr @
     [Invocation photon ''1''
        (sr_enter sr @ [called, Line (emitted_line executed_log_env executed_emit e)] @ sr_leave sr)] @
     sr_after sr"

text \<open>An execution is reported. When \<^verbatim>\<open>execute_operation\<close> succeeds, and the program it calls logs only harmless
  messages and no event of the endpoint, the watcher reads the log of the transaction as one execution and
  sends one message, with the hash of the operation, the executor that called and the signature of the
  transaction.\<close>

theorem execution_is_reported:
  assumes "execute_operation env a remaining h w = Inr w'"
    and "length h = 32" "length (ai_key (ec_executor a)) = 32" "name_ok photon"
    and "silent executed_log_env photon photon called" "surroundings_ok executed_log_env photon photon sr"
    and "lb_logs b = concat (List.map render
           (execution_roots photon sr called \<lparr>xv_op_hash = h, xv_executor = ai_key (ec_executor a)\<rparr>))"
  shows "(\<exists>evs. events w' = evs @ [ProposalExecuted h (ai_key (ec_executor a))])
    \<and> on_logs executed_log_env photon on_executed_event b c =
        Inr (appended [\<lparr>tx_need_check = lb_need_check b, tx_last_watched_block = lb_tx_signature b,
                        tx_op_hash = h, tx_executor = ai_key (ec_executor a)\<rparr>] c)"
proof
  show "\<exists>evs. events w' = evs @ [ProposalExecuted h (ai_key (ec_executor a))]"
    using execute_operation_effect [OF assms(1)] by blast
  let ?e = "\<lparr>xv_op_hash = h, xv_executor = ai_key (ec_executor a)\<rparr>"
  let ?main = "Invocation photon ''1''
      (sr_enter sr @ [called, Line (emitted_line executed_log_env executed_emit ?e)] @ sr_leave sr)"
  have codec: "codec_ok executed_log_env executed_emit ?e"
    using assms(2,3) by (intro executed_codec_ok) (simp add: executed_fits_def)
  note line = emitted_line_harmless [OF codec, of photon]
  note sr = assms(6) [unfolded surroundings_ok_def list_all_append]
  have "tree_ok executed_log_env photon photon ?main"
    using assms(4,5) sr line(1) by (simp add: silent_ok silent_def depth_ok_samples)
  then have "\<forall>r \<in> set (execution_roots photon sr called ?e).
      \<exists>p d items. r = Invocation p d items \<and> tree_ok executed_log_env photon p r"
    using silent_roots(1) [of executed_log_env photon "sr_before sr"] silent_roots(1) [of executed_log_env photon "sr_after sr"] sr
    by (auto simp: execution_roots_def simp del: tree_ok.simps)
  from parse_logs_roots [OF assms(4) this] have "parse_logs executed_log_env (lb_logs b) photon = Inr [?e]"
    using assms(5,7) sr line(2) by (simp add: execution_roots_def silent_roots(2) silent_events silent_def)
  from executions.on_logs_sends [OF this] assms(2)
  show "on_logs executed_log_env photon on_executed_event b c =
      Inr (appended [\<lparr>tx_need_check = lb_need_check b, tx_last_watched_block = lb_tx_signature b,
                      tx_op_hash = h, tx_executor = ai_key (ec_executor a)\<rparr>] c)"
    by (simp add: executions.bunch_msgs_def executed_msgs_def)
qed

lemma execution_is_reported_witness:
  "\<exists>b. on_logs executed_log_env ''Photon'' on_executed_event b \<lparr>ch_open = True, ch_queue = []\<rparr> =
     Inr \<lparr>ch_open = True, ch_queue =
       [\<lparr>tx_need_check = True, tx_last_watched_block = ''sig'', tx_op_hash = hash_1, tx_executor = key 4\<rparr>]\<rparr>"
proof -
  let ?called = "Invocation ''One'' ''2'' []" and ?e = "\<lparr>xv_op_hash = hash_1, xv_executor = key 4\<rparr>"
  let ?b = "\<lparr>lb_need_check = True, lb_tx_signature = ''sig'',
     lb_logs = concat (List.map render (execution_roots ''Photon'' no_surroundings ?called ?e)), lb_slot = 5\<rparr>"
  have ex: "ai_key (ec_executor execute_accs_1) = key 4" by (simp add: execute_accs_1_def acc_simps)
  have "on_logs executed_log_env ''Photon'' on_executed_event ?b \<lparr>ch_open = True, ch_queue = []\<rparr> =
      Inr (appended [\<lparr>tx_need_check = lb_need_check ?b, tx_last_watched_block = lb_tx_signature ?b,
        tx_op_hash = hash_1, tx_executor = ai_key (ec_executor execute_accs_1)\<rparr>] \<lparr>ch_open = True, ch_queue = []\<rparr>)"
    by (rule execution_is_reported [OF sample_execute [of "[]"], where photon = "''Photon''" and called = ?called
          and sr = no_surroundings and b = ?b, THEN conjunct2])
       (simp_all add: ex sample_names hash_1_def key_def silent_def surroundings_ok_def no_surroundings_def)
  then show ?thesis by (intro exI [of _ ?b]) (simp add: appended_def ex)
qed

end
