(* ===== verification/Executor_Chain.thy ===== *)
theory Executor_Chain
  imports Executor_Pipeline Transactor
begin

section \<open>The executor, the sender and the endpoint together\<close>

text \<open>
  The processing loop of the executor (\<open>Operation_Manager\<close>), the sender that packs and submits its
  instructions (\<open>Ix_Compiler\<close>, \<open>Transactor\<close>) and the endpoint program (\<open>Endpoint\<close>), run against each other.
  What lies between them is the chain: a transaction is atomic (\<open>run_tx\<close>); a message that is confirmed has
  landed, and since it may have been submitted several times with several block hashes it may land again
  at any later time (\<open>lands\<close>); other transactions run in between. The first part shows that the reports of
  the executor are true whatever happens, the second that it drives an operation to its execution.
\<close>

subsection \<open>What the executor reads\<close>

text \<open>A step of the chain, as the endpoint sees it.\<close>

definition chain_step :: "'x env \<Rightarrow> 'x world \<Rightarrow> 'x world \<Rightarrow> bool" where
  "chain_step env w w' \<longleftrightarrow>
     (\<exists>c. call_typed c \<and> exec_call env c w = Inr w') \<or> (\<exists>f. w' = w\<lparr>foreign := f\<rparr>)"

definition chain_steps :: "'x env \<Rightarrow> 'x world \<Rightarrow> 'x world \<Rightarrow> bool" where
  "chain_steps env = (chain_step env)\<^sup>*\<^sup>*"

text \<open>
  The world \<open>w k\<close> at the \<open>k\<close>-th turn of the loop. The node answers with the bytes of the operation's account,
  and the account framework reads them back exactly when they are an operation (every account type has
  its own discriminator).
\<close>

fun op_of :: "account \<Rightarrow> op_info option" where
  "op_of (AOp i) = Some i"
| "op_of _ = None"

definition reads_chain ::
    "'x executor \<Rightarrow> bytes \<Rightarrow> (nat \<Rightarrow> turn) \<Rightarrow> (account \<Rightarrow> bytes) \<Rightarrow> (nat \<Rightarrow> 'x world) \<Rightarrow> bool" where
  "reads_chain x h turns ser w \<longleftrightarrow>
     (\<forall>k. chain_steps (xe_env x) (w k) (w (Suc k))) \<and>
     (\<exists>op_pda b. env_find_pda (xe_env x) [ROOT, str ''OP'', h] (env_photon_id (xe_env x)) = Some (op_pda, b) \<and>
        (\<forall>k. tn_account (turns k) = map_option ser (accounts (w k) op_pda) \<and>
             (\<forall>a. accounts (w k) op_pda = Some a \<longrightarrow> xe_deserialize x (ser a) = op_of a)))"

lemma reads_status:
  assumes "reads_chain x h turns ser w" "get_op_status x h (tn_account (turns k)) = Inr s"
  shows "s = executor_status_from (status_of (xe_env x) (w k) h)"
proof -
  obtain op_pda b where o: "env_find_pda (xe_env x) [ROOT, str ''OP'', h] (env_photon_id (xe_env x)) = Some (op_pda, b)"
      "tn_account (turns k) = map_option ser (accounts (w k) op_pda)"
      "\<And>a. accounts (w k) op_pda = Some a \<Longrightarrow> xe_deserialize x (ser a) = op_of a"
    using assms(1) unfolding reads_chain_def by blast
  show ?thesis
  proof (cases "accounts (w k) op_pda")
    case (Some a)
    with assms(2) o show ?thesis
      by (cases a) (auto simp: get_op_status_def status_of_def ops_def result_simps)
  qed (use assms(2) o in \<open>auto simp: get_op_status_def status_of_def ops_def result_simps\<close>)
qed

lemma chain_steps_reachable:
  assumes "chain_steps env w w'" "reachable env w"
  shows "reachable env w'"
  using assms unfolding chain_steps_def
  by (induction rule: rtranclp_induct) (auto simp: chain_step_def intro: reachable.call reachable.outside)

lemma chain_step_status:
  assumes "chain_step env w w'" "cpi_ok env" "op_pda_inj env"
  shows "status_of env w h \<le> status_of env w' h"
  using assms(1) unfolding chain_step_def
proof (elim disjE exE conjE)
  fix c
  assume "exec_call env c w = Inr w'"
  then obtain l where "lstep (status_of env w) l (status_of env w')"
    using op_step_lstep [OF call_op_step [OF assms(2)] assms(3)] by blast
  then show ?thesis by (rule lstep_mono)
next
  fix f
  assume "w' = w\<lparr>foreign := f\<rparr>"
  then show ?thesis using status_of_cong [of w' w env] by simp
qed

lemma chain_steps_status:
  assumes "chain_steps env w w'" "cpi_ok env" "op_pda_inj env"
  shows "status_of env w h \<le> status_of env w' h"
  using assms(1) unfolding chain_steps_def
  by (induction rule: rtranclp_induct) (auto intro: order_trans chain_step_status [OF _ assms(2,3)])

lemma reads_chain_later:
  assumes "reads_chain x h turns ser w" "j \<le> k"
  shows "chain_steps (xe_env x) (w j) (w k)"
  using assms(2)
proof (induction k rule: dec_induct)
  case (step n)
  with assms(1) show ?case unfolding reads_chain_def chain_steps_def by (meson rtranclp_trans)
qed (simp add: chain_steps_def)

subsection \<open>Its reports are true\<close>

lemma executed_once:
  assumes "reachable env w" "cpi_ok env" "op_pda_inj env" "status_of env w h = StExecuted"
  shows "count_list (op_trace h (events w)) E = 1"
  using trace_ok_count_E [OF lreach_trace [OF reachable_lreach [OF assms(1-3)]], of h] assms(4)
  by (simp add: op_trace_lifecycle)

lemma executor_status_inj: "executor_status_from a = executor_status_from b \<Longrightarrow> a = b"
  by (cases a; cases b) simp_all

lemma executor_status_executed: "executor_status_from a = EExecuted \<longleftrightarrow> a = StExecuted"
  by (cases a) simp_all

text \<open>C24: The reports of the executor are true. Let it process an operation on a chain on which anything may
  happen: other calls of the endpoint between its readings, questions that fail, sends that fail. The run
  has a last turn \<open>j\<close>, and makes at most one report, about its reading there. If it reports \<^verbatim>\<open>Executed\<close>, then
  the operation was executed at that reading and stays so, and its execution is announced exactly once. If it
  reports \<^verbatim>\<open>Failed\<close>, then the operation was not executed at that last reading, and it had the same status
  at each of the last \<open>max 1 executor_attempts + 1\<close> readings.\<close>

theorem executor_reports_are_true:
  assumes "process_operation x h op turns = Some (acks, r)" "reads_chain x h turns ser w"
    and "reachable (xe_env x) (w 0)" "cpi_ok (xe_env x)" "op_pda_inj (xe_env x)"
  shows "\<exists>j. ends_at x h op turns j (acks, r) \<and>
    (acks = []
     \<or> acks = [ack_executed op h EExecuted] \<and> tn_balance_ok (turns j) \<and>
         (\<forall>k \<ge> j. status_of (xe_env x) (w k) h = StExecuted \<and> count_list (op_trace h (events (w k))) E = 1)
     \<or> acks = [ack_executed op h EFailed] \<and> tn_balance_ok (turns j) \<and> status_of (xe_env x) (w j) h \<noteq> StExecuted \<and>
         max 1 (xe_attempts x) < length (readings turns (Suc j)) \<and>
         (\<forall>i \<in> set (take (Suc (max 1 (xe_attempts x))) (rev (readings turns (Suc j)))).
            status_of (xe_env x) (w i) h = status_of (xe_env x) (w j) h))"
proof -
  obtain j where j: "ends_at x h op turns j (acks, r)" using assms(1) process_operation_ends by metis
  then show ?thesis
  proof (cases rule: ends_at_reports)
    case 1
    with j show ?thesis by blast
  next
    case 2
    have "status_of (xe_env x) (w k) h = StExecuted \<and> count_list (op_trace h (events (w k))) E = 1" if "j \<le> k" for k
    proof -
      have "status_of (xe_env x) (w j) h = StExecuted"
        using reads_status [OF assms(2) 2(4)] executor_status_executed by metis
      then have ex: "status_of (xe_env x) (w k) h = StExecuted"
        using chain_steps_status [OF reads_chain_later [OF assms(2) that] assms(4,5), of h] by simp
      have "reachable (xe_env x) (w k)"
        using chain_steps_reachable [OF reads_chain_later [OF assms(2), of 0 k] assms(3)] by simp
      with ex executed_once [OF _ assms(4,5)] show ?thesis by simp
    qed
    with j 2 show ?thesis by blast
  next
    case (3 s)
    note now = reads_status [OF assms(2) 3(5)]
    have "status_of (xe_env x) (w i) h = status_of (xe_env x) (w j) h"
      if "i \<in> set (take (Suc (max 1 (xe_attempts x))) (rev (readings turns (Suc j))))" for i
      using reads_status [OF assms(2), of i s] 3(6) that now executor_status_inj by (auto simp: read_last_def)
    moreover have "status_of (xe_env x) (w j) h \<noteq> StExecuted" using now 3(4) executor_status_executed by metis
    moreover have "max 1 (xe_attempts x) < length (readings turns (Suc j))"
      using 3(6) unfolding read_last_def by linarith
    ultimately show ?thesis using j 3(1,3) by blast
  qed
qed

subsection \<open>Transactions on the chain\<close>

text \<open>
  A transaction carries the instructions of a message (those that set the compute budget concern only the
  runtime), and either all of them succeed or nothing happens.
\<close>

fun program_ixs :: "tx_ix list \<Rightarrow> instruction list" where
  "program_ixs [] = []"
| "program_ixs (Ix i # ixs) = i # program_ixs ixs"
| "program_ixs (_ # ixs) = program_ixs ixs"

fun process_ixs ::
    "'x env \<Rightarrow> (bytes \<Rightarrow> ix_args option) \<Rightarrow> instruction list \<Rightarrow> 'x world \<Rightarrow> err + 'x world" where
  "process_ixs env decode [] w = Inr w"
| "process_ixs env decode (i # is) w = bindE (process_instruction env decode i w) (process_ixs env decode is)"

definition run_tx ::
    "'x env \<Rightarrow> (bytes \<Rightarrow> ix_args option) \<Rightarrow> tx_ix list \<Rightarrow> 'x world \<Rightarrow> 'x world" where
  "run_tx env decode ixs w = (case process_ixs env decode (program_ixs ixs) w of Inl e \<Rightarrow> w | Inr w' \<Rightarrow> w')"

text \<open>
  The chain while messages are sent one after the other. Each message lands, one of its transactions being
  confirmed before the next message is sent; transactions of the messages sent before (\<open>seen\<close>) may land
  again; and other transactions run that leave the accounts in question alone (\<open>others\<close>).
\<close>

inductive lands ::
    "('x world \<Rightarrow> 'x world \<Rightarrow> bool) \<Rightarrow> ('m \<Rightarrow> 'x world \<Rightarrow> 'x world) \<Rightarrow> 'm list \<Rightarrow> 'm list \<Rightarrow> 'x world \<Rightarrow> 'x world \<Rightarrow> bool"
  for others run where
  finished: "lands others run seen [] w w"
| first: "lands others run (m # seen) ms (run m w) w' \<Longrightarrow> lands others run seen (m # ms) w w'"
| again: "m \<in> set seen \<Longrightarrow> lands others run seen ms (run m w) w' \<Longrightarrow> lands others run seen ms w w'"
| other: "others w w1 \<Longrightarrow> lands others run seen ms w1 w' \<Longrightarrow> lands others run seen ms w w'"

subsection \<open>The stages of an operation\<close>

text \<open>
  How far the operation is: its account is free, loaded, signed, executed. \<open>unrelated\<close> are the changes of the
  world by other transactions: the accounts of this operation, its protocol and the configuration stay as
  they are, and the payer can still pay for the account.
\<close>

definition in_stage ::
    "'x executor \<Rightarrow> operation_data \<Rightarrow> bytes \<Rightarrow> bytes \<Rightarrow> protocol_info \<Rightarrow> nat \<Rightarrow> 'x world \<Rightarrow> bool" where
  "in_stage x d h op_pda p n w \<longleftrightarrow>
     (if n = 0 then endpoint_ready x d h op_pda p w
      else if n = 1 then endpoint_serves x d h op_pda p w \<and> accounts w op_pda = Some (AOp (loaded_op d))
      else if n = 2 then endpoint_serves x d h op_pda p w \<and>
        (\<exists>i. accounts w op_pda = Some (AOp i) \<and> oi_op_data i = d \<and> oi_status i = StSigned)
      else
        (\<exists>b. env_find_pda (xe_env x) [ROOT, str ''OP'', h] (env_photon_id (xe_env x)) = Some (op_pda, b)) \<and>
        (\<exists>i. accounts w op_pda = Some (AOp i) \<and> oi_status i = StExecuted))"

definition unrelated ::
    "'x executor \<Rightarrow> operation_data \<Rightarrow> bytes \<Rightarrow> bytes \<Rightarrow> 'x world \<Rightarrow> 'x world \<Rightarrow> bool" where
  "unrelated x d h op_pda w w' \<longleftrightarrow>
     accounts w' op_pda = accounts w op_pda \<and>
     (\<forall>seeds \<in> {[ROOT, str ''CONFIG''], [ROOT, str ''PROTOCOL'', od_protocol_id d]}. \<forall>k b.
        env_find_pda (xe_env x) seeds (env_photon_id (xe_env x)) = Some (k, b) \<longrightarrow> accounts w' k = accounts w k) \<and>
     (env_create_account (xe_env x) (xe_payer x) op_pda (OpInfo_len (env_borsh_op (xe_env x)) d) (foreign w) \<noteq> None \<longrightarrow>
      env_create_account (xe_env x) (xe_payer x) op_pda (OpInfo_len (env_borsh_op (xe_env x)) d) (foreign w') \<noteq> None)"

lemma unrelated_serves:
  assumes "unrelated x d h op_pda w w'" "endpoint_serves x d h op_pda p w"
  shows "endpoint_serves x d h op_pda p w'"
  using assms by (fastforce simp: unrelated_def endpoint_serves_def Let_def)

lemma unrelated_stage:
  assumes "unrelated x d h op_pda w w'" "in_stage x d h op_pda p n w"
  shows "in_stage x d h op_pda p n w'"
  using assms unrelated_serves [OF assms(1)]
  by (auto simp: in_stage_def endpoint_ready_def unrelated_def split: if_splits)

text \<open>An operation that the executor can take through, with the three instructions it builds for it.\<close>

definition plan_ok ::
    "'x executor \<Rightarrow> bytes \<Rightarrow> signed_operation \<Rightarrow> operation_data \<Rightarrow> (bytes \<Rightarrow> ix_args option) \<Rightarrow> protocol_info
     \<Rightarrow> instruction_bundle list \<Rightarrow> bool" where
  "plan_ok x h op d decode p bs \<longleftrightarrow>
     build_ixs x h op ENew = Inr bs \<and> operation_try_from (so_operation_data op) = Inr d \<and>
     (\<forall>a \<in> {LoadArgs d h, SignArgs h (List.map signature_into (so_signatures op)), ExecuteArgs h}.
        decode (xe_encode x a) = Some a) \<and>
     operation_fits x d h p \<and> signatures_suffice x h (List.map signature_into (so_signatures op)) p \<and>
     call_succeeds x (so_operation_data op)"

lemma plan_bundles:
  assumes "plan_ok x h op d decode p bs"
  obtains l s e where "bs = [l, s, e]" "build_load_ix x h (so_operation_data op) = Inr l"
    "build_sign_tx x h op = Inr s" "build_execute_tx x h (so_operation_data op) = Inr e"
  using assms that by (auto simp: plan_ok_def build_ixs_def result_simps)

lemma load_call:
  assumes "build_load_ix x h v = Inr b" "operation_try_from v = Inr d"
    and "decode (xe_encode x (LoadArgs d h)) = Some (LoadArgs d h)"
  shows "\<exists>a. \<forall>w. process_instruction (xe_env x) decode (ib_instruction b) w = load_operation (xe_env x) a d h w"
  using assms by (auto simp: build_load_ix_def photon_bundle_def process_instruction_def result_simps)

lemma sign_call:
  assumes "build_sign_tx x h op = Inr b" "sigs = List.map signature_into (so_signatures op)"
    and "decode (xe_encode x (SignArgs h sigs)) = Some (SignArgs h sigs)"
  shows "\<exists>a. \<forall>w. process_instruction (xe_env x) decode (ib_instruction b) w =
      bindE (sign_operation (xe_env x) a h sigs w) (\<lambda>(w', r). Inr w')"
  using assms by (auto simp: build_sign_tx_def photon_bundle_def process_instruction_def result_simps)

lemma execute_call:
  assumes "build_execute_tx x h v = Inr b" "decode (xe_encode x (ExecuteArgs h)) = Some (ExecuteArgs h)"
  shows "\<exists>a rem. \<forall>w. process_instruction (xe_env x) decode (ib_instruction b) w =
      execute_operation (xe_env x) a rem h w"
proof -
  have "ix_data (ib_instruction b) = xe_encode x (ExecuteArgs h)"
    and "\<exists>a rem. entry_call (ExecuteArgs h) (List.map info_of (ix_accounts (ib_instruction b))) =
      Some (ExecuteOperation a rem h)"
    using assms(1)
    by (auto simp: build_execute_tx_def photon_bundle_def result_simps Let_def split: if_splits)
  then obtain a rem where "entry_call (ExecuteArgs h) (List.map info_of (ix_accounts (ib_instruction b))) =
      Some (ExecuteOperation a rem h)" "ix_data (ib_instruction b) = xe_encode x (ExecuteArgs h)" by blast
  with assms(2) have "\<forall>w. process_instruction (xe_env x) decode (ib_instruction b) w =
      execute_operation (xe_env x) a rem h w"
    by (simp add: process_instruction_def)
  then show ?thesis by blast
qed

text \<open>The next instruction takes the operation to the next stage.\<close>

lemma stage_advances:
  assumes plan: "plan_ok x h op d decode p bs" and st: "in_stage x d h op_pda p n w" and n: "n < 3"
  shows "\<exists>w'. process_instruction (xe_env x) decode (ib_instruction (bs ! n)) w = Inr w' \<and>
           in_stage x d h op_pda p (Suc n) w'"
proof -
  obtain l s e where b: "bs = [l, s, e]" "build_load_ix x h (so_operation_data op) = Inr l"
      "build_sign_tx x h op = Inr s" "build_execute_tx x h (so_operation_data op) = Inr e"
    using plan_bundles [OF plan] .
  have d: "operation_try_from (so_operation_data op) = Inr d" "operation_fits x d h p"
      "signatures_suffice x h (List.map signature_into (so_signatures op)) p"
      "call_succeeds x (so_operation_data op)"
    and dec: "decode (xe_encode x (LoadArgs d h)) = Some (LoadArgs d h)"
      "decode (xe_encode x (SignArgs h (List.map signature_into (so_signatures op)))) =
         Some (SignArgs h (List.map signature_into (so_signatures op)))"
      "decode (xe_encode x (ExecuteArgs h)) = Some (ExecuteArgs h)"
    using plan by (auto simp: plan_ok_def)
  have pid: "od_protocol_id d = td_protocol_id (so_operation_data op)"
    using d(1) by (auto simp: operation_try_from_def result_simps split: if_splits)
  consider "n = 0" | "n = 1" | "n = 2" using n by linarith
  then show ?thesis
  proof cases
    case 1
    with st have r: "endpoint_ready x d h op_pda p w" by (simp add: in_stage_def)
    from load_step [where decode = decode, OF dec(1) b(2) d(1) r d(2)] endpoint_serves_update [of x d h op_pda p w]
    show ?thesis using 1 b(1) r by (fastforce simp: in_stage_def endpoint_ready_def)
  next
    case 2
    with st have r: "endpoint_serves x d h op_pda p w" "accounts w op_pda = Some (AOp (loaded_op d))"
      by (simp_all add: in_stage_def)
    from sign_step [where decode = decode, OF dec(2) b(3) pid r(1) d(3) r(2)] endpoint_serves_update [OF r(1)] r(2)
    show ?thesis using 2 b(1) by (fastforce simp: in_stage_def loaded_op_def)
  next
    case 3
    with st obtain i where r: "endpoint_serves x d h op_pda p w" "accounts w op_pda = Some (AOp i)"
        "oi_status i = StSigned" "oi_op_data i = d"
      by (auto simp: in_stage_def)
    from execute_step [where decode = decode, OF dec(3) b(4) d(1) r(1) d(4) r(2,3,4)]
    show ?thesis using 3 b(1) r(1) by (fastforce simp: in_stage_def endpoint_serves_def Let_def)
  qed
qed

text \<open>An instruction of a stage that has passed changes nothing of the stage when it runs again: it fails, or
  it is the signing of a signed operation.\<close>

lemma signed_again:
  assumes "sign_operation env a h sigs w = Inr (w', r)" "accounts w op_pda = Some (AOp i)" "oi_status i = StSigned"
    and "env_find_pda env [ROOT, str ''OP'', h] (env_photon_id env) = Some (op_pda, b)"
  shows "\<exists>j. accounts w' = (accounts w)(op_pda \<mapsto> AOp j) \<and> oi_status j = StSigned \<and> oi_op_data j = oi_op_data i"
  using assms(1)
proof (rule sign_operation_effect)
  fix y q
  assume acc: "sign_operation_accounts env a h w = Inr (y, q)"
    and eff: "(unat (pi_consensus_target_rate q) \<le>
            consensus_rate (length (signers_of y)) (length (transmitters_of q)) \<and> w' = w \<and> r)
       \<or> (consensus_rate (length (signers_of y)) (length (transmitters_of q)) <
            unat (pi_consensus_target_rate q)
          \<and> signs env w h (ai_key (sg_op_info a)) (ai_key (sg_executor a)) y q sigs w')"
  from acc assms(2,4) have k: "ai_key (sg_op_info a) = op_pda" "y = i"
    by (auto simp: sign_operation_accounts_effect)
  from eff show ?thesis
  proof
    assume "consensus_rate (length (signers_of y)) (length (transmitters_of q)) < unat (pi_consensus_target_rate q)
      \<and> signs env w h (ai_key (sg_op_info a)) (ai_key (sg_executor a)) y q sigs w'"
    then obtain j where "accounts w' = (accounts w)(op_pda \<mapsto> AOp j)" "oi_op_data j = oi_op_data i"
        "oi_status j = StSigned \<or> oi_status j = oi_status i"
      using k by (elim conjE signs_account) auto
    with assms(3) show ?thesis by auto
  next
    assume "unat (pi_consensus_target_rate q) \<le>
            consensus_rate (length (signers_of y)) (length (transmitters_of q)) \<and> w' = w \<and> r"
    with assms(2,3) show ?thesis by (intro exI [of _ i]) auto
  qed
qed

lemma stage_repeats:
  assumes plan: "plan_ok x h op d decode p bs" and st: "in_stage x d h op_pda p m w" and n: "n < m" "n < 3"
    and run: "process_instruction (xe_env x) decode (ib_instruction (bs ! n)) w = Inr w'"
  shows "in_stage x d h op_pda p m w'"
proof -
  let ?sigs = "List.map signature_into (so_signatures op)"
  obtain l s e where b: "bs = [l, s, e]" "build_load_ix x h (so_operation_data op) = Inr l"
      "build_sign_tx x h op = Inr s" "build_execute_tx x h (so_operation_data op) = Inr e"
    using plan_bundles [OF plan] .
  have d: "operation_try_from (so_operation_data op) = Inr d"
    and dec: "decode (xe_encode x (LoadArgs d h)) = Some (LoadArgs d h)"
      "decode (xe_encode x (SignArgs h ?sigs)) = Some (SignArgs h ?sigs)"
      "decode (xe_encode x (ExecuteArgs h)) = Some (ExecuteArgs h)"
    using plan by (auto simp: plan_ok_def)
  obtain bump i where pda: "env_find_pda (xe_env x) [ROOT, str ''OP'', h] (env_photon_id (xe_env x)) = Some (op_pda, bump)"
      "accounts w op_pda = Some (AOp i)"
    using st n(1) by (auto simp: in_stage_def endpoint_serves_def Let_def split: if_splits)
  consider "n = 0" | "n = 1" | "n = 2" using n(2) by linarith
  then show ?thesis
  proof cases
    case 1
    then obtain a where "load_operation (xe_env x) a d h w = Inr w'"
      using run b(1) load_call [where decode = decode, OF b(2) d dec(1)] by auto
    from load_operation_effect [OF this] pda show ?thesis by (auto simp: loads_def)
  next
    case 2
    then obtain a r where s: "sign_operation (xe_env x) a h ?sigs w = Inr (w', r)"
      using run b(1) sign_call [where decode = decode, OF b(3) refl dec(2)] by (auto simp: result_simps)
    then obtain y q where "sign_operation_accounts (xe_env x) a h w = Inr (y, q)"
      by (rule sign_operation_effect)
    with pda have "oi_status i = StInit \<or> oi_status i = StSigned" by (auto simp: sign_operation_accounts_effect)
    with st n(1) 2 pda(2) have m: "m = 2" "oi_status i = StSigned"
      by (auto simp: in_stage_def split: if_splits)
    with st have serves: "endpoint_serves x d h op_pda p w" "oi_op_data i = d"
      using pda(2) by (auto simp: in_stage_def)
    obtain j where "accounts w' = (accounts w)(op_pda \<mapsto> AOp j)" "oi_status j = StSigned" "oi_op_data j = oi_op_data i"
      using signed_again [OF s pda(2) m(2) pda(1)] by blast
    with endpoint_serves_update [OF serves(1)] serves(2) pda(2) m(1) show ?thesis
      by (auto simp: in_stage_def)
  next
    case 3
    then obtain a rem where "execute_operation (xe_env x) a rem h w = Inr w'"
      using run b(1) execute_call [where decode = decode, OF b(4) dec(3)] by auto
    from execute_operation_effect [OF this] pda have "oi_status i = StSigned"
      by (auto simp: execute_operation_accounts_effect)
    with st n(1) 3 pda(2) show ?thesis by (auto simp: in_stage_def split: if_splits)
  qed
qed

subsection \<open>Messages take the operation through\<close>

lemma program_ixs_append [simp]: "program_ixs (xs @ ys) = program_ixs xs @ program_ixs ys"
  by (induction xs rule: program_ixs.induct) auto

lemma program_ixs_Ix [simp]: "program_ixs (List.map (\<lambda>b. Ix (ib_instruction b)) bs) = List.map ib_instruction bs"
  by (induction bs) auto

lemma run_tx_carried:
  assumes "carries cenv ixs_of price seg m" "program_ixs price = []"
  shows "run_tx env decode (ixs_of m) w =
    (case process_ixs env decode (List.map ib_instruction seg) w of Inl e \<Rightarrow> w | Inr w' \<Rightarrow> w')"
  using assms by (auto simp: carries_def run_tx_def)

lemma segment_advances:
  assumes plan: "plan_ok x h op d decode p bs" and "in_stage x d h op_pda p n w" "seg @ rest = drop n bs" "n \<le> 3"
  shows "\<exists>w'. process_ixs (xe_env x) decode (List.map ib_instruction seg) w = Inr w' \<and>
           in_stage x d h op_pda p (n + length seg) w' \<and> n + length seg \<le> 3"
  using assms(2-4)
proof (induction seg arbitrary: n w)
  case (Cons b seg)
  have len: "length bs = 3" using plan_bundles [OF plan] by fastforce
  have n: "n < 3" using Cons.prems(2) len by (metis append_is_Nil_conv drop_eq_Nil leI list.discI)
  then have b: "b = bs ! n" "seg @ rest = drop (Suc n) bs"
    using Cons.prems(2) len by (auto simp: Cons_nth_drop_Suc [symmetric])
  obtain w1 where w1: "process_instruction (xe_env x) decode (ib_instruction b) w = Inr w1"
      "in_stage x d h op_pda p (Suc n) w1"
    using stage_advances [OF plan Cons.prems(1) n] b(1) by blast
  from Cons.IH [OF w1(2) b(2)] n w1(1) show ?case by auto
qed simp

lemma segment_repeats:
  assumes plan: "plan_ok x h op d decode p bs" and st: "in_stage x d h op_pda p m w"
    and seg: "set seg \<subseteq> set (take m bs)"
    and run: "process_ixs (xe_env x) decode (List.map ib_instruction seg) w = Inr w'"
  shows "in_stage x d h op_pda p m w'"
  using st seg run
proof (induction seg arbitrary: w)
  case (Cons b seg)
  have len: "length bs = 3" using plan_bundles [OF plan] by fastforce
  from Cons.prems(2) obtain n where n: "n < m" "n < 3" "b = bs ! n"
    using len by (auto simp: in_set_conv_nth)
  from Cons.prems(3) obtain w1 where w1: "process_instruction (xe_env x) decode (ib_instruction b) w = Inr w1"
      "process_ixs (xe_env x) decode (List.map ib_instruction seg) w1 = Inr w'"
    by (auto simp: result_simps)
  from Cons.IH [OF stage_repeats [OF plan Cons.prems(1) n(1,2)] _ w1(2)] w1(1) n(3) Cons.prems(2)
  show ?case by simp
qed simp

text \<open>Messages that carry the instructions from stage \<open>n\<close> on, sent one after the other, lead to the last stage.\<close>

lemma lands_executed:
  assumes plan: "plan_ok x h op d decode p bs" and price: "program_ixs price = []"
    and "lands (unrelated x d h op_pda) (\<lambda>m. run_tx (xe_env x) decode (ixs_of m)) seen ms w w'"
    and "list_all2 (carries cenv ixs_of price) runs ms" "concat runs = drop n bs" "n \<le> 3"
    and "in_stage x d h op_pda p n w"
    and "\<forall>m \<in> set seen. \<exists>seg. carries cenv ixs_of price seg m \<and> set seg \<subseteq> set (take n bs)"
  shows "in_stage x d h op_pda p 3 w'"
  using assms(3-)
proof (induction arbitrary: runs n rule: lands.induct)
  case (finished seen w)
  have "length bs = 3" using plan_bundles [OF plan] by fastforce
  with finished show ?case by simp
next
  case (first m seen ms w w')
  obtain seg rest where r: "runs = seg # rest" "carries cenv ixs_of price seg m"
      "list_all2 (carries cenv ixs_of price) rest ms"
    using first.prems(1) by (auto simp: list_all2_Cons2)
  then have bs: "seg @ concat rest = drop n bs" using first.prems(2) by simp
  obtain w1 where w1: "process_ixs (xe_env x) decode (List.map ib_instruction seg) w = Inr w1"
      "in_stage x d h op_pda p (n + length seg) w1" "n + length seg \<le> 3"
    using segment_advances [OF plan first.prems(4) bs first.prems(3)] by blast
  have rest: "concat rest = drop (n + length seg) bs"
    using bs by (metis add.commute append_eq_conv_conj drop_drop)
  have seg: "set seg \<subseteq> set (take (n + length seg) bs)"
    using bs by (metis append_eq_conv_conj set_append take_add Un_upper2)
  have mono: "set (take n bs) \<subseteq> set (take (n + length seg) bs)"
    by (rule set_take_subset_set_take) simp
  have seen: "\<exists>s. carries cenv ixs_of price s m' \<and> set s \<subseteq> set (take (n + length seg) bs)"
    if "m' \<in> set (m # seen)" for m'
    using that first.prems(5) seg r(2) mono by (metis set_ConsD subset_trans)
  show ?case
    by (rule first.IH [OF r(3) rest w1(3)]) (use w1 seen run_tx_carried [OF r(2) price, of "xe_env x" decode w] in simp_all)
next
  case (again m seen ms w w')
  then obtain seg where seg: "carries cenv ixs_of price seg m" "set seg \<subseteq> set (take n bs)" by blast
  have "in_stage x d h op_pda p n (run_tx (xe_env x) decode (ixs_of m) w)"
    unfolding run_tx_carried [OF seg(1) price]
    using segment_repeats [OF plan again.prems(4) seg(2)] again.prems(4) by (auto split: sum.split)
  then show ?case using again.IH again.prems by blast
next
  case (other w w1 seen ms w')
  show ?case using other.IH other.prems unrelated_stage [OF other.hyps(1)] by blast
qed

subsection \<open>The executor drives an operation\<close>

definition COMPUTE_UNIT_PRICE_LAMPORTS :: u64 where "COMPUTE_UNIT_PRICE_LAMPORTS = 1000"

text \<open>
  The call of \<^verbatim>\<open>send_all_instructions\<close> in \<^verbatim>\<open>process_operation\<close>: signed and paid by the executor, one message at
  a time, without lookup tables and without finalization.
\<close>

definition send_operation ::
    "'b compiler_env \<Rightarrow> ('b, 't, 's, 'h) net \<Rightarrow> 'x executor \<Rightarrow> instruction_bundle list \<Rightarrow> nat
     \<Rightarrow> ((tx_fault + unit) \<times> ('b \<times> (transactor_error + unit)) list) option" where
  "send_operation cenv net x bs k =
     send_all_instructions cenv net (xe_payer x) (Some COMPUTE_UNIT_PRICE_LAMPORTS) [] bs False k"

text \<open>The sends of the loop are those calls, the \<open>k\<close>-th turn's from the network's question \<open>q k\<close> on.\<close>

definition sends_with ::
    "'b compiler_env \<Rightarrow> ('b, 't, 's, 'h) net \<Rightarrow> 'x executor \<Rightarrow> (nat \<Rightarrow> nat) \<Rightarrow> (nat \<Rightarrow> turn) \<Rightarrow> bool" where
  "sends_with cenv net x q turns \<longleftrightarrow>
     (\<forall>k bs. case send_operation cenv net x bs (q k) of
        Some (Inr u, _) \<Rightarrow> tn_send (turns k) bs = Inr ()
      | Some (Inl (TxErr e), _) \<Rightarrow> tn_send (turns k) bs = Inl e
      | _ \<Rightarrow> True)"

fun stage_status :: "nat \<Rightarrow> executor_op_status" where
  "stage_status n = (if n = 0 then ENew else if n = 1 then ELoaded else if n = 2 then ESigned else EExecuted)"

lemma stage_read:
  assumes "in_stage x d h op_pda p n (w k)" "n \<le> 3" "reads_chain x h turns ser w"
  shows "get_op_status x h (tn_account (turns k)) = Inr (stage_status n)"
proof -
  have "\<exists>b. env_find_pda (xe_env x) [ROOT, str ''OP'', h] (env_photon_id (xe_env x)) = Some (op_pda, b)"
    using assms(1) by (auto simp: in_stage_def endpoint_ready_def endpoint_serves_def Let_def split: if_splits)
  then have "tn_account (turns k) = map_option ser (accounts (w k) op_pda)"
    "\<And>a. accounts (w k) op_pda = Some a \<Longrightarrow> xe_deserialize x (ser a) = op_of a"
    "\<exists>b. env_find_pda (xe_env x) [ROOT, str ''OP'', h] (env_photon_id (xe_env x)) = Some (op_pda, b)"
    using assms(3) by (auto simp: reads_chain_def)
  then show ?thesis
    using assms(1,2)
    by (auto simp: get_op_status_def result_simps in_stage_def endpoint_ready_def loaded_op_def split: if_splits)
qed

lemma executed_read:
  assumes "reads_chain x h turns ser w" "status_of (xe_env x) (w k) h = StExecuted"
  shows "get_op_status x h (tn_account (turns k)) = Inr EExecuted"
proof -
  obtain op_pda b where o: "env_find_pda (xe_env x) [ROOT, str ''OP'', h] (env_photon_id (xe_env x)) = Some (op_pda, b)"
      "tn_account (turns k) = map_option ser (accounts (w k) op_pda)"
      "\<And>a. accounts (w k) op_pda = Some a \<Longrightarrow> xe_deserialize x (ser a) = op_of a"
    using assms(1) unfolding reads_chain_def by blast
  obtain i where "accounts (w k) op_pda = Some (AOp i)" "oi_status i = StExecuted"
    using assms(2) o(1) by (auto simp: status_of_def ops_Some split: option.splits)
  with o show ?thesis by (auto simp: get_op_status_def result_simps)
qed

lemma stage_build:
  assumes "plan_ok x h op d decode p bs" "n < 3"
  shows "build_ixs x h op (stage_status n) = Inr (drop n bs)"
proof -
  obtain l s e where b: "bs = [l, s, e]" "build_load_ix x h (so_operation_data op) = Inr l"
      "build_sign_tx x h op = Inr s" "build_execute_tx x h (so_operation_data op) = Inr e"
    using plan_bundles [OF assms(1)] .
  consider "n = 0" | "n = 1" | "n = 2" using assms(2) by linarith
  then show ?thesis by cases (simp_all add: b build_ixs_def)
qed

lemma send_operation_completes:
  assumes "healthy net" "compile_all cenv (xe_payer x) (Some COMPUTE_UNIT_PRICE_LAMPORTS) [] bs = Inr messages"
  shows "\<exists>outcomes. send_operation cenv net x bs k = Some (Inr (), outcomes)"
proof -
  obtain k' where "send_each net messages False k = Some (List.map (\<lambda>m. (m, Inr ())) messages, k')"
    using send_each_completes [of net messages False k] healthy_sends [OF assms(1)] by metis
  with assms(2) show ?thesis by (simp add: send_operation_def send_all_instructions_def)
qed

lemma drives_operation:
  assumes plan: "plan_ok x h op d decode p bs" and start: "in_stage x d h op_pda p n (w 0)" "n < 3"
    and packed: "compiler_ok cenv ixs_of"
      "compile_all cenv (xe_payer x) (Some COMPUTE_UNIT_PRICE_LAMPORTS) [] (drop n bs) = Inr messages"
    and sent: "healthy net" "sends_with cenv net x q turns"
    and chain: "reads_chain x h turns ser w" "cpi_ok (xe_env x)" "op_pda_inj (xe_env x)"
      "lands (unrelated x d h op_pda) (\<lambda>m. run_tx (xe_env x) decode (ixs_of m)) [] messages (w 0) w1"
      "chain_steps (xe_env x) w1 (w 1)"
    and balance: "tn_balance_ok (turns 0)" "tn_balance_ok (turns 1)"
  shows "process_operation x h op turns = Some ([ack_executed op h EExecuted], Inr ())
    \<and> status_of (xe_env x) (w 1) h = StExecuted"
proof -
  obtain outcomes where "send_operation cenv net x (drop n bs) (q 0) = Some (Inr (), outcomes)"
    using send_operation_completes [OF sent(1) packed(2)] by blast
  then have send: "tn_send (turns 0) (drop n bs) = Inr ()"
    using sent(2) unfolding sends_with_def by (metis (mono_tags, lifting) case_prod_conv option.case(2) sum.case(2))
  obtain runs where runs: "concat runs = drop n bs"
      "list_all2 (carries cenv ixs_of [SetComputeUnitPrice COMPUTE_UNIT_PRICE_LAMPORTS]) runs messages"
    using compile_all_runs [OF packed] by auto
  have "in_stage x d h op_pda p 3 w1"
    by (rule lands_executed [OF plan _ chain(4) runs(2,1) _ start(1)]) (use start(2) in simp_all)
  then have "status_of (xe_env x) w1 h = StExecuted"
    by (auto simp: in_stage_def dest: status_of_op)
  then have ex: "status_of (xe_env x) (w 1) h = StExecuted"
    using chain_steps_status [OF chain(5,2,3), of h] by simp
  have first: "get_op_status x h (tn_account (turns 0)) = Inr (stage_status n)"
    using stage_read [OF start(1) _ chain(1)] start(2) by simp
  have second: "get_op_status x h (tn_account (turns 1)) = Inr EExecuted"
    by (rule executed_read [OF chain(1) ex])
  have "process_loop x h op turns (Suc 0) (Some (stage_status n), 0) = Some ([ack_executed op h EExecuted], Inr ())"
    using start(2) second balance(2) by (subst process_loop_body) (auto simp: observe_def)
  then have "process_operation x h op turns = Some ([ack_executed op h EExecuted], Inr ())"
    using start(2) first balance(1) stage_build [OF plan start(2)] send
    unfolding process_operation_def by (subst process_loop_body) (auto simp: observe_def Let_def)
  with ex show ?thesis by simp
qed

text \<open>C23: The executor drives an operation to its execution. Let an operation that the executor can take through
  (\<open>plan_ok\<close>: its instructions can be built, its signatures suffice, the call of its program succeeds) be new,
  loaded without a recorded signer, or signed (stage \<open>n\<close>) when it is read. Its remaining instructions are built, packed into
  messages and sent; let the network answer, and let the messages land, each at least once, transactions of
  the earlier ones again at any time, and unrelated transactions in between. Then the loop ends after its next
  reading, with the report \<^verbatim>\<open>Executed\<close>, and the operation is executed on the chain.\<close>

theorem executor_drives_operation:
  assumes "plan_ok x h op d decode p bs" and "in_stage x d h op_pda p n (w 0)" "n < 3"
    and "compiler_ok cenv ixs_of"
      "compile_all cenv (xe_payer x) (Some COMPUTE_UNIT_PRICE_LAMPORTS) [] (drop n bs) = Inr messages"
    and "healthy net" "sends_with cenv net x q turns"
    and "reads_chain x h turns ser w" "cpi_ok (xe_env x)" "op_pda_inj (xe_env x)"
      "lands (unrelated x d h op_pda) (\<lambda>m. run_tx (xe_env x) decode (ixs_of m)) [] messages (w 0) w1"
      "chain_steps (xe_env x) w1 (w 1)"
    and "tn_balance_ok (turns 0)" "tn_balance_ok (turns 1)"
  shows "process_operation x h op turns = Some ([ack_executed op h EExecuted], Inr ())
    \<and> status_of (xe_env x) (w 1) h = StExecuted"
  by (rule drives_operation [OF assms])

subsection \<open>A run\<close>

lemma process_instruction_step:
  assumes "process_instruction env decode i w = Inr w'"
  shows "chain_step env w w'"
proof -
  obtain args c where "entry_call args (List.map info_of (ix_accounts i)) = Some c" "exec_call env c w = Inr w'"
    using assms by (auto simp: process_instruction_def result_simps)
  moreover from this(1) have "call_typed c" by (auto elim!: entry_call.elims)
  ultimately show ?thesis by (auto simp: chain_step_def)
qed

lemma process_ixs_steps: "process_ixs env decode is w = Inr w' \<Longrightarrow> chain_steps env w w'"
proof (induction "is" arbitrary: w)
  case (Cons i "is")
  then show ?case
    by (auto simp: result_simps chain_steps_def
        intro: converse_rtranclp_into_rtranclp process_instruction_step)
qed (simp add: chain_steps_def)

lemma run_tx_steps: "chain_steps env w (run_tx env decode ixs w)"
  using process_ixs_steps [of env decode "program_ixs ixs" w]
  by (auto simp: run_tx_def chain_steps_def split: sum.split)

text \<open>The messages landing one after the other, and nothing else.\<close>

lemma lands_fold: "lands others run seen ms w (fold run ms w)"
  by (induction ms arbitrary: seen w) (auto intro: lands.intros)

lemma fold_run_steps: "chain_steps env w (fold (\<lambda>m. run_tx env decode (ixs_of m)) ms w)"
proof (induction ms arbitrary: w)
  case (Cons m ms)
  show ?case
    using run_tx_steps [of env w decode "ixs_of m"] Cons.IH [of "run_tx env decode (ixs_of m) w"]
    by (auto simp: chain_steps_def)
qed (simp add: chain_steps_def)

definition chain_executor :: "op_info option \<Rightarrow> unit executor" where
  "chain_executor i = sample_executor\<lparr>xe_deserialize := (\<lambda>_. i)\<rparr>"

lemma chain_executor_sel [simp]:
  "xe_env (chain_executor i) = sample_env" "xe_payer (chain_executor i) = key 4"
  "xe_extensions (chain_executor i) = [gov_protocol_id \<mapsto> gov_extension sample_env]"
  "xe_encode (chain_executor i) = xe_encode sample_executor" "xe_deserialize (chain_executor i) data = i"
  by (simp_all add: chain_executor_def sample_executor_def)

lemma sample_plan:
  "\<exists>bs. \<forall>i. plan_ok (chain_executor i) hash_1 signed_gov op_1 sample_decode gov_info_1 bs"
proof -
  obtain bs where "build_ixs sample_executor hash_1 signed_gov ENew = Inr bs" using sample_build by blast
  moreover have "build_ixs (chain_executor i) hash_1 signed_gov ENew = build_ixs sample_executor hash_1 signed_gov ENew" for i
    by (simp add: build_ixs_def build_load_ix_def build_sign_tx_def build_execute_tx_def photon_address_def
        photon_bundle_def chain_executor_def Let_def del: chain_executor_sel cong: if_cong)
  moreover have "operation_fits (chain_executor i) op_1 hash_1 gov_info_1" for i
    using sample_fits [of op_1] op_1_hash by (simp add: operation_fits_def op_1_def chain_executor_def)
  moreover have "List.map signature_into (so_signatures signed_gov) = [sig_1]" "so_operation_data signed_gov = t_gov"
    by (simp_all add: signed_gov_def signature_into_def sig_1_def)
  moreover have "signatures_suffice (chain_executor i) hash_1 [sig_1] gov_info_1" for i
    using sample_suffice by (simp add: signatures_suffice_def sample_executor_def)
  moreover have "call_succeeds (chain_executor i) t_gov" for i
    using sample_call [of t_gov] by (simp add: call_succeeds_def sample_executor_def t_gov_def)
  ultimately show ?thesis
    using t_gov_converts
    by (intro exI [of _ bs]) (simp add: plan_ok_def, simp add: sample_executor_def sample_decode_def)
qed

lemma sample_healthy: "healthy sample_net"
  by (auto simp: healthy_def sample_net_def)

definition chain_messages :: "instruction_bundle list \<Rightarrow> tx_fault + tx_ix list list" where
  "chain_messages bs = compile_all sample_compiler (key 4) (Some COMPUTE_UNIT_PRICE_LAMPORTS) [] bs"

lemma sample_packed:
  assumes "plan_ok (chain_executor i) hash_1 signed_gov op_1 sample_decode gov_info_1 bs"
  shows "\<exists>messages. chain_messages bs = Inr messages"
proof -
  obtain l s e where b: "bs = [l, s, e]" "build_load_ix (chain_executor i) hash_1 (so_operation_data signed_gov) = Inr l"
      "build_sign_tx (chain_executor i) hash_1 signed_gov = Inr s"
      "build_execute_tx (chain_executor i) hash_1 (so_operation_data signed_gov) = Inr e"
    using plan_bundles [OF assms] .
  then have "ib_compute_units l = 200000" "ib_compute_units s = 400000" "ib_compute_units e = 400000"
    by (auto simp: build_load_ix_def build_sign_tx_def build_execute_tx_def photon_bundle_def result_simps Let_def
        get_extension_def gov_extension_def signed_gov_def t_gov_def split: if_splits)
  then show ?thesis by (simp add: b(1) chain_messages_def compile_run_simps COMPUTE_UNIT_PRICE_LAMPORTS_def)
qed

definition chain_turns :: "unit executor \<Rightarrow> nat \<Rightarrow> turn" where
  "chain_turns x k =
     \<lparr>tn_balance_ok = True, tn_account = (if k = 0 then None else Some [3]),
      tn_send = (\<lambda>bs. case send_operation sample_compiler (sample_net :: (tx_ix list, nat, nat, nat) net) x bs 0 of
        Some (Inl (TxErr e), _) \<Rightarrow> Inl e | _ \<Rightarrow> Inr ())\<rparr>"

definition chain_worlds :: "tx_ix list list \<Rightarrow> nat \<Rightarrow> unit world" where
  "chain_worlds messages k =
     (if k = 0 then w_init else fold (\<lambda>m. run_tx sample_env sample_decode m) messages w_init)"

definition chain_outcome :: "tx_ix list list \<Rightarrow> unit executor" where
  "chain_outcome messages =
     chain_executor (Option.bind (accounts (chain_worlds messages 1) (op_key hash_1)) op_of)"

lemma sample_sends_with:
  "sends_with sample_compiler (sample_net :: (tx_ix list, nat, nat, nat) net) x (\<lambda>_. 0) (chain_turns x)"
  by (auto simp: sends_with_def chain_turns_def split: option.splits sum.splits tx_fault.splits)

lemma sample_start: "in_stage (chain_executor i) op_1 hash_1 (op_key hash_1) gov_info_1 0 w_init"
  using sample_ready [of op_1]
  by (simp add: in_stage_def endpoint_ready_def endpoint_serves_def op_1_def chain_executor_def)

lemma sample_landed:
  assumes plan: "plan_ok (chain_executor i) hash_1 signed_gov op_1 sample_decode gov_info_1 bs"
    and packed: "chain_messages bs = Inr messages"
  shows "in_stage (chain_executor i) op_1 hash_1 (op_key hash_1) gov_info_1 3 (chain_worlds messages 1)"
proof -
  obtain runs where runs: "concat runs = bs"
      "list_all2 (carries sample_compiler (\<lambda>m. m) [SetComputeUnitPrice COMPUTE_UNIT_PRICE_LAMPORTS]) runs messages"
    using compile_all_runs [OF sample_compiler_ok packed [unfolded chain_messages_def]] by auto
  have "lands (unrelated (chain_executor i) op_1 hash_1 (op_key hash_1)) (\<lambda>m. run_tx sample_env sample_decode m) []
      messages w_init (chain_worlds messages 1)"
    using lands_fold by (simp add: chain_worlds_def)
  from lands_executed [OF plan _ this [folded chain_executor_sel(1) [of i]] runs(2) _ _ sample_start] runs(1)
  show ?thesis by simp
qed

lemma sample_reads:
  assumes plan: "\<forall>i. plan_ok (chain_executor i) hash_1 signed_gov op_1 sample_decode gov_info_1 bs"
    and packed: "chain_messages bs = Inr messages"
  shows "reads_chain (chain_outcome messages) hash_1 (chain_turns x) (\<lambda>_. [3]) (chain_worlds messages)"
proof -
  obtain i where i: "accounts (chain_worlds messages 1) (op_key hash_1) = Some (AOp i)"
    using sample_landed [OF spec [OF plan] packed, of None] by (auto simp: in_stage_def)
  have w: "chain_worlds messages 0 = w_init" "chain_worlds messages (Suc k) = chain_worlds messages 1" for k
    by (simp_all add: chain_worlds_def)
  have "chain_steps sample_env w_init (chain_worlds messages 1)"
    using fold_run_steps [of sample_env w_init sample_decode "\<lambda>m. m" messages] by (simp add: chain_worlds_def)
  then have steps: "chain_steps sample_env (chain_worlds messages k) (chain_worlds messages (Suc k))" for k
    by (cases k) (simp_all only: w, simp add: chain_steps_def)
  have "accounts w_init (op_key hash_1) = None" by (simp add: w_init_def)
  then have "tn_account (chain_turns x k) = map_option (\<lambda>_. [3]) (accounts (chain_worlds messages k) (op_key hash_1))
      \<and> (\<forall>a. accounts (chain_worlds messages k) (op_key hash_1) = Some a \<longrightarrow>
           xe_deserialize (chain_outcome messages) [3] = op_of a)" for k
    using i by (cases k) (simp_all add: w chain_turns_def chain_outcome_def del: One_nat_def)
  with steps show ?thesis by (simp add: reads_chain_def chain_outcome_def)
qed

text \<open>The executor, the sender and the endpoint on the sample operation.\<close>

lemma sample_run:
  "\<exists>bs messages.
     plan_ok (chain_outcome messages) hash_1 signed_gov op_1 sample_decode gov_info_1 bs \<and>
     chain_messages bs = Inr messages \<and>
     reads_chain (chain_outcome messages) hash_1 (chain_turns (chain_outcome messages)) (\<lambda>_. [3]) (chain_worlds messages)"
proof -
  obtain bs where plan: "\<forall>i. plan_ok (chain_executor i) hash_1 signed_gov op_1 sample_decode gov_info_1 bs"
    using sample_plan by blast
  obtain messages where m: "chain_messages bs = Inr messages" using sample_packed [OF spec [OF plan]] by blast
  show ?thesis using plan m sample_reads [OF plan m] by (auto simp: chain_outcome_def)
qed

lemma chain_outcome_sel [simp]:
  "xe_env (chain_outcome messages) = sample_env" "xe_payer (chain_outcome messages) = key 4"
  by (simp_all add: chain_outcome_def)

lemma sample_lands:
  "in_stage (chain_outcome messages) op_1 hash_1 (op_key hash_1) gov_info_1 0 (chain_worlds messages 0)"
  "lands (unrelated (chain_outcome messages) op_1 hash_1 (op_key hash_1))
     (\<lambda>m. run_tx (xe_env (chain_outcome messages)) sample_decode m) [] messages (chain_worlds messages 0)
     (chain_worlds messages 1)"
  "tn_balance_ok (chain_turns x k)"
  using sample_start lands_fold by (simp_all add: chain_outcome_def chain_worlds_def chain_turns_def)

lemma sample_process:
  assumes plan: "plan_ok (chain_outcome messages) hash_1 signed_gov op_1 sample_decode gov_info_1 bs"
    and packed: "chain_messages bs = Inr messages"
    and reads: "reads_chain (chain_outcome messages) hash_1 (chain_turns (chain_outcome messages)) (\<lambda>_. [3])
      (chain_worlds messages)"
  shows "process_operation (chain_outcome messages) hash_1 signed_gov (chain_turns (chain_outcome messages)) =
     Some ([ack_executed signed_gov hash_1 EExecuted], Inr ())"
  using drives_operation [OF plan sample_lands(1) _ sample_compiler_ok _ sample_healthy sample_sends_with reads _ _
      sample_lands(2)] packed sample_cpi_ok sample_op_pda_inj sample_lands(3)
  by (simp add: chain_messages_def chain_steps_def)

lemma executor_drives_operation_witness:
  "\<exists>messages. process_operation (chain_outcome messages) hash_1 signed_gov (chain_turns (chain_outcome messages)) =
     Some ([ack_executed signed_gov hash_1 EExecuted], Inr ())"
proof -
  obtain bs messages where
    plan: "plan_ok (chain_outcome messages) hash_1 signed_gov op_1 sample_decode gov_info_1 bs" and
    packed: "chain_messages bs = Inr messages" and
    reads: "reads_chain (chain_outcome messages) hash_1 (chain_turns (chain_outcome messages)) (\<lambda>_. [3])
      (chain_worlds messages)"
    using sample_run by blast
  from executor_drives_operation [OF plan sample_lands(1) _ sample_compiler_ok _ sample_healthy sample_sends_with reads
      _ _ sample_lands(2)] packed sample_cpi_ok sample_op_pda_inj sample_lands(3)
  show ?thesis by (auto simp: chain_messages_def chain_steps_def)
qed

lemma executor_reports_are_true_witness:
  "\<exists>messages j. \<forall>k \<ge> j. count_list (op_trace hash_1 (events (chain_worlds messages k))) E = 1"
proof -
  obtain bs messages where
    plan: "plan_ok (chain_outcome messages) hash_1 signed_gov op_1 sample_decode gov_info_1 bs" and
    packed: "chain_messages bs = Inr messages" and
    reads: "reads_chain (chain_outcome messages) hash_1 (chain_turns (chain_outcome messages)) (\<lambda>_. [3])
      (chain_worlds messages)"
    using sample_run by blast
  have run: "process_operation (chain_outcome messages) hash_1 signed_gov (chain_turns (chain_outcome messages)) =
     Some ([ack_executed signed_gov hash_1 EExecuted], Inr ())"
    by (rule sample_process [OF plan packed reads])
  have "reachable (xe_env (chain_outcome messages)) (chain_worlds messages 0)"
    using reachable_init by (simp add: chain_worlds_def)
  from executor_reports_are_true [OF run reads this] sample_cpi_ok sample_op_pda_inj
  show ?thesis by (auto simp: ack_executed_def)
qed

end
