(* ===== verification/Unit_Tests.thy ===== *)
theory Unit_Tests
  imports Event_Wire Op_Registry Test_Publisher
begin

section \<open>The repository's unit tests on the model\<close>

text \<open>
  The tests at the end of \<^verbatim>\<open>parse_logs.rs\<close>, \<^verbatim>\<open>last_block_updater.rs\<close> and the test publisher's \<^verbatim>\<open>main.rs\<close>, as executable predicates that run the
  definitions of the model and check what the tests assert. The recorded logs are evaluated with the real
  encodings; the registry's tests hold for all hashes and for all clock readings that the pauses allow, the
  hash tests for every 32-byte hash function and every transaction id.
\<close>

subsection \<open>Parsing recorded logs\<close>

definition photon_id :: string where
  "photon_id = ''pccm961CjaR7T7Hcht9omrXQb9w54ntJo95FFT7N9AJ''"

definition sample_logs :: "string list" where
  "sample_logs =
     [''Program EjpcUpcuJV2Mq9vjELMZHhgpvJ4ggoWtUYCTFqw6D9CZ invoke [1]'',
      ''Program log: Instruction: ShareMessage'',
      ''Program log: Share message invoked'',
      ''Program pccm961CjaR7T7Hcht9omrXQb9w54ntJo95FFT7N9AJ invoke [2]'',
      ''Program log: Instruction: Propose'',
      ''Program data: 8vb9LnW1kqUgAAAAb25lZnVuY19fX19fX19fX19fX19fX19fX19fX19fX18IAAAAAAAAAG2BAAAAAAAAAAAAAAAAAAADAAAAAQIDAwAAAAECAwMAAAABAgM='',
      ''Program pccm961CjaR7T7Hcht9omrXQb9w54ntJo95FFT7N9AJ consumed 16408 of 181429 compute units'',
      ''Program pccm961CjaR7T7Hcht9omrXQb9w54ntJo95FFT7N9AJ success'',
      ''Program EjpcUpcuJV2Mq9vjELMZHhgpvJ4ggoWtUYCTFqw6D9CZ consumed 35308 of 200000 compute units'',
      ''Program EjpcUpcuJV2Mq9vjELMZHhgpvJ4ggoWtUYCTFqw6D9CZ success'']"

definition test_logs_parsing :: "parse_fault + propose_event list \<Rightarrow> bool" where
  "test_logs_parsing res =
     (case res of
        Inr [e] \<Rightarrow>
          pe_dst_chain_id e = 33133 \<and> pe_params e = [1, 2, 3]
          \<and> pe_protocol_id e = str ''onefunc_________________________''
      | _ \<Rightarrow> False)"

definition deploy_logs :: "string list" where
  "deploy_logs =
     [''Program 11111111111111111111111111111111 invoke [1]'',
      ''Program 11111111111111111111111111111111 success'',
      ''Program BPFLoaderUpgradeab1e11111111111111111111111 invoke [1]'',
      ''Program 11111111111111111111111111111111 invoke [2]'',
      ''Program 11111111111111111111111111111111 success'',
      ''Deployed program 3cAFEXstVzff2dXH8PFMgm81h8sQgpdskFGZqqoDgQkJ'',
      ''Program BPFLoaderUpgradeab1e11111111111111111111111 success'']"

definition test_deploy_programs :: "parse_fault + propose_event list \<Rightarrow> bool" where
  "test_deploy_programs res = (res = Inr [])"

lemma deploy_logs_parse: "test_deploy_programs (parse_logs propose_log_env deploy_logs photon_id)"
  by code_simp

text \<open>The event that the recorded data line carries, and its bytes.\<close>

definition recorded_event :: propose_event where
  "recorded_event =
     \<lparr>pe_protocol_id = str ''onefunc_________________________'', pe_nonce = 8, pe_dst_chain_id = 33133,
      pe_protocol_address = [1, 2, 3], pe_function_selector = [1, 2, 3], pe_params = [1, 2, 3]\<rparr>"

lemma be_bytes_numeral:
  "be_bytes (numeral k) n = be_bytes (pred_numeral k) (n div 256) @ [word_of_nat n]"
  by (simp only: numeral_eq_Suc [of k] be_bytes.simps)

lemma recorded_bytes:
  "propose_serialize recorded_event =
     [32, 0, 0, 0, 111, 110, 101, 102, 117, 110, 99, 95, 95, 95, 95, 95, 95, 95, 95, 95, 95, 95, 95, 95, 95, 95,
      95, 95, 95, 95, 95, 95, 95, 95, 95, 95, 8, 0, 0, 0, 0, 0, 0, 0, 109, 129, 0, 0, 0, 0, 0, 0, 0, 0, 0, 0, 0,
      0, 0, 0, 3, 0, 0, 0, 1, 2, 3, 3, 0, 0, 0, 1, 2, 3, 3, 0, 0, 0, 1, 2, 3]"
  by (simp add: propose_serialize_def recorded_event_def borsh_vec_def borsh_u64_def borsh_u128_def borsh_uint_def
      str_def be_bytes_numeral)

lemma recorded_text:
  "base64_encode (propose_discriminator @ propose_serialize recorded_event) =
     ''8vb9LnW1kqUgAAAAb25lZnVuY19fX19fX19fX19fX19fX19fX19fX19fX18IAAAAAAAAAG2BAAAAAAAAAAAAAAAAAAADAAAAAQIDAwAAAAECAwMAAAABAgM=''"
  by (simp add: recorded_bytes propose_discriminator_def sextets_digits of_be_bytes_def sextet_def alphabet_def)

abbreviation caller :: string where
  "caller \<equiv> ''EjpcUpcuJV2Mq9vjELMZHhgpvJ4ggoWtUYCTFqw6D9CZ''"

text \<open>The third line is a message that the parser takes for an invocation: it puts \<open>log: Share message\<close> on its stack,
  where it stays until the return of the caller takes it off. Here this does no harm.\<close>

lemma sample_captures:
  "List.map invoke_capture sample_logs =
     [Some caller, None, Some ''log: Share message'', Some photon_id, None, None, None, None, None, None]"
  by code_simp

lemma sample_pops:
  "List.map (\<lambda>l. snd (handle_irrelevant_log photon_id l)) sample_logs =
     [False, False, False, False, False, False, False, True, False, True]"
  by code_simp

lemma sample_payloads:
  "List.map log_payload (take 5 (drop 3 sample_logs)) =
     [None, Some ''Instruction: Propose'',
      Some (base64_encode (propose_discriminator @ propose_serialize recorded_event)), None, None]"
  unfolding recorded_text by code_simp

lemma no_base64: "base64_decode ''Instruction: Propose'' = None"
  by (simp add: of_sextet_def Let_def)

lemma recorded_fits: "propose_fits recorded_event"
  by (simp add: propose_fits_def recorded_event_def)

lemma sample_logs_parse:
  "parse_logs propose_log_env sample_logs photon_id = Inr [recorded_event]"
proof -
  have wire: "base64_decode (base64_encode (propose_discriminator @ propose_serialize recorded_event)) =
      Some (propose_discriminator @ propose_serialize recorded_event)"
    and event: "propose_deserialize (propose_serialize recorded_event) = Some recorded_event"
    and other: "caller \<noteq> photon_id" "''log: Share message'' \<noteq> photon_id"
    using propose_codec.dec_enc [OF recorded_fits] by (simp_all add: photon_id_def)
  have "length propose_discriminator = 8" by (simp add: propose_discriminator_def)
  with wire event other show ?thesis
    using sample_captures sample_pops sample_payloads no_base64
    by (simp add: sample_logs_def parse_logs_def update_def program_def push_def pop_def handle_program_log_def
        propose_log_env_def result_simps)
qed

lemma recorded_transactions_parse:
  "test_logs_parsing (parse_logs propose_log_env sample_logs photon_id)
   \<and> test_deploy_programs (parse_logs propose_log_env deploy_logs photon_id)"
  using deploy_logs_parse by (simp add: sample_logs_parse test_logs_parsing_def recorded_event_def)

subsection \<open>The registry of blocks\<close>

text \<open>A test is a list of acknowledgements and expected answers, each made at its clock reading of \<open>ts\<close>.\<close>

datatype test_step = Ack op_acknowledge | ExpectBlock "u64 option"

fun passes :: "nat list \<Rightarrow> test_step list \<Rightarrow> op_registry \<Rightarrow> bool" where
  "passes ts [] r = True"
| "passes (now # ts) (Ack a # steps) r = passes ts steps (on_acknowledge now a r)"
| "passes (now # ts) (ExpectBlock b # steps) r =
     (case get_block_to_ack now r of (block, r') \<Rightarrow> block = b \<and> passes ts steps r')"
| "passes [] (step # steps) r = False"

definition new_ack :: "u64 \<Rightarrow> bytes \<Rightarrow> executor_op_status \<Rightarrow> test_step" where
  "new_ack block h status = Ack \<lparr>oa_block_number = block, oa_op_hash = h, oa_status = status\<rparr>"

definition test_op_registry_single_op_gets_executed :: "bytes \<Rightarrow> nat list \<Rightarrow> bool" where
  "test_op_registry_single_op_gets_executed h ts =
     passes ts
       [new_ack 1 h ENew, ExpectBlock None, new_ack 1 h EExecuted, ExpectBlock None, ExpectBlock (Some 1)]
       (op_registry_new 100)"

definition test_op_registry_one_out_of_few_gets_executed :: "bytes \<Rightarrow> bytes \<Rightarrow> nat list \<Rightarrow> bool" where
  "test_op_registry_one_out_of_few_gets_executed h1 h2 ts =
     passes ts
       [new_ack 1 h1 ENew, new_ack 1 h2 ENew, ExpectBlock None, new_ack 1 h2 EExecuted, ExpectBlock None,
        ExpectBlock None]
       (op_registry_new 100)"

definition test_op_undetermined_execution :: "bytes \<Rightarrow> bytes \<Rightarrow> bytes \<Rightarrow> bytes \<Rightarrow> nat list \<Rightarrow> bool" where
  "test_op_undetermined_execution h1 h21 h22 h3 ts =
     passes ts
       [new_ack 1 h1 ENew, new_ack 2 h21 ENew, new_ack 2 h22 ENew, new_ack 3 h3 ENew, ExpectBlock None,
        new_ack 3 h3 EExecuted, new_ack 2 h21 EExecuted, ExpectBlock None, new_ack 1 h1 EExecuted,
        ExpectBlock (Some 1), ExpectBlock None, new_ack 2 h22 EExecuted, ExpectBlock (Some 3), ExpectBlock None]
       (op_registry_new 100)"

lemmas registry_steps =
  new_ack_def op_registry_new_def on_acknowledge_def on_new_operation_def on_executed_operation_def
  get_block_to_ack_def ack_loop.simps bm_first_def bm_pop_def

lemma registry_single:
  "t3 \<le> t0 + 100 \<Longrightarrow> t0 + 100 < t4 \<Longrightarrow> test_op_registry_single_op_gets_executed h [t0, t1, t2, t3, t4]"
  by (auto simp: test_op_registry_single_op_gets_executed_def registry_steps)

lemma registry_one_of_few:
  "h1 \<noteq> h2 \<Longrightarrow> test_op_registry_one_out_of_few_gets_executed h1 h2 [t0, t1, t2, t3, t4, t5]"
  by (simp add: test_op_registry_one_out_of_few_gets_executed_def registry_steps)

lemma registry_undetermined:
  assumes "h21 \<noteq> h22" "t0 + 100 < t9" "t1 + 100 < t12" "t3 + 100 < t12"
  shows "test_op_undetermined_execution h1 h21 h22 h3 [t0, t1, t2, t3, t4, t5, t6, t7, t8, t9, t10, t11, t12, t13]"
proof -
  have "{h22, h21} - {h21} - {h22} = {}" "100 < t9 - t0" "100 < t12 - t1" "100 < t12 - t3"
    using assms by auto
  with assms(1) show ?thesis by (simp add: test_op_undetermined_execution_def registry_steps)
qed

subsection \<open>The hash of an operation on both sides\<close>

text \<open>The operation of the two tests, its hash by the transmitter and, converted, by the program.\<close>

definition hash_test_data :: "network \<Rightarrow> bytes \<Rightarrow> bytes \<Rightarrow> bytes \<Rightarrow> t_operation_data" where
  "hash_test_data net onefunc_id tx_id selector =
     \<lparr>td_protocol_id = PROTOCOL_ID, td_meta = replicate 32 1, td_src_chain_id = SOLANA_CHAIN_ID net,
      td_src_block_number = 1, td_src_op_tx_id = tx_id, td_nonce = 1, td_dest_chain_id = SOLANA_CHAIN_ID net,
      td_protocol_addr = onefunc_id, td_function_selector = selector, td_params = [], td_reserved = []\<rparr>"

definition hashes_match :: "(bytes \<Rightarrow> bytes) \<Rightarrow> t_operation_data \<Rightarrow> bool" where
  "hashes_match kec v =
     (case t_op_hash_with_message kec v of
        Inl _ \<Rightarrow> False
      | Inr op_hash_module \<Rightarrow>
          (case operation_try_from v of
             Inl _ \<Rightarrow> False
           | Inr d \<Rightarrow> op_hash_with_message kec d = Inr op_hash_module))"

definition test_op_hash_by_name_matches :: "(bytes \<Rightarrow> bytes) \<Rightarrow> network \<Rightarrow> bytes \<Rightarrow> bytes \<Rightarrow> bool" where
  "test_op_hash_by_name_matches kec net onefunc_id tx_id \<longleftrightarrow>
     hashes_match kec (hash_test_data net onefunc_id tx_id ([1, 0x12] @ str ''init_owned_counter''))"

definition test_op_hash_by_code_matches :: "(bytes \<Rightarrow> bytes) \<Rightarrow> network \<Rightarrow> bytes \<Rightarrow> bytes \<Rightarrow> bool" where
  "test_op_hash_by_code_matches kec net onefunc_id tx_id \<longleftrightarrow>
     hashes_match kec (hash_test_data net onefunc_id tx_id [0, 4, 1, 2, 3, 4])"

lemma hashes_matchI:
  assumes "\<And>bs. length (kec bs) = 32" "operation_try_from v = Inr d"
    and "td_function_selector v ! 1 = word_of_nat (length (td_function_selector v) - 2)"
  shows "hashes_match kec v"
  using assms conversion_preimage [OF assms(2)]
  by (simp add: hashes_match_def t_op_hash_with_message_def t_op_hash_def op_hash_with_message_def op_hash_def
      hash_with_message_def)

lemma hash_tests_pass:
  assumes "\<And>bs. length (kec bs) = 32" "length onefunc_id = 32"
  shows "test_op_hash_by_name_matches kec net onefunc_id tx_id"
    and "test_op_hash_by_code_matches kec net onefunc_id tx_id"
proof -
  have "utf8_valid (str ''init_owned_counter'')" by (rule utf8_valid_str) simp
  then obtain d where d: "operation_try_from
      (hash_test_data net onefunc_id tx_id ([1, 0x12] @ str ''init_owned_counter'')) = Inr d"
    using assms(2) by (simp add: operation_try_from_def hash_test_data_def selector_try_from_def)
  show "test_op_hash_by_name_matches kec net onefunc_id tx_id"
    unfolding test_op_hash_by_name_matches_def
    by (rule hashes_matchI [OF assms(1) d]) (simp add: hash_test_data_def str_def)
  obtain d' where d': "operation_try_from (hash_test_data net onefunc_id tx_id [0, 4, 1, 2, 3, 4]) = Inr d'"
    using assms(2) by (simp add: operation_try_from_def hash_test_data_def selector_try_from_def)
  show "test_op_hash_by_code_matches kec net onefunc_id tx_id"
    unfolding test_op_hash_by_code_matches_def
    by (rule hashes_matchI [OF assms(1) d']) (simp add: hash_test_data_def)
qed

end
