(* ===== verification/Spec2Isabelle.thy ===== *)
theory Spec2Isabelle
  imports Chain_Relay Test_Listener Executor_App Consumer_Task Transactor_Cli Endpoint_Props Onefunc Transmitter_Data Op_Registry Rpc_Pool Gov_Pipeline Retro_Reader Consumer
    Suspending Block_Updater Alt_Manager App_Config Publisher_Cli Cross_Chain Executor_Chain Unit_Tests
begin

text \<open>
  \<^bold>\<open>Photon, the cross-chain messaging layer of Entangle, on Solana.\<close> This development models the Rust
  code of the repository: the on-chain endpoint program, the example program, and the off-chain
  transmitter (listener, watcher, executor) with its transaction sender. Paths below are relative to
  \<^verbatim>\<open>src/\<close>.

  \<^bold>\<open>The parts and how they interact.\<close> A program proposes an operation for another chain by calling
  \<^verbatim>\<open>propose\<close> of the endpoint (\<^verbatim>\<open>programs/entangle-photon-sol\<close>), which emits an event. The listener
  (\<^verbatim>\<open>transmitter-module/src/listener_app\<close>) reads the endpoint's transactions, takes the events from their
  logs and publishes them to a message queue. For the other direction, signed operations arrive in
  the executor's queue; the executor (\<^verbatim>\<open>executor_app\<close>) builds the instructions that load, sign and execute
  the operation, using a protocol extension (\<^verbatim>\<open>transmitter-protocol-extensions\<close>) to find the accounts,
  and sends them through the transactor (\<^verbatim>\<open>solana-transactor\<close>). The endpoint stores the operation under
  its hash, checks the transmitters' signatures against the protocol's roster, and calls the protocol
  program; operations of the governance protocol change the rosters. The watcher (\<^verbatim>\<open>watcher_app\<close>) reports
  executions, and the executor records the last block whose operations are all settled.

  \<^bold>\<open>Theories and sources.\<close>
  \<^item> \<open>Prelude\<close>, \<open>Bytes\<close>: machine integers, results with \<open>bindE\<close> for the \<^verbatim>\<open>?\<close> operator, fixed arrays, checked
    arithmetic, big-endian integers, UTF-8, chunks; the locales \<open>codec\<close> and \<open>total_codec\<close>.
  \<^item> \<open>Photon_Util\<close> (\<^verbatim>\<open>error.rs\<close>, \<^verbatim>\<open>util.rs\<close>), \<open>Protocol_Data\<close> (\<^verbatim>\<open>protocol_data.rs\<close>), \<open>Photon_State\<close> (the accounts, events
    and constants of \<^verbatim>\<open>lib.rs\<close>, and the account constraints of the framework), \<open>Gov\<close> (\<^verbatim>\<open>gov.rs\<close>), \<open>Endpoint\<close>
    (the instructions of \<^verbatim>\<open>lib.rs\<close>, each with its accounts struct). \<open>Concrete_Env\<close> is an executable instance
    of the runtime for the samples.
  \<^item> \<open>Lifecycle\<close> is the abstract specification None, Init, Signed, Executed of an operation;
    \<open>Endpoint_Effects\<close> gives the guards and the whole effect of each instruction, \<open>Endpoint_Inv\<close> the
    invariants of the reachable worlds by rule induction, \<open>Protocol_Records\<close> those of the protocol records, with
    the locale \<open>record_invariant\<close>, \<open>Endpoint_Props\<close> the properties.
  \<^item> \<open>Onefunc\<close> (\<^verbatim>\<open>programs/onefunc\<close>): the example program with its proposals.
  \<^item> \<open>Transmitter_Data\<close> (\<^verbatim>\<open>transmitter-common/src/data.rs\<close>): queue messages, their field encodings, the hash and
    the conversion to the endpoint's types.
  \<^item> \<open>Parse_Logs\<close>, \<open>Log_Processors\<close>, \<open>Retro_Reader\<close> (\<^verbatim>\<open>transmitter-module/src/common/solana_logs\<close> and the two
    \<^verbatim>\<open>solana_logs_processor.rs\<close>): events from logs, the locale \<open>event_processor\<close> for the trait with its two
    implementations, and the reader of the chain.
  \<^item> \<open>Rabbitmq\<close> (\<^verbatim>\<open>rabbitmq_client.rs\<close>, the two \<^verbatim>\<open>rabbitmq_publisher.rs\<close>), \<open>Consumer\<close> and \<open>Consumer_Task\<close>
    (\<^verbatim>\<open>rabbitmq_consumer.rs\<close>: polling, and polling beside reconnecting).
  \<^item> \<open>Event_Apps\<close> (\<^verbatim>\<open>listener_app/app.rs\<close>, \<^verbatim>\<open>watcher_app/app.rs\<close>): the three tasks of the two applications as one
    step relation, in the locale \<open>total_processor\<close>; \<open>Chain_Relay\<close> composes it with the log parser in the
    locale \<open>chain_relay\<close>, with both applications as its instances.
  \<^item> \<open>Ordered_Map\<close>, \<open>Op_Registry\<close>, \<open>Block_Updater\<close> (\<^verbatim>\<open>last_block_updater.rs\<close>): the locale for the ordered map, the
    registry of operations in flight, and the tasks around it.
  \<^item> \<open>Round_Robin\<close>, \<open>Rpc_Pool\<close>, \<open>Ix_Compiler\<close>, \<open>Transactor\<close>, \<open>Alt_Manager\<close> (\<^verbatim>\<open>solana-transactor/src\<close>): node selection
    with rate limits and retries, packing of instructions, sending and finalizing, lookup tables.
  \<^item> \<open>Extensions\<close> (the trait of \<^verbatim>\<open>protocol_extension.rs\<close> as the locale \<open>extension_contract\<close>, its four
    implementations, and \<^verbatim>\<open>extension_manager.rs\<close>), \<open>Operation_Manager\<close> and \<open>Suspending\<close>
    (\<^verbatim>\<open>operation_manager.rs\<close>), \<open>Executor_Pipeline\<close> and \<open>Gov_Pipeline\<close>: the executor's instructions run on the
    endpoint model. \<open>Executor_App\<close> (\<^verbatim>\<open>executor_app/app.rs\<close>): consumer, operations and block registry as one
    step relation. \<open>Executor_Chain\<close>: the processing loop, the sender and the endpoint against each other over a
    chain with atomic transactions, where a message may land more than once.
  \<^item> \<open>Wall_Clock\<close> (\<^verbatim>\<open>transmitter-common/src/utils.rs\<close>): the system time in milliseconds.
  \<^item> \<open>Transactor_Cli\<close> (\<^verbatim>\<open>solana-transactor/src/main.rs\<close>): the commands of the sender; the sender object and its
    queries (\<^verbatim>\<open>transactor.rs\<close>).
  \<^item> \<open>App_Config\<close> (the \<^verbatim>\<open>config.rs\<close> and \<^verbatim>\<open>cli.rs\<close> files, the constructors in \<^verbatim>\<open>app.rs\<close>): the configurations, reading
    them, and the start of the applications from them.
  \<^item> \<open>Event_Wire\<close>: base64 and the Borsh form of the two events that are read, with round trips, so that the
    parser's hypothesis \<open>codec_ok\<close> is a theorem for them; \<open>Cross_Chain\<close>: a proposal from the chain where it is
    made to the executor of the chain where it runs, its execution there, and the report of that execution by
    the watcher; \<open>Unit_Tests\<close>: the repository's unit tests of the log parser, of the block registry and of the
    operation hash, run on the model with the recorded logs.
  \<^item> \<open>Test_Listener\<close> (\<^verbatim>\<open>transmitter-test-listener\<close>): the consumer of the proposals.
  \<^item> \<open>Test_Publisher\<close>, \<open>Publisher_Cli\<close> (\<^verbatim>\<open>transmitter-test-publisher\<close>): the operations of the test tool, its commands
    and their publication.
  \<^item> This theory: the listener and the watcher from the chain to the broker, and the restart of the listener.

  \<^bold>\<open>How the code is modelled.\<close> Instructions are functions from the accounts passed, the arguments and the
  world to an error or a new world; every \<^verbatim>\<open>require!\<close>, account constraint, conversion error and panic is a
  branch. A world has the accounts by address, the emitted events and the state of other programs.
  Integers have their width; the release profile checks overflow, so it is a panic. Concurrent code is a
  step relation between its \<^verbatim>\<open>await\<close>s (\<open>pub_step\<close>, \<open>susp_step\<close>, \<open>updater_step\<close>, \<open>consumer_step\<close>, \<open>app_step\<close>, \<open>exec_step\<close>) with rule induction over the
  reachable states. Loops that wait for an answer are \<open>partial_function (option)\<close> over streams of answers,
  indexed by the number of questions asked: \<open>None\<close> is not returning, and the theorems that the loop
  returns are stated as such. No fuel is used.

  \<^bold>\<open>What is a parameter.\<close> Code outside the repository is a field of an environment record: Keccak and
  SHA-256, secp256k1 recovery, program addresses, the ABI and Borsh codecs, invocation of other
  programs, message compilation, base64 in general, JSON, the answers of nodes, broker and database, clocks. The
  named hypotheses about it are \<open>cpi_ok\<close> (an invoked program does not change the endpoint's accounts
  except through its instructions), \<open>op_pda_inj\<close> (addresses of operations are distinct), \<open>env_typed\<close> (typed
  ABI values, key width), \<open>compiler_ok\<close> (a compiled message keeps its instructions), \<open>clock_ok\<close>, \<open>calls_ok\<close>,
  \<open>turns_ok\<close>, \<open>call_succeeds\<close>, \<open>healthy\<close> (answers of a run), \<open>reads_chain\<close> (a node answers with the account that the
  chain holds), \<open>surroundings_ok\<close> (the other lines of a log are no events), \<open>lands\<close> (a confirmed message has been carried out), \<open>codec_ok\<close> (base64 and Borsh round trip), \<open>serves\<close> (the
  documented answers of \<^verbatim>\<open>getSignaturesForAddress\<close>), \<open>logs_of_trees\<close> (the runtime logs invocations as trees),
  \<open>parses_proposals\<close> (JSON that was written is read back) and \<open>compiled_from\<close> (the indices of a message
  refer to its keys). Each has a concrete instance in a witness.

  \<^bold>\<open>What the lemmas show.\<close> For the endpoint: an operation's events are one load, approvals and at most one
  execution; approval needs the target rate of distinct registered signers over the operation's hash;
  the handlers refine the abstract life cycle; operation accounts are bound to their hash and only
  move forward; rosters and admin change only when authorised, rosters have no duplicates and no gaps and rates
  are in range (but for what \<^verbatim>\<open>initialize\<close> stores unchecked); proposal nonces are consecutive; the
  effect of every governance operation. For the executor: the three instructions it builds take an
  operation to Executed; run against sender and endpoint, the processing loop drives an operation from any
  stage to its execution although messages may land repeatedly, and what it reports was true at its last
  reading whatever else happens on the chain; the loop settles, no block is recorded too early, suspended
  operations resume, and a reload keeps every protocol with its own extension. For the sender: packing and sending keep every instruction in order, requests
  rotate over the nodes, a confirmed signature belongs to the message. For the listener: parsing
  recovers the endpoint's events, the reader delivers every transaction exactly once, publishing loses
  nothing, and together: whatever the tasks do, the broker gets exactly the messages for a stretch of the
  chain, and the tasks can always catch up; the same for the watcher; a restart resumes at the last
  consumed transaction. A proposal arrives at the executor of another endpoint as it was made, through the
  real encodings, both ends hash the same bytes, and the instructions of that executor make its endpoint call
  the proposed program with the proposed selector and parameters; the watcher there reports that execution
  once, with its hash. For the executor as a whole: a stored block is settled, as
  far as the registry knew its operations. For the command line:
  taking transactions apart recovers their instructions. Several theorems prove defects of the code: a
  forged event is accepted, a missed close notification is never recovered by publisher and consumer, governance messages are
  not bound to their operation, more than 16 signers can never approve, a message that the broker refuses is
  lost.

  \<^bold>\<open>Not modelled.\<close> The parsing of command lines, the library that reads configuration files (its value tree is
  a parameter), logging, and the scripts in other languages. Transactions and tasks on the nodes' side are
  only seen through their answers; the sender is modelled for one message at a time, as the executor uses
  it. Two unit tests are left out (they measure real message lengths and real signatures), and a test
  that sends to the public network.
\<close>

section \<open>From the chain to the broker\<close>

text \<open>C34: The listener relays the chain: it loses, repeats, invents and reorders nothing between the node and the
  broker, on a chain whose transactions log invocation trees with harmless messages (\<open>logs_of_trees\<close>; C29 shows
  what other messages can do). It starts after the transaction \<open>u\<close>. In every state that its three concurrent tasks can reach,
  what the broker has accepted, followed by what the publisher still holds, are the messages (apart from
  their \<^verbatim>\<open>need_check\<close> flag) for exactly those proposals that the endpoint logged for allowed protocols in the successful
  transactions of a stretch of the chain that begins after \<open>u\<close>, in the order of the chain; and the
  application has not panicked.\<close>

theorem listener_relays_chain:
  assumes "serves env hist lim" "u \<in> set (hist k)"
    and "event_app_start (re_sigs env) (Inr ()) configured mongo last_block k = Inr (event_app_new r k)"
    and "rd_tx_read_from r = Some u" "name_ok photon" "logs_of_trees env lenv photon roots"
    and "listener_reachable net ps env lenv photon json r k s"
  shows "\<exists>ss msgs. prefix ss (newer u (hist (ea_requests s)))
    \<and> List.map checked msgs = expected_proposals net env lenv photon ps roots ss
    \<and> pb_accepted (ea_publisher s) @ encoded propose_message json (Rabbitmq.pending (ea_publisher s)) =
        encoded propose_message json msgs
    \<and> (\<forall>p. ea_stop s \<noteq> Some (AppPanic p))"
proof -
  note start = assms(1) started_at [OF assms(3,4)] assms(2) listener_serves [OF assms(5,6)]
  have reach: "app_reachable env lenv photon (on_propose_event net (re_sigs env) (proposal_event_processor_new ps))
      propose_message json r k s"
    using assms(7) app_steps_reachable by (auto simp: listener_reachable_def listener_app_step_def)
  show ?thesis
    using listener.app_relays [OF start reach] listener.app_never_panics [OF start reach]
      app_publisher_exact [OF proposals.app_reachable_inv [OF reach]]
    unfolding relayed_proposals [OF assms(1)] by metis
qed

definition sample_chain :: retro_env where
  "sample_chain = sample_retro_env\<lparr>re_transaction :=
     (\<lambda>s. \<lparr>rt_slot = 9, rt_meta = Some \<lparr>tm_err = (s = [3]), tm_log_messages = Some (lb_logs sample_bunch)\<rparr>\<rparr>)\<rparr>"

lemma sample_chain_serves: "serves sample_chain (\<lambda>_. sample_hist) 2"
  using sample_serves by (simp add: serves_def sample_chain_def)

lemma sample_chain_logs: "has_logs sample_chain s \<longleftrightarrow> s \<noteq> [3]"
  by (simp add: has_logs_def sample_chain_def tx_logs_def sample_bunch_def)

lemma sample_chain_trees: "logs_of_trees sample_chain sample_proposal_env ''Photon'' (\<lambda>_. [sample_root])"
  unfolding logs_of_trees_def sample_chain_logs
  using sample_roots sample_bunch_logs by (simp add: sample_chain_def tx_logs_def)

lemma sample_started:
  "event_app_start (re_sigs sample_chain) (Inr ()) (Some [char_of (1 :: nat)])
      \<lparr>mg_options = None, mg_client = None, mg_find_one = None\<rparr> [] 0 =
     Inr (event_app_new \<lparr>rd_tx_read_from = Some [1], rd_until = None, rd_next_until = None\<rparr> 0)"
  by (simp add: event_app_start_def reader_start_def get_tx_read_from_def sample_chain_def sample_retro_env_def
      sample_retro_sigs_def)

abbreviation sample_reader :: reader where
  "sample_reader \<equiv> \<lparr>rd_tx_read_from = Some [1], rd_until = None, rd_next_until = None\<rparr>"

lemma sample_reachable:
  "listener_reachable Devnet [gov_protocol_id] sample_chain sample_proposal_env ''Photon'' sample_json sample_reader 0
     (event_app_new sample_reader 0 :: (t_propose, nat) event_app)"
  by (simp add: listener_reachable_def)

lemma sample_expected:
  "length (expected_proposals Devnet sample_chain sample_proposal_env ''Photon'' [gov_protocol_id]
      (\<lambda>_. [sample_root]) (newer [1] sample_hist)) = 2"
proof -
  have "tx_proposals sample_proposal_env ''Photon'' [gov_protocol_id] [sample_root] = [sample_proposal]"
    unfolding tx_proposals_def tx_events_def sample_root_events using gov_allowed by (simp add: sample_proposal_def)
  then show ?thesis by (simp add: expected_proposals_def sample_chain_logs sample_hist_def newer_def)
qed

lemma sample_json_length [simp]: "length (encoded wrap sample_json ms) = length ms"
  by (induction ms) (simp_all add: sample_json_def)

text \<open>One complete run of the sample.\<close>

lemma sample_caught_up:
  "\<exists>s :: (t_propose, nat) event_app.
     listener_reachable Devnet [gov_protocol_id] sample_chain sample_proposal_env ''Photon'' sample_json sample_reader 0 s
     \<and> length (pb_accepted (ea_publisher s)) = 2"
proof -
  let ?s = "event_app_new sample_reader 0 :: (t_propose, nat) event_app"
  let ?h = "on_propose_event Devnet (re_sigs sample_chain) (proposal_event_processor_new [gov_protocol_id])"
  have u: "position sample_reader = Some [1]" "[1] \<in> set sample_hist"
    by (simp_all add: position_def next_window_def sample_hist_def)
  have s: "ea_stop ?s = None" "recoverable (ea_publisher ?s)" "\<forall>m. sample_json (propose_message m) \<noteq> None"
    by (simp_all add: event_app_new_def publisher_new_def recoverable_def sample_json_def)
  have reach: "app_reachable sample_chain sample_proposal_env ''Photon'' ?h propose_message sample_json sample_reader 0 ?s"
    by (rule app_reachable.start)
  from listener.app_catches_up [OF sample_chain_serves u listener_serves [OF sample_names(1) sample_chain_trees] reach s]
  obtain s' where "(app_step sample_chain sample_proposal_env ''Photon'' ?h propose_message sample_json)\<^sup>*\<^sup>* ?s s'"
    "List.map checked (pb_received (ea_publisher s')) =
       expected_proposals Devnet sample_chain sample_proposal_env ''Photon'' [gov_protocol_id] (\<lambda>_. [sample_root])
         (newer [1] sample_hist)"
    "pb_accepted (ea_publisher s') = encoded propose_message sample_json (pb_received (ea_publisher s'))"
    unfolding relayed_proposals [OF sample_chain_serves] by blast
  then show ?thesis
    using sample_expected unfolding listener_reachable_def listener_app_step_def by (metis length_map sample_json_length)
qed

lemma listener_relays_chain_witness:
  "\<exists>(s :: (t_propose, nat) event_app) ss msgs. length (pb_accepted (ea_publisher s)) = 2
     \<and> prefix ss (newer [1] sample_hist)
     \<and> List.map checked msgs =
         expected_proposals Devnet sample_chain sample_proposal_env ''Photon'' [gov_protocol_id] (\<lambda>_. [sample_root]) ss
     \<and> pb_accepted (ea_publisher s) @ encoded propose_message sample_json (Rabbitmq.pending (ea_publisher s)) =
         encoded propose_message sample_json msgs"
proof -
  obtain s :: "(t_propose, nat) event_app" where s:
    "listener_reachable Devnet [gov_protocol_id] sample_chain sample_proposal_env ''Photon'' sample_json sample_reader 0 s"
    "length (pb_accepted (ea_publisher s)) = 2" using sample_caught_up by blast
  have u: "[1] \<in> set sample_hist" by (simp add: sample_hist_def)
  have "rd_tx_read_from sample_reader = Some [1]" by simp
  from listener_relays_chain [OF sample_chain_serves u sample_started this sample_names(1) sample_chain_trees s(1)] s(2)
  show ?thesis by blast
qed

text \<open>C35: The listener can always catch up, on the same chains as in C34. In every reachable state in which it runs and its publisher has not
  missed the closing of its connection, the tasks can go on, with no failure, to a state in which the broker
  has accepted the messages for all proposals for allowed protocols in the chain after \<open>u\<close>, as the chain is
  at the next request of the reader, and nothing else.\<close>

theorem listener_catches_up:
  assumes "serves env hist lim" "u \<in> set (hist k)"
    and "event_app_start (re_sigs env) (Inr ()) configured mongo last_block k = Inr (event_app_new r k)"
    and "rd_tx_read_from r = Some u" "name_ok photon" "logs_of_trees env lenv photon roots"
    and "listener_reachable net ps env lenv photon json r k s"
    and "ea_stop s = None" "recoverable (ea_publisher s)" "\<forall>m. json m \<noteq> None"
  shows "\<exists>s' msgs. (listener_app_step net ps env lenv photon json)\<^sup>*\<^sup>* s s'
    \<and> pb_accepted (ea_publisher s') = encoded propose_message json msgs
    \<and> List.map checked msgs =
        expected_proposals net env lenv photon ps roots (newer u (hist (ea_requests s)))"
proof -
  note start = assms(1) started_at [OF assms(3,4)] assms(2) listener_serves [OF assms(5,6)]
  have reach: "app_reachable env lenv photon (on_propose_event net (re_sigs env) (proposal_event_processor_new ps))
      propose_message json r k s"
    using assms(7) app_steps_reachable by (auto simp: listener_reachable_def listener_app_step_def)
  have "\<forall>m. json (propose_message m) \<noteq> None" using assms(10) by simp
  from listener.app_catches_up [OF start reach assms(8,9) this] show ?thesis
    unfolding relayed_proposals [OF assms(1)] listener_app_step_def by auto
qed

lemma listener_catches_up_witness:
  "\<exists>s' :: (t_propose, nat) event_app.
     (listener_app_step Devnet [gov_protocol_id] sample_chain sample_proposal_env ''Photon'' sample_json)\<^sup>*\<^sup>*
       (event_app_new sample_reader 0) s'
     \<and> length (pb_accepted (ea_publisher s')) = 2"
proof -
  let ?s = "event_app_new sample_reader 0 :: (t_propose, nat) event_app"
  have u: "[1] \<in> set sample_hist" by (simp add: sample_hist_def)
  have "rd_tx_read_from sample_reader = Some [1]" "ea_stop ?s = None" "recoverable (ea_publisher ?s)"
    "\<forall>m. sample_json m \<noteq> None"
    by (simp_all add: event_app_new_def publisher_new_def recoverable_def sample_json_def)
  from listener_catches_up [OF sample_chain_serves u sample_started this(1) sample_names(1) sample_chain_trees
      sample_reachable this(2-4)]
  show ?thesis using sample_expected by (metis length_map sample_json_length)
qed

text \<open>The watcher relays the executions. In every state it can reach, the messages the broker has accepted,
  followed by those its publisher still holds, report exactly the executions that the endpoint logged in
  the successful transactions of a stretch of the chain after \<open>u\<close>, in order, each with its operation hash,
  its executor and the signature of its transaction; and the watcher has not panicked, as long as the logged
  hashes have 32 bytes.\<close>

theorem watcher_relays_chain:
  assumes "serves env hist lim" "u \<in> set (hist k)"
    and "event_app_start (re_sigs env) (Inr ()) configured mongo last_block k = Inr (event_app_new r k)"
    and "rd_tx_read_from r = Some u" "name_ok photon" "logs_of_trees env lenv photon roots"
    and "\<forall>s. has_logs env s \<longrightarrow> (\<forall>e \<in> set (tx_events lenv photon (roots s)). length (xv_op_hash e) = 32)"
    and "watcher_reachable env lenv photon json r k s"
  shows "\<exists>ss msgs. prefix ss (newer u (hist (ea_requests s)))
    \<and> List.map executed_core msgs = expected_executions env lenv photon roots ss
    \<and> pb_accepted (ea_publisher s) @ encoded executed_message json (Rabbitmq.pending (ea_publisher s)) =
        encoded executed_message json msgs
    \<and> (\<forall>p. ea_stop s \<noteq> Some (AppPanic p))"
proof -
  have "serves_events (\<lambda>e. length (xv_op_hash e) = 32) env lenv photon roots"
    using assms(5-7) by (simp add: serves_events_def list_all_iff)
  note start = assms(1) started_at [OF assms(3,4)] assms(2) this
  have reach: "app_reachable env lenv photon on_executed_event executed_message json r k s"
    using assms(8) app_steps_reachable by (auto simp: watcher_reachable_def watcher_app_step_def)
  show ?thesis
    using watcher.app_relays [OF start reach] watcher.app_never_panics [OF start reach]
      app_publisher_exact [OF executions.app_reachable_inv [OF reach]]
    unfolding relayed_executions by metis
qed

text \<open>A chain of four transactions, the third failed, each with one execution.\<close>

definition sample_execution :: executed_event where
  "sample_execution = \<lparr>xv_op_hash = replicate 32 5, xv_executor = replicate 32 6\<rparr>"

definition sample_watch_env :: "executed_event log_env" where
  "sample_watch_env =
     \<lparr>le_base64 = (\<lambda>s. if s = ''8vb9'' then Some [1, 2, 3, 4, 5, 6, 7, 8] else None),
      le_discriminator = [1, 2, 3, 4, 5, 6, 7, 8], le_deserialize = (\<lambda>_. Some sample_execution)\<rparr>"

definition sample_watch_emit :: "executed_event emit_env" where
  "sample_watch_emit = \<lparr>em_base64 = (\<lambda>_. ''8vb9''), em_serialize = (\<lambda>_. [])\<rparr>"

abbreviation sample_watch_root :: log_item where
  "sample_watch_root \<equiv>
     Invocation ''One'' ''1'' [endpoint_call sample_watch_env sample_watch_emit ''Photon'' ''2'' [sample_execution]]"

lemma sample_watch_codec: "codec_ok sample_watch_env sample_watch_emit sample_execution"
  by (simp add: codec_ok_def sample_watch_env_def sample_watch_emit_def Let_def)

lemma sample_watch_trees: "logs_of_trees sample_chain sample_watch_env ''Photon'' (\<lambda>_. [sample_watch_root])"
proof -
  have "\<forall>r \<in> set [sample_watch_root]. \<exists>p d items.
      r = Invocation p d items \<and> tree_ok sample_watch_env ''Photon'' p r"
    using endpoint_call_ok [of "[sample_execution]" sample_watch_env sample_watch_emit] sample_watch_codec sample_names
    by simp
  moreover have "lb_logs sample_bunch = concat (List.map render [sample_watch_root])"
    by (simp add: sample_bunch_def endpoint_call_def emitted_line_def sample_watch_emit_def sample_watch_env_def
        invoke_line_def success_line_def)
  ultimately show ?thesis
    unfolding logs_of_trees_def sample_chain_logs by (simp add: sample_chain_def tx_logs_def)
qed

lemma sample_watch_events: "tx_events sample_watch_env ''Photon'' [sample_watch_root] = [sample_execution]"
  using endpoint_call_events [of "[sample_execution]"] sample_watch_codec by (simp add: tx_events_def)

lemma watcher_relays_chain_witness:
  "\<exists>ss msgs. prefix ss (newer [1] sample_hist)
     \<and> List.map executed_core msgs =
         expected_executions sample_chain sample_watch_env ''Photon'' (\<lambda>_. [sample_watch_root]) ss
     \<and> length (expected_executions sample_chain sample_watch_env ''Photon'' (\<lambda>_. [sample_watch_root]) (newer [1] sample_hist)) = 2"
proof -
  let ?s = "event_app_new sample_reader 0 :: (t_proposal_executed, nat) event_app"
  have "[1] \<in> set sample_hist" "rd_tx_read_from sample_reader = Some [1]" by (simp_all add: sample_hist_def)
  moreover have "\<forall>s. has_logs sample_chain s \<longrightarrow>
      (\<forall>e \<in> set (tx_events sample_watch_env ''Photon'' [sample_watch_root]). length (xv_op_hash e) = 32)"
    unfolding sample_watch_events by (simp add: sample_execution_def)
  moreover have "watcher_reachable sample_chain sample_watch_env ''Photon'' sample_json sample_reader 0 ?s"
    by (simp add: watcher_reachable_def)
  ultimately have "\<exists>ss msgs. prefix ss (newer [1] sample_hist)
     \<and> List.map executed_core msgs =
         expected_executions sample_chain sample_watch_env ''Photon'' (\<lambda>_. [sample_watch_root]) ss"
    using watcher_relays_chain [OF sample_chain_serves _ sample_started _ sample_names(1) sample_watch_trees] by blast
  moreover have "length (expected_executions sample_chain sample_watch_env ''Photon'' (\<lambda>_. [sample_watch_root])
      (newer [1] sample_hist)) = 2"
    unfolding expected_executions_def sample_watch_events by (simp add: sample_chain_logs sample_hist_def newer_def)
  ultimately show ?thesis by blast
qed

section \<open>Restarting the listener\<close>

text \<open>
  The consumer at the other end of the queue stores the transaction of the last proposal, and a listener
  that is started without a configured position reads it back.
\<close>

lemma expected_proposals_append:
  "expected_proposals net env lenv photon ps roots (ss @ ts) =
     expected_proposals net env lenv photon ps roots ss @ expected_proposals net env lenv photon ps roots ts"
  by (simp add: expected_proposals_def)

lemma expected_block_id:
  "m \<in> set (expected_proposals net env lenv photon ps roots [x]) \<Longrightarrow>
   tp_latest_block_id m = sg_to_string (re_sigs env) x"
  by (auto simp: expected_proposals_def propose_of_def split: if_splits)

lemma split_at_transaction:
  assumes "serves env hist lim" "u \<in> set (hist k)" "prefix (ss @ [x]) (newer u (hist k))" "k \<le> m"
  shows "newer u (hist m) = ss @ [x] @ newer x (hist m)" "x \<in> set (hist m)"
proof -
  have dist: "distinct (hist i)" for i using assms(1) by (simp add: serves_def)
  obtain e where e: "hist m = hist k @ e" using serves_chain [OF assms(1,4)] .
  obtain z where z: "newer u (hist k) = ss @ x # z" using assms(3) by (auto simp: prefix_def)
  have nm: "newer u (hist m) = ss @ x # (z @ e)"
    using newer_extends [OF assms(2) dist, of e] e z by simp
  have um: "u \<in> set (hist m)" using assms(2) e by simp
  obtain p where "hist m = p @ u # newer u (hist m)" using chain_split [OF um dist] .
  then have "distinct (newer u (hist m))" using dist [of m] by (metis distinct.simps(2) distinct_append)
  then have "x \<notin> set ss" using nm by auto
  moreover have "x \<in> set (newer u (hist m))" using nm by simp
  ultimately show "newer u (hist m) = ss @ [x] @ newer x (hist m)"
    using newer_newer [OF um dist] nm by (metis append_Cons append_Nil newer_at)
  show "x \<in> set (hist m)" using \<open>x \<in> set (newer u (hist m))\<close> newer_subset by fastforce
qed

text \<open>C38: A restart resumes at the last consumed transaction. Suppose the consumer has taken the messages for
  all proposals of a stretch \<open>ss\<close> of the chain after \<open>u\<close> and for the first \<open>i > 0\<close> proposals of the next
  transaction \<open>x\<close>. A listener that is then started without a configured position reads on after \<open>x\<close>. So
  what was consumed, the proposals of \<open>x\<close> that were not, and what the restarted listener has to send are
  together the proposals of the chain after \<open>u\<close>: when all of \<open>x\<close> was consumed, nothing is lost and nothing is
  repeated; when it was not, the rest of \<open>x\<close> is never sent.\<close>

theorem restart_resumes:
  assumes "serves env hist lim" "u \<in> set (hist k)" "prefix (ss @ [x]) (newer u (hist k))" "k \<le> m"
    and "parses_proposals json propose_message parse" "mkey \<noteq> ''updated_at''"
    and "consume_all parse mkey ds st = Inr st'" "list_all2 (\<lambda>d p. json (propose_message p) = Some (te_data d)) ds msgs"
    and "List.map checked msgs = expected_proposals net env lenv photon ps roots ss
          @ take i (expected_proposals net env lenv photon ps roots [x])"
    and "0 < i" "expected_proposals net env lenv photon ps roots [x] \<noteq> []"
  shows "\<exists>r. event_app_start (re_sigs env) (Inr ()) None
        \<lparr>mg_options = Some (), mg_client = Some (), mg_find_one = Some (st_doc st')\<rparr> mkey m = Inr (event_app_new r m)
    \<and> rd_tx_read_from r = Some x \<and> x \<in> set (hist m)
    \<and> expected_proposals net env lenv photon ps roots (newer u (hist m)) =
        List.map checked msgs @ drop i (expected_proposals net env lenv photon ps roots [x])
        @ expected_proposals net env lenv photon ps roots (newer x (hist m))"
proof -
  let ?e = "expected_proposals net env lenv photon ps roots"
  have ne: "take i (?e [x]) \<noteq> []" using assms(10,11) by simp
  then have "msgs \<noteq> []" using assms(9) by auto
  then have "checked (List.last msgs) = List.last (take i (?e [x]))"
    using ne by (metis assms(9) last_appendR last_map)
  moreover have "List.last (take i (?e [x])) \<in> set (?e [x])" using ne by (meson in_set_takeD last_in_set)
  ultimately have id: "tp_latest_block_id (List.last msgs) = sg_to_string (re_sigs env) x"
    using expected_block_id by (metis checked_def t_propose.select_convs(2) t_propose.update_convs(1) t_propose.cases)
  obtain doc where doc: "st_doc st' = Some doc" "doc mkey = Some (BsonString (sg_to_string (re_sigs env) x))"
    using consume_last [OF assms(5,7,8) \<open>msgs \<noteq> []\<close> assms(6)] id by auto
  have "sg_from_str (re_sigs env) (sg_to_string (re_sigs env) x) = Some x" using assms(1) by (simp add: serves_def)
  with doc have "event_app_start (re_sigs env) (Inr ()) None
      \<lparr>mg_options = Some (), mg_client = Some (), mg_find_one = Some (st_doc st')\<rparr> mkey m =
    Inr (event_app_new \<lparr>rd_tx_read_from = Some x, rd_until = None, rd_next_until = None\<rparr> m)"
    by (simp add: event_app_start_def reader_start_def get_tx_read_from_def get_last_processed_block_def)
  moreover note split = split_at_transaction [OF assms(1-4)]
  have "?e (newer u (hist m)) = List.map checked msgs @ drop i (?e [x]) @ ?e (newer x (hist m))"
    unfolding split(1) assms(9) expected_proposals_append by (metis append.assoc append_take_drop_id)
  ultimately show ?thesis using split(2) by auto
qed

definition sample_message :: t_propose where
  "sample_message = propose_of Devnet (re_sigs sample_chain) sample_proposal [2] 9 True"

definition sample_strict_json :: "transmitter_msg \<Rightarrow> bytes option" where
  "sample_strict_json m = (if m = propose_message sample_message then Some [1] else None)"

definition sample_parse :: "bytes \<Rightarrow> transmitter_msg_impl option option" where
  "sample_parse bs = Some (Some (MsgPropose (sample_message\<lparr>tp_need_check := False\<rparr>)))"

lemma restart_resumes_witness:
  "\<exists>r. event_app_start (re_sigs sample_chain) (Inr ()) None
        \<lparr>mg_options = Some (), mg_client = Some (),
         mg_find_one = Some (set_fields ''key'' (tp_latest_block_id sample_message) None)\<rparr> ''key'' 7 =
      Inr (event_app_new r 7) \<and> rd_tx_read_from r = Some [2]"
proof -
  let ?d = "\<lparr>te_tag = 1, te_data = [1], te_now = 0, te_update_ok = True, te_ack_ok = True\<rparr>"
  let ?s = "\<lparr>st_doc = set_fields ''key'' (tp_latest_block_id sample_message) None, st_acked = [1]\<rparr>"
  let ?e = "expected_proposals Devnet sample_chain sample_proposal_env ''Photon'' [gov_protocol_id] (\<lambda>_. [sample_root])"
  have parse: "parses_proposals sample_strict_json propose_message sample_parse"
    by (auto simp: parses_proposals_def sample_strict_json_def sample_parse_def propose_message_def
        transmitter_msg_new_def split: if_splits)
  have run: "consume_all sample_parse ''key'' [?d] \<lparr>st_doc = None, st_acked = []\<rparr> = Inr ?s"
    by (simp add: consume_def sample_parse_def expect_def require_def)
  have data: "list_all2 (\<lambda>d p. sample_strict_json (propose_message p) = Some (te_data d)) [?d] [sample_message]"
    by (simp add: sample_strict_json_def)
  have "tx_proposals sample_proposal_env ''Photon'' [gov_protocol_id] [sample_root] = [sample_proposal]"
    unfolding tx_proposals_def tx_events_def sample_root_events using gov_allowed by (simp add: sample_proposal_def)
  then have e: "?e [[2]] = [sample_message]"
    by (simp add: expected_proposals_def sample_chain_logs sample_message_def) (simp add: sample_chain_def)
  have msgs: "List.map checked [sample_message] = ?e [] @ take 1 (?e [[2]])"
    unfolding e by (simp add: expected_proposals_def checked_def sample_message_def propose_of_def)
  have "[1] \<in> set sample_hist" "prefix ([] @ [[2]]) (newer [1] sample_hist)"
    by (simp_all add: sample_hist_def newer_def)
  from restart_resumes [OF sample_chain_serves this _ parse _ run data msgs] e show ?thesis
    by (auto dest: meta_spec [of _ 7])
qed

end
